(* ===== verification/Aio_Prelude.thy ===== *)
theory Aio_Prelude
  imports Complex_Main "HOL-Library.Multiset"
begin

text \<open>
  Shared vocabulary of the development: the exceptions of the program with Python's class
  tests, instants of the clock, object identities, the collection \<open>aio_simps\<close> that the
  component proofs rewrite with, and a few facts on lists.
\<close>

section \<open>Identities and time\<close>

text \<open>
  Python objects that are compared by identity (handles, futures, events, tasks) are
  numbered; a clock reading or a delay is a rational number of seconds.
\<close>

type_synonym hid = nat
type_synonym fid = nat
type_synonym eid = nat
type_synonym instant = rat

section \<open>Exceptions\<close>

text \<open>
  One constructor per exception class the program raises, catches or tests for. The last
  two stand for the exception classes of user code (subclasses of \<open>Exception\<close>, and
  other \<open>BaseException\<close> classes). \<open>ExcGroup c es\<close> is a
  \<open>BaseExceptionGroup\<close> holding \<open>es\<close>; \<open>c\<close> says whether it carries Trio's mark
  that a single-exception group may be collapsed (the \<open>collapse\<close> attribute or the note).
\<close>

datatype exn =
    RuntimeError string
  | AssertionError
  | AttributeError
  | IndexError
  | KeyError
  | TypeError
  | ValueError
  | OSError
  | InvalidStateError
  | NotImplementedError
  | StopAsyncIteration
  | WouldBlock
  | ChildProcessError
  | UnknownStatus int
  | CancelledError
  | Cancelled
  | SystemExit
  | TrioAsyncioExit
  | KeyboardInterrupt
  | GeneratorExit
  | UserException nat
  | UserBaseException nat
  | ExcGroup bool "exn list"

text \<open>
  \<open>isinstance(e, Exception)\<close>. A group is an \<open>ExceptionGroup\<close>, hence an
  \<open>Exception\<close>, exactly if all its members are: the constructor of
  \<open>BaseExceptionGroup\<close> picks the class that way.
\<close>

fun is_Exception :: "exn \<Rightarrow> bool" where
  "is_Exception CancelledError = False"
| "is_Exception Cancelled = False"
| "is_Exception SystemExit = False"
| "is_Exception TrioAsyncioExit = False"
| "is_Exception KeyboardInterrupt = False"
| "is_Exception GeneratorExit = False"
| "is_Exception (UserBaseException _) = False"
| "is_Exception (ExcGroup _ es) = list_all is_Exception es"
| "is_Exception _ = True"

text \<open>\<open>isinstance(e, trio.Cancelled)\<close>\<close>

fun is_Cancelled :: "exn \<Rightarrow> bool" where
  "is_Cancelled Cancelled = True"
| "is_Cancelled _ = False"

text \<open>\<open>isinstance(e, (SystemExit, KeyboardInterrupt))\<close>; \<open>TrioAsyncioExit\<close> is a
  subclass of \<open>SystemExit\<close>.\<close>

fun is_exit :: "exn \<Rightarrow> bool" where
  "is_exit SystemExit = True"
| "is_exit TrioAsyncioExit = True"
| "is_exit KeyboardInterrupt = True"
| "is_exit _ = False"

fun is_group :: "exn \<Rightarrow> bool" where
  "is_group (ExcGroup _ _) = True"
| "is_group _ = False"

section \<open>Automation\<close>

named_theorems aio_simps \<open>rewrite rules shared by the component proofs\<close>

lemma Suc_half_less [termination_simp]: "0 < (i::nat) \<Longrightarrow> (i - Suc 0) div 2 < i"
  by arith

lemma list_all_mono_imp: "list_all P xs \<Longrightarrow> (\<And>x. x \<in> set xs \<Longrightarrow> P x \<Longrightarrow> Q x) \<Longrightarrow> list_all Q xs"
  by (simp add: list_all_iff)

lemma mset_list_update_swap:
  assumes "i < length h" and "j < length h"
  shows "mset (h[i := h ! j, j := x]) = mset (h[i := x])"
proof (cases "i = j")
  case True
  then show ?thesis by simp
next
  case False
  let ?g = "h[i := x]"
  have "mset (?g[j := ?g ! i, i := ?g ! j]) = mset ?g"
    using assms by (intro mset_swap) simp_all
  moreover have "?g[j := ?g ! i, i := ?g ! j] = h[i := h ! j, j := x]"
    using False assms by (intro nth_equalityI) (auto simp: nth_list_update)
  ultimately show ?thesis by simp
qed

section \<open>Stateful Python code\<close>

text \<open>
  A method takes the state and returns the new state with the exception it raised or its
  value: what the code did before an exception stays done. \<open>py_bind f g\<close> runs \<open>f\<close>
  and, unless it raised, \<open>g\<close> on its value.
\<close>

type_synonym ('s, 'a) py = "'s \<Rightarrow> 's \<times> (exn + 'a)"

definition py_return :: "'a \<Rightarrow> ('s, 'a) py" where
  "py_return x s = (s, Inr x)"

definition py_raise :: "exn \<Rightarrow> ('s, 'a) py" where
  "py_raise e s = (s, Inl e)"

definition py_bind :: "('s, 'a) py \<Rightarrow> ('a \<Rightarrow> ('s, 'b) py) \<Rightarrow> ('s, 'b) py" where
  "py_bind f g s = (case f s of (s', Inl e) \<Rightarrow> (s', Inl e) | (s', Inr x) \<Rightarrow> g x s')"

lemma py_return_apply [simp]: "py_return x s = (s, Inr x)"
  by (simp add: py_return_def)

lemma py_raise_apply [simp]: "py_raise e s = (s, Inl e)"
  by (simp add: py_raise_def)

lemma py_bind_eq:
  "f s = (s', r) \<Longrightarrow> py_bind f g s = (case r of Inl e \<Rightarrow> (s', Inl e) | Inr x \<Rightarrow> g x s')"
  by (simp add: py_bind_def)

text \<open>A reflexive and transitive relation that both parts respect is respected by the
  whole: how frame conditions are proved.\<close>

lemma py_bind_rel:
  assumes "R s (fst (f s))" and "\<And>s' x. f s = (s', Inr x) \<Longrightarrow> R s' (fst (g x s'))"
    and "\<And>a b c. R a b \<Longrightarrow> R b c \<Longrightarrow> R a c"
  shows "R s (fst (py_bind f g s))"
proof (cases "f s")
  case (Pair s' r)
  show ?thesis
  proof (cases r)
    case (Inl e)
    then show ?thesis using assms(1) Pair by (simp add: py_bind_eq)
  next
    case (Inr x)
    then show ?thesis using assms(1) assms(2) [of s' x] assms(3) [of s s'] Pair
      by (simp add: py_bind_eq)
  qed
qed

end
