(* ===== verification/Heapq.thy ===== *)
theory Heapq
  imports Aio_Prelude
begin

text \<open>
  The binary heap of Python's standard \<open>heapq\<close> module, on which the event loop keeps
  its timers (\<open>_base.py\<close>, \<open>_timers\<close>), as an instance of a priority-queue
  interface. The loops follow the module's own: a hole is moved, and the item that is
  being placed is written once, at the end.
\<close>

section \<open>The interface\<close>

text \<open>
  What the event loop relies on: \<open>elems\<close> is the content, \<open>key\<close> the ordering
  (\<open>TimerHandle.__lt__\<close> compares \<open>_when\<close>), \<open>pop\<close> raises (\<open>None\<close>) exactly on an
  empty heap and otherwise removes an element with the least key.
\<close>

locale priority_queue =
  fixes push :: "'q \<Rightarrow> 'a \<Rightarrow> 'q"
    and pop :: "'q \<Rightarrow> ('a \<times> 'q) option"
    and elems :: "'q \<Rightarrow> 'a multiset"
    and invar :: "'q \<Rightarrow> bool"
    and key :: "'a \<Rightarrow> 'k::linorder"
  assumes push_elems: "elems (push q x) = add_mset x (elems q)"
    and push_invar: "invar q \<Longrightarrow> invar (push q x)"
    and pop_None_iff: "pop q = None \<longleftrightarrow> elems q = {#}"
    and pop_elems: "pop q = Some (x, q') \<Longrightarrow> elems q = add_mset x (elems q')"
    and pop_invar: "invar q \<Longrightarrow> pop q = Some (x, q') \<Longrightarrow> invar q'"
    and pop_least: "invar q \<Longrightarrow> pop q = Some (x, q') \<Longrightarrow> y \<in># elems q \<Longrightarrow> key x \<le> key y"

text \<open>Popping up to \<open>n\<close> elements in a row, as the loop does when several timers are due.\<close>

fun pops :: "('q \<Rightarrow> ('a \<times> 'q) option) \<Rightarrow> nat \<Rightarrow> 'q \<Rightarrow> 'a list \<times> 'q" where
  "pops pop 0 q = ([], q)"
| "pops pop (Suc n) q =
     (case pop q of
        None \<Rightarrow> ([], q)
      | Some (x, q') \<Rightarrow> (let (xs, q'') = pops pop n q' in (x # xs, q'')))"

context priority_queue
begin

lemma pops_elems: "pops pop n q = (xs, q') \<Longrightarrow> elems q = mset xs + elems q'"
proof (induction n arbitrary: q xs)
  case (Suc n)
  then show ?case
    by (auto split: option.splits prod.splits dest!: pop_elems)
qed simp

lemma pops_invar: "invar q \<Longrightarrow> pops pop n q = (xs, q') \<Longrightarrow> invar q'"
proof (induction n arbitrary: q xs)
  case (Suc n)
  then show ?case
    by (auto split: option.splits prod.splits intro: pop_invar)
qed simp

lemma pops_sorted: "invar q \<Longrightarrow> pops pop n q = (xs, q') \<Longrightarrow> sorted (map key xs)"
proof (induction n arbitrary: q xs)
  case (Suc n)
  show ?case
  proof (cases "pop q")
    case None
    with Suc.prems show ?thesis by simp
  next
    case (Some a)
    obtain x q1 where p: "pop q = Some (x, q1)"
      using Some by (cases a) auto
    obtain ys where ys: "pops pop n q1 = (ys, q')" and xs: "xs = x # ys"
      using Suc.prems(2) p by (auto split: prod.splits)
    have inv: "invar q1" using pop_invar [OF Suc.prems(1) p] .
    have "\<And>y. y \<in> set ys \<Longrightarrow> y \<in># elems q"
      using pops_elems [OF ys] pop_elems [OF p] by auto
    then have "\<And>y. y \<in> set ys \<Longrightarrow> key x \<le> key y"
      using pop_least [OF Suc.prems(1) p] by blast
    then show ?thesis
      using Suc.IH [OF inv ys] xs by simp
  qed
qed simp

lemma pops_least:
  assumes "invar q" and "pops pop n q = (xs, q')" and "x \<in> set xs" and "y \<in># elems q'"
  shows "key x \<le> key y"
  using assms
proof (induction n arbitrary: q xs)
  case (Suc n)
  then obtain x1 q1 ys where p: "pop q = Some (x1, q1)" and ys: "pops pop n q1 = (ys, q')"
    and xs: "xs = x1 # ys"
    by (cases "pop q") (auto split: prod.splits)
  show ?case
  proof (cases "x = x1")
    case True
    have "y \<in># elems q"
      using pops_elems [OF ys] pop_elems [OF p] Suc.prems(4) by simp
    with True show ?thesis using pop_least [OF Suc.prems(1) p] by simp
  next
    case False
    then show ?thesis
      using Suc.IH [OF pop_invar [OF Suc.prems(1) p] ys] Suc.prems(3,4) xs by simp
  qed
qed simp

end

section \<open>The functions of the module\<close>

definition parent :: "nat \<Rightarrow> nat" where
  "parent i = (i - 1) div 2"

lemma parent_less: "0 < i \<Longrightarrow> parent i < i"
  by (simp add: parent_def Suc_half_less)

text \<open>The loop of \<open>_siftdown(heap, startpos, pos)\<close>, with \<open>newitem\<close> read before it.\<close>

function siftdown_loop :: "('a \<Rightarrow> 'k::linorder) \<Rightarrow> 'a list \<Rightarrow> nat \<Rightarrow> 'a \<Rightarrow> nat \<Rightarrow> 'a list" where
  "siftdown_loop key heap startpos newitem pos =
     (if startpos < pos \<and> key newitem < key (heap ! parent pos)
      then siftdown_loop key (heap[pos := heap ! parent pos]) startpos newitem (parent pos)
      else heap[pos := newitem])"
  by pat_completeness auto
termination
  by (relation "measure (\<lambda>(_, _, _, _, pos). pos)") (auto intro: parent_less)

definition siftdown :: "('a \<Rightarrow> 'k::linorder) \<Rightarrow> 'a list \<Rightarrow> nat \<Rightarrow> nat \<Rightarrow> 'a list" where
  "siftdown key heap startpos pos = siftdown_loop key heap startpos (heap ! pos) pos"

text \<open>The child that \<open>_siftup\<close> moves up: the right one unless the left is smaller.\<close>

definition min_child :: "('a \<Rightarrow> 'k::linorder) \<Rightarrow> 'a list \<Rightarrow> nat \<Rightarrow> nat" where
  "min_child key heap pos =
     (let childpos = 2 * pos + 1; rightpos = childpos + 1
      in if rightpos < length heap \<and> \<not> key (heap ! childpos) < key (heap ! rightpos)
         then rightpos else childpos)"

lemma min_child_bounds:
  "2 * pos + 1 < length heap \<Longrightarrow> pos < min_child key heap pos \<and> min_child key heap pos < length heap"
  by (auto simp: min_child_def Let_def)

text \<open>The loop of \<open>_siftup(heap, pos)\<close>: the hole sinks to a leaf; the heap with
  \<open>newitem\<close> written there, and the leaf's position.\<close>

function siftup_loop :: "('a \<Rightarrow> 'k::linorder) \<Rightarrow> 'a list \<Rightarrow> 'a \<Rightarrow> nat \<Rightarrow> 'a list \<times> nat" where
  "siftup_loop key heap newitem pos =
     (if 2 * pos + 1 < length heap
      then siftup_loop key (heap[pos := heap ! min_child key heap pos]) newitem (min_child key heap pos)
      else (heap[pos := newitem], pos))"
  by pat_completeness auto
termination
  by (relation "measure (\<lambda>(_, heap, _, pos). length heap - pos)")
    (use min_child_bounds in \<open>auto intro!: diff_less_mono2\<close>)

definition siftup :: "('a \<Rightarrow> 'k::linorder) \<Rightarrow> 'a list \<Rightarrow> nat \<Rightarrow> 'a list" where
  "siftup key heap pos =
     (case siftup_loop key heap (heap ! pos) pos of (heap', pos') \<Rightarrow> siftdown key heap' pos pos')"

definition heappush :: "('a \<Rightarrow> 'k::linorder) \<Rightarrow> 'a list \<Rightarrow> 'a \<Rightarrow> 'a list" where
  "heappush key heap item = siftdown key (heap @ [item]) 0 (length heap)"

definition heappop :: "('a \<Rightarrow> 'k::linorder) \<Rightarrow> 'a list \<Rightarrow> ('a \<times> 'a list) option" where
  "heappop key heap =
     (if heap = [] then None
      else let lastelt = last heap; rest = butlast heap
           in if rest = [] then Some (lastelt, [])
              else Some (rest ! 0, siftup key (rest[0 := lastelt]) 0))"

declare siftdown_loop.simps [simp del] siftup_loop.simps [simp del]

section \<open>Correctness\<close>

text \<open>The heap invariant the module documents: no item is less than its parent.\<close>

definition heap_inv :: "('a \<Rightarrow> 'k::linorder) \<Rightarrow> 'a list \<Rightarrow> bool" where
  "heap_inv key h \<longleftrightarrow> (\<forall>j. 0 < j \<and> j < length h \<longrightarrow> key (h ! parent j) \<le> key (h ! j))"

text \<open>A heap with a hole at \<open>i\<close>: the item at \<open>i\<close> is not looked at, and its parent
  is no greater than its children.\<close>

definition heap_hole :: "('a \<Rightarrow> 'k::linorder) \<Rightarrow> 'a list \<Rightarrow> nat \<Rightarrow> bool" where
  "heap_hole key h i \<longleftrightarrow>
     (\<forall>j. 0 < j \<and> j < length h \<and> j \<noteq> i \<and> parent j \<noteq> i \<longrightarrow> key (h ! parent j) \<le> key (h ! j)) \<and>
     (\<forall>j. 0 < j \<and> 0 < i \<and> j < length h \<and> parent j = i \<longrightarrow> key (h ! parent i) \<le> key (h ! j))"

lemma heap_holeD1:
  "heap_hole key h i \<Longrightarrow> 0 < j \<Longrightarrow> j < length h \<Longrightarrow> j \<noteq> i \<Longrightarrow> parent j \<noteq> i \<Longrightarrow> key (h ! parent j) \<le> key (h ! j)"
  by (simp add: heap_hole_def)

lemma heap_holeD2:
  "heap_hole key h i \<Longrightarrow> 0 < j \<Longrightarrow> 0 < i \<Longrightarrow> j < length h \<Longrightarrow> parent j = i \<Longrightarrow> key (h ! parent i) \<le> key (h ! j)"
  by (simp add: heap_hole_def)

lemma heap_inv_hole: "heap_inv key h \<Longrightarrow> i < length h \<Longrightarrow> heap_hole key h i"
proof -
  assume inv: "heap_inv key h" and i: "i < length h"
  have "key (h ! parent i) \<le> key (h ! j)" if "0 < j" "0 < i" "j < length h" "parent j = i" for j
    using inv that i order_trans [of "key (h ! parent i)" "key (h ! i)" "key (h ! j)"]
    by (auto simp: heap_inv_def)
  with inv show ?thesis by (auto simp: heap_hole_def heap_inv_def)
qed

lemma parent_lt_length: "0 < i \<Longrightarrow> i < length h \<Longrightarrow> parent i < length h"
  using parent_less [of i] by simp

lemma siftdown_loop_step:
  "startpos < pos \<Longrightarrow> key newitem < key (heap ! parent pos) \<Longrightarrow>
   siftdown_loop key heap startpos newitem pos =
   siftdown_loop key (heap[pos := heap ! parent pos]) startpos newitem (parent pos)"
  by (subst siftdown_loop.simps) simp

lemma siftdown_loop_stop:
  "\<not> (startpos < pos \<and> key newitem < key (heap ! parent pos)) \<Longrightarrow>
   siftdown_loop key heap startpos newitem pos = heap[pos := newitem]"
  by (subst siftdown_loop.simps) (rule if_not_P)

lemma siftdown_loop_mset:
  "pos < length heap \<Longrightarrow> mset (siftdown_loop key heap startpos newitem pos) = mset (heap[pos := newitem])"
proof (induction key heap startpos newitem pos rule: siftdown_loop.induct)
  case (1 key heap startpos newitem pos)
  show ?case
  proof (cases "startpos < pos \<and> key newitem < key (heap ! parent pos)")
    case True
    then have "parent pos < length heap" using "1.prems" by (simp add: parent_lt_length)
    then show ?thesis
      using True 1 by (simp add: siftdown_loop_step mset_list_update_swap)
  next
    case False
    show ?thesis by (simp only: siftdown_loop_stop [OF False])
  qed
qed

text \<open>Moving the parent down into the hole leaves a hole at the parent.\<close>

lemma heap_hole_up:
  assumes hole: "heap_hole key h i" and i: "0 < i" "i < length h"
  shows "heap_hole key (h[i := h ! parent i]) (parent i)"
proof -
  let ?p = "parent i" and ?g = "h[i := h ! parent i]"
  have p: "?p < i" "?p < length h" using i parent_less [of i] by auto
  have "key (?g ! parent j) \<le> key (?g ! j)"
    if j: "0 < j" "j < length h" "j \<noteq> ?p" "parent j \<noteq> ?p" for j
    using heap_holeD1 [OF hole j(1,2)] heap_holeD2 [OF hole j(1) i(1) j(2)] j i
    by (cases "parent j = i") (auto simp: nth_list_update)
  moreover have "key (?g ! parent ?p) \<le> key (?g ! j)"
    if j: "0 < j" "0 < ?p" "j < length h" "parent j = ?p" for j
  proof -
    have pp: "parent ?p < ?p" using j(2) by (rule parent_less)
    have up: "key (h ! parent ?p) \<le> key (h ! ?p)"
      using heap_holeD1 [OF hole j(2) p(2)] p pp by simp
    show ?thesis
    proof (cases "j = i")
      case True
      then show ?thesis using up i pp p by (simp add: nth_list_update)
    next
      case False
      have "key (h ! ?p) \<le> key (h ! j)"
        using heap_holeD1 [OF hole j(1,3) False] j(4) p by simp
      then show ?thesis using up False pp p by (simp add: nth_list_update)
    qed
  qed
  ultimately show ?thesis by (simp add: heap_hole_def)
qed

lemma heap_hole_fill:
  assumes hole: "heap_hole key h i" and i: "i < length h"
    and up: "0 < i \<Longrightarrow> key (h ! parent i) \<le> key x"
    and down: "\<And>j. 0 < j \<Longrightarrow> j < length h \<Longrightarrow> parent j = i \<Longrightarrow> key x \<le> key (h ! j)"
  shows "heap_inv key (h[i := x])"
proof -
  have "key (h[i := x] ! parent j) \<le> key (h[i := x] ! j)" if j: "0 < j" "j < length h" for j
    using heap_holeD1 [OF hole j] up down [OF j] parent_less [OF j(1)] i j
    by (auto simp: nth_list_update)
  then show ?thesis by (simp add: heap_inv_def)
qed

lemma siftdown_loop_heap:
  "heap_hole key heap pos \<Longrightarrow> pos < length heap \<Longrightarrow>
   (\<And>j. 0 < j \<Longrightarrow> j < length heap \<Longrightarrow> parent j = pos \<Longrightarrow> key newitem \<le> key (heap ! j)) \<Longrightarrow>
   heap_inv key (siftdown_loop key heap 0 newitem pos)"
proof (induction key heap "0::nat" newitem pos rule: siftdown_loop.induct)
  case (1 key heap newitem pos)
  note hole = "1.prems"(1) and pos = "1.prems"(2) and down = "1.prems"(3)
  show ?case
  proof (cases "0 < pos \<and> key newitem < key (heap ! parent pos)")
    case True
    let ?p = "parent pos"
    have p: "?p < pos" "?p < length heap" using True pos parent_less [of pos] by auto
    have "key newitem \<le> key (heap[pos := heap ! ?p] ! j)"
      if j: "0 < j" "j < length heap" "parent j = ?p" for j
    proof (cases "j = pos")
      case False
      then have "key (heap ! ?p) \<le> key (heap ! j)"
        using heap_holeD1 [OF hole j(1,2)] j(3) p by simp
      with True have "key newitem \<le> key (heap ! j)" by auto
      then show ?thesis using False by simp
    qed (use True pos in \<open>simp add: less_imp_le\<close>)
    then have "heap_inv key (siftdown_loop key (heap[pos := heap ! ?p]) 0 newitem ?p)"
      using "1.hyps" [OF True heap_hole_up [OF hole _ pos]] True p by simp
    then show ?thesis using True by (simp add: siftdown_loop_step)
  next
    case False
    have "heap_inv key (heap[pos := newitem])"
    proof (rule heap_hole_fill [OF hole pos])
      show "key (heap ! parent pos) \<le> key newitem" if "0 < pos" using False that by simp
    qed (rule down)
    then show ?thesis by (simp only: siftdown_loop_stop [OF False])
  qed
qed

lemma siftup_loop_step:
  "2 * pos + 1 < length heap \<Longrightarrow> siftup_loop key heap newitem pos =
   siftup_loop key (heap[pos := heap ! min_child key heap pos]) newitem (min_child key heap pos)"
  by (subst siftup_loop.simps) simp

lemma siftup_loop_stop:
  "\<not> 2 * pos + 1 < length heap \<Longrightarrow> siftup_loop key heap newitem pos = (heap[pos := newitem], pos)"
  by (subst siftup_loop.simps) simp

lemma siftup_loop_mset:
  "pos < length heap \<Longrightarrow> siftup_loop key heap newitem pos = (h, p) \<Longrightarrow>
   mset h = mset (heap[pos := newitem]) \<and> length h = length heap \<and> p < length heap \<and> h ! p = newitem"
proof (induction key heap newitem pos rule: siftup_loop.induct)
  case (1 key heap newitem pos)
  show ?case
  proof (cases "2 * pos + 1 < length heap")
    case True
    then show ?thesis
      using 1 min_child_bounds [OF True, of key]
      by (simp add: siftup_loop_step mset_list_update_swap)
  next
    case False
    then show ?thesis using "1.prems" by (auto simp: siftup_loop_stop)
  qed
qed

lemma parent_child: "0 < j \<Longrightarrow> parent j = i \<longleftrightarrow> j = 2 * i + 1 \<or> j = 2 * i + 2"
  by (auto simp: parent_def)

lemma min_child_least:
  assumes "0 < j" and "j < length heap" and "parent j = pos"
  shows "key (heap ! min_child key heap pos) \<le> key (heap ! j)"
  using assms by (auto simp: min_child_def Let_def parent_child)

text \<open>Moving the smaller child up into the hole leaves a hole at that child.\<close>

lemma heap_hole_sink:
  assumes hole: "heap_hole key h i" and c: "2 * i + 1 < length h"
  shows "heap_hole key (h[i := h ! min_child key h i]) (min_child key h i)"
proof -
  let ?c = "min_child key h i"
  let ?g = "h[i := h ! ?c]"
  have b: "i < ?c" "?c < length h" using min_child_bounds [OF c, of key] by auto
  have pc: "parent ?c = i"
    using b by (auto simp: min_child_def Let_def parent_def)
  have "key (?g ! parent j) \<le> key (?g ! j)"
    if j: "0 < j" "j < length h" "j \<noteq> ?c" "parent j \<noteq> ?c" for j
  proof (cases "parent j = i")
    case True
    then show ?thesis
      using min_child_least [OF j(1,2) True] b parent_less [OF j(1)] by (simp add: nth_list_update)
  next
    case False
    show ?thesis
    proof (cases "j = i")
      case True
      have "key (h ! parent i) \<le> key (h ! ?c)"
        using heap_holeD2 [OF hole _ _ b(2) pc] True j(1) b by simp
      then show ?thesis using True False b by (simp add: nth_list_update)
    next
      case ne: False
      then show ?thesis using heap_holeD1 [OF hole j(1,2) ne False] False by simp
    qed
  qed
  moreover have "key (?g ! parent ?c) \<le> key (?g ! j)"
    if j: "0 < j" "0 < ?c" "j < length h" "parent j = ?c" for j
  proof -
    have "j \<noteq> i" using j(4) parent_less [OF j(1)] b by auto
    then show ?thesis
      using heap_holeD1 [OF hole j(1,3)] j(4) b pc by (simp add: nth_list_update)
  qed
  ultimately show ?thesis by (simp add: heap_hole_def)
qed

lemma heap_hole_update:
  assumes hole: "heap_hole key h i"
  shows "heap_hole key (h[i := x]) i"
proof -
  have "key (h[i := x] ! parent i) \<le> key (h[i := x] ! j)"
    if j: "0 < j" "0 < i" "j < length h" "parent j = i" for j
  proof -
    have "j \<noteq> i" "parent i \<noteq> i" using parent_less [OF j(1)] parent_less [OF j(2)] j(4) by auto
    then show ?thesis using heap_holeD2 [OF hole j] by simp
  qed
  with hole show ?thesis by (simp add: heap_hole_def)
qed

lemma siftup_loop_hole:
  "heap_hole key heap pos \<Longrightarrow> pos < length heap \<Longrightarrow> siftup_loop key heap newitem pos = (h, p) \<Longrightarrow>
   heap_hole key h p \<and> \<not> 2 * p + 1 < length h"
proof (induction key heap newitem pos rule: siftup_loop.induct)
  case (1 key heap newitem pos)
  show ?case
  proof (cases "2 * pos + 1 < length heap")
    case True
    then show ?thesis
      using 1 heap_hole_sink [OF "1.prems"(1) True] min_child_bounds [OF True, of key]
      by (simp add: siftup_loop_step)
  next
    case False
    then have "h = heap[pos := newitem]" "p = pos"
      using "1.prems"(3) by (auto simp: siftup_loop_stop)
    moreover have "heap_hole key (heap[pos := newitem]) pos"
      using "1.prems"(1) by (rule heap_hole_update)
    ultimately show ?thesis using False by simp
  qed
qed

lemma heap_inv_append: "heap_inv key h \<Longrightarrow> heap_hole key (h @ [x]) (length h)"
proof -
  assume inv: "heap_inv key h"
  have "key ((h @ [x]) ! parent j) \<le> key ((h @ [x]) ! j)" if "0 < j" "j < length h" for j
    using inv that parent_lt_length [OF that] by (simp add: heap_inv_def nth_append)
  moreover have "parent j \<noteq> length h" if "0 < j" "j < Suc (length h)" for j
    using parent_less [OF that(1)] that(2) by simp
  ultimately show ?thesis
    unfolding heap_hole_def by (metis length_append_singleton less_antisym)
qed

lemma mset_heappush: "mset (heappush key heap item) = add_mset item (mset heap)"
  by (simp add: heappush_def siftdown_def siftdown_loop_mset)

lemma heap_inv_heappush:
  assumes "heap_inv key heap"
  shows "heap_inv key (heappush key heap item)"
  unfolding heappush_def siftdown_def
proof (rule siftdown_loop_heap [OF heap_inv_append [OF assms]])
  show "key ((heap @ [item]) ! length heap) \<le> key ((heap @ [item]) ! j)"
    if "0 < j" "j < length (heap @ [item])" "parent j = length heap" for j
    using that parent_less [OF that(1)] by simp
qed simp

lemma mset_siftup:
  assumes "pos < length heap"
  shows "mset (siftup key heap pos) = mset heap"
proof -
  obtain h p where h: "siftup_loop key heap (heap ! pos) pos = (h, p)" by fastforce
  have "mset h = mset heap" "p < length h"
    using siftup_loop_mset [OF assms h] by auto
  then have "mset (siftdown_loop key h pos (h ! p) p) = mset heap"
    by (simp add: siftdown_loop_mset)
  then show ?thesis by (simp add: siftup_def siftdown_def h)
qed

lemma heap_inv_siftup:
  assumes "heap_hole key heap 0" and "heap \<noteq> []"
  shows "heap_inv key (siftup key heap 0)"
proof -
  obtain h p where h: "siftup_loop key heap (heap ! 0) 0 = (h, p)" by fastforce
  have len: "length h = length heap" "p < length heap" "h ! p = heap ! 0"
    using siftup_loop_mset [OF _ h] assms(2) by auto
  have "heap_hole key h p" and leaf: "\<not> 2 * p + 1 < length h"
    using siftup_loop_hole [OF assms(1) _ h] assms(2) by auto
  from this(1) have "heap_inv key (siftdown_loop key h 0 (h ! p) p)"
  proof (rule siftdown_loop_heap)
    show "key (h ! p) \<le> key (h ! j)" if "0 < j" "j < length h" "parent j = p" for j
      using that(2,3) leaf parent_child [OF that(1), of p] by simp
  qed (simp add: len)
  then show ?thesis by (simp add: siftup_def siftdown_def h)
qed

lemma heappop_None: "heappop key heap = None \<longleftrightarrow> heap = []"
  by (simp add: heappop_def Let_def)

lemma heappop_root: "heappop key heap = Some (x, heap') \<Longrightarrow> x = heap ! 0"
  by (cases heap rule: rev_cases) (auto simp: heappop_def Let_def nth_append split: if_splits)

lemma mset_heappop:
  assumes "heappop key heap = Some (x, heap')"
  shows "mset heap = add_mset x (mset heap')"
proof (cases "butlast heap = []")
  case True
  then show ?thesis using assms by (cases heap rule: rev_cases) (auto simp: heappop_def)
next
  case False
  then obtain y r z where h: "heap = y # r @ [z]"
    by (cases heap rule: rev_cases) (auto simp: neq_Nil_conv)
  then have "x = y" "heap' = siftup key (z # r) 0"
    using assms by (auto simp: heappop_def Let_def butlast_append)
  then show ?thesis using h mset_siftup [of 0 "z # r" key] by simp
qed

lemma heap_inv_heappop:
  assumes inv: "heap_inv key heap" and pop: "heappop key heap = Some (x, heap')"
  shows "heap_inv key heap'"
proof (cases "butlast heap = []")
  case True
  then show ?thesis using pop by (auto simp: heappop_def heap_inv_def split: if_splits)
next
  case False
  have "key (butlast heap ! parent j) \<le> key (butlast heap ! j)"
    if "0 < j" "j < length (butlast heap)" for j
    using inv that parent_lt_length [OF that] by (simp add: heap_inv_def nth_butlast)
  then have "heap_inv key (butlast heap)" by (simp add: heap_inv_def)
  then have "heap_hole key ((butlast heap)[0 := last heap]) 0"
    using False by (intro heap_hole_update heap_inv_hole) (simp_all only: length_greater_0_conv not_False_eq_True)
  then have "heap_inv key (siftup key ((butlast heap)[0 := last heap]) 0)"
    using False by (intro heap_inv_siftup) auto
  then show ?thesis using pop False by (auto simp: heappop_def Let_def split: if_splits)
qed

lemma heap_inv_least: "heap_inv key h \<Longrightarrow> j < length h \<Longrightarrow> key (h ! 0) \<le> key (h ! j)"
proof (induction j rule: less_induct)
  case (less j)
  show ?case
  proof (cases "j = 0")
    case False
    then have "parent j < j" by (simp add: parent_less)
    then have "key (h ! 0) \<le> key (h ! parent j)" using less by simp
    also have "\<dots> \<le> key (h ! j)" using less.prems False by (simp add: heap_inv_def)
    finally show ?thesis .
  qed simp
qed

lemma heappop_least:
  assumes "heap_inv key heap" and "heappop key heap = Some (x, heap')" and "y \<in># mset heap"
  shows "key x \<le> key y"
  using assms heap_inv_least [of key heap] heappop_root [of key heap x heap']
  by (auto simp: in_set_conv_nth)

section \<open>The heap as a priority queue\<close>

text \<open>The instance the loop uses: pairs ordered by their first component, the deadline.\<close>

interpretation hq: priority_queue
  where push = "heappush (fst :: 'k::linorder \<times> 'b \<Rightarrow> 'k)" and pop = "heappop fst"
    and elems = mset and invar = "heap_inv fst" and key = fst
  by unfold_locales
    (auto simp: mset_heappush heap_inv_heappush heappop_None heap_inv_heappop
      dest: mset_heappop heappop_least)

end
