(* ===== verification/Exception_Groups.thy ===== *)
theory Exception_Groups
  imports Aio_Prelude
begin

text \<open>
  The exception-group helpers of \<open>_handles.py\<close>: joining tracebacks
  (\<open>concat_tb\<close>), collapsing groups of one exception (\<open>collapse_exception_group\<close>) and
  splitting an exception by class (\<open>collapse_aware_exception_split\<close>), on the tree of
  exceptions of the prelude. An object is new if the code returns another object than the
  one it was given; that flag stands for the code's tests \<open>new_exc is not exc\<close>.
\<close>

section \<open>Tracebacks\<close>

text \<open>A traceback is the chain of its entries (frame, instruction, line); \<open>None\<close> is
  the empty chain and \<open>tb_next\<close> the tail.\<close>

type_synonym tb = "(nat \<times> nat \<times> nat) list"

fun head_tbs :: "tb \<Rightarrow> tb list" where
  "head_tbs [] = []"
| "head_tbs (t # next) = (t # next) # head_tbs next"

definition concat_tb :: "tb \<Rightarrow> tb \<Rightarrow> tb" where
  "concat_tb head tail =
     fold (\<lambda>head_tb current_head. hd head_tb # current_head) (rev (head_tbs head)) tail"

lemma concat_tb_append: "concat_tb head tail = head @ tail"
proof -
  have "foldr (\<lambda>head_tb. (#) (hd head_tb)) (head_tbs head) tail = head @ tail"
    by (induction head) auto
  then show ?thesis by (simp add: concat_tb_def foldr_conv_fold)
qed

section \<open>Collapsing\<close>

text \<open>
  \<open>collapse_exception_group\<close>: the exception it returns, and whether that is another
  object than its argument. \<open>derive\<close> builds a group with the given members and without
  notes, hence without the mark.
\<close>

fun collapse_exception_group :: "exn \<Rightarrow> exn \<times> bool" where
  "collapse_exception_group (ExcGroup collapse es) =
     (let rs = map (\<lambda>exc. if is_group exc then collapse_exception_group exc else (exc, False)) es;
          exceptions = map fst rs;
          modified = list_ex snd rs
      in if length exceptions = 1 \<and> collapse then (hd exceptions, True)
         else if modified then (ExcGroup False exceptions, True)
         else (ExcGroup collapse es, False))"
| "collapse_exception_group exc = (exc, False)"

text \<open>The exceptions a tree of groups holds, in order.\<close>

fun leaves :: "exn \<Rightarrow> exn list" where
  "leaves (ExcGroup _ es) = concat (map leaves es)"
| "leaves e = [e]"

text \<open>No marked group of a single exception is left.\<close>

fun collapsed :: "exn \<Rightarrow> bool" where
  "collapsed (ExcGroup c es) \<longleftrightarrow> \<not> (c \<and> length es = 1) \<and> list_all collapsed es"
| "collapsed _ \<longleftrightarrow> True"

text \<open>Groups are never empty: the constructor of \<open>BaseExceptionGroup\<close> raises.\<close>

fun wf_exn :: "exn \<Rightarrow> bool" where
  "wf_exn (ExcGroup _ es) \<longleftrightarrow> es \<noteq> [] \<and> list_all wf_exn es"
| "wf_exn _ \<longleftrightarrow> True"

lemma collapse_not_group [simp]: "\<not> is_group e \<Longrightarrow> collapse_exception_group e = (e, False)"
  by (cases e) auto

lemma if_is_group_collapse:
  "(if is_group e then collapse_exception_group e else (e, False)) = collapse_exception_group e"
  by simp

lemma collapse_group:
  "collapse_exception_group (ExcGroup c es) =
     (if length es = 1 \<and> c then (fst (collapse_exception_group (hd es)), True)
      else if \<exists>e \<in> set es. snd (collapse_exception_group e)
      then (ExcGroup False (map (fst \<circ> collapse_exception_group) es), True)
      else (ExcGroup c es, False))"
  by (cases es) (auto simp: if_is_group_collapse Let_def list_ex_iff simp del: collapse_not_group)

lemmas collapse_simps = collapse_group collapse_exception_group.simps(2-)

declare collapse_exception_group.simps(1) [simp del]

lemma exn_group_induct [case_names leaf group]:
  assumes "\<And>e. \<not> is_group e \<Longrightarrow> P e"
    and "\<And>c es. (\<And>e. e \<in> set es \<Longrightarrow> P e) \<Longrightarrow> P (ExcGroup c es)"
  shows "P e"
  using assms by (induction e) auto

lemma leaves_leaf [simp]: "\<not> is_group e \<Longrightarrow> leaves e = [e]"
  by (cases e) auto

lemma collapse_same: "\<not> snd (collapse_exception_group e) \<Longrightarrow> fst (collapse_exception_group e) = e"
  by (cases "is_group e"; cases e) (auto simp: collapse_group split: if_splits)

lemma leaves_collapse: "leaves (fst (collapse_exception_group e)) = leaves e"
proof (induction e rule: exn_group_induct)
  case (group c es)
  have eq: "concat (map (leaves \<circ> (fst \<circ> collapse_exception_group)) es) = concat (map leaves es)"
    using group by (intro arg_cong [where f = concat] map_cong) auto
  show ?case using group by (auto simp: collapse_group length_Suc_conv eq)
qed simp

lemma wf_collapse: "wf_exn e \<Longrightarrow> wf_exn (fst (collapse_exception_group e))"
proof (induction e rule: exn_group_induct)
  case (group c es)
  then show ?case by (auto simp: collapse_group list_all_iff length_Suc_conv)
qed simp

lemma collapsed_leaf [simp]: "\<not> is_group e \<Longrightarrow> collapsed e"
  by (cases e) auto

lemma collapsed_collapse: "collapsed (fst (collapse_exception_group e))"
proof (induction e rule: exn_group_induct)
  case (group c es)
  have "collapsed e" if "e \<in> set es" "\<not> snd (collapse_exception_group e)" for e
    using group [OF that(1)] collapse_same [OF that(2)] by simp
  then show ?case using group by (auto simp: collapse_group list_all_iff length_Suc_conv)
qed simp

lemma collapse_new_iff: "snd (collapse_exception_group e) \<longleftrightarrow> \<not> collapsed e"
proof (induction e rule: exn_group_induct)
  case (group c es)
  then show ?case by (auto simp: collapse_group list_all_iff)
qed simp

lemma collapse_collapsed: "collapsed e \<Longrightarrow> fst (collapse_exception_group e) = e"
  using collapse_new_iff collapse_same by blast

section \<open>Splitting by class\<close>

text \<open>
  \<open>BaseExceptionGroup.split(etype)\<close> of the standard library: an exception that is an
  instance of the class matches whole, a group that is not is split member by member, and a
  part without members is \<open>None\<close>. The parts keep the notes, hence the mark.
\<close>

definition subgroup :: "bool \<Rightarrow> exn option list \<Rightarrow> exn option" where
  "subgroup c ps = (let es = List.map_filter id ps in if es = [] then None else Some (ExcGroup c es))"

fun split_exn :: "(exn \<Rightarrow> bool) \<Rightarrow> exn \<Rightarrow> exn option \<times> exn option" where
  "split_exn etype (ExcGroup c es) =
     (if etype (ExcGroup c es) then (Some (ExcGroup c es), None)
      else (subgroup c (map (fst \<circ> split_exn etype) es), subgroup c (map (snd \<circ> split_exn etype) es)))"
| "split_exn etype exc = (if etype exc then (Some exc, None) else (None, Some exc))"

definition collapse_if_group :: "exn option \<Rightarrow> exn option" where
  "collapse_if_group m =
     (case m of None \<Rightarrow> None
      | Some e \<Rightarrow> Some (if is_group e then fst (collapse_exception_group e) else e))"

definition collapse_aware_exception_split :: "exn \<Rightarrow> (exn \<Rightarrow> bool) \<Rightarrow> exn option \<times> exn option" where
  "collapse_aware_exception_split exc etype =
     (if \<not> is_group exc then (if etype exc then (Some exc, None) else (None, Some exc))
      else (case split_exn etype exc of
              (match, rest) \<Rightarrow> (collapse_if_group match, collapse_if_group rest)))"

lemma collapse_if_group_simps [simp]:
  "collapse_if_group None = None"
  "collapse_if_group (Some e) = Some (fst (collapse_exception_group e))"
  by (auto simp: collapse_if_group_def)

fun leaves_opt :: "exn option \<Rightarrow> exn list" where
  "leaves_opt None = []"
| "leaves_opt (Some e) = leaves e"

lemma in_set_map_filter: "y \<in> set (List.map_filter id ps) \<longleftrightarrow> Some y \<in> set ps"
  by (force simp: List.map_filter_def)

lemma leaves_subgroup: "leaves_opt (subgroup c ps) = concat (map leaves_opt ps)"
  by (induction ps) (auto simp: subgroup_def Let_def map_filter_simps split: option.splits if_splits)

lemma leaves_collapse_if_group: "leaves_opt (collapse_if_group m) = leaves_opt m"
  by (cases m) (auto simp: leaves_collapse)

lemma leaves_nonempty: "wf_exn e \<Longrightarrow> leaves e \<noteq> []"
proof (induction e rule: exn_group_induct)
  case (group c es)
  then show ?case by (cases es) auto
qed simp

lemma leaves_not_group: "x \<in> set (leaves e) \<Longrightarrow> \<not> is_group x"
proof (induction e rule: exn_group_induct)
  case (leaf e)
  then show ?case by simp
qed auto

text \<open>
  The contract of a class test on a tree of groups: a group that is an instance has only
  instances as members. Both classes the handles split by meet it.
\<close>

locale exception_class =
  fixes etype :: "exn \<Rightarrow> bool"
  assumes group_members: "etype (ExcGroup c es) \<Longrightarrow> list_all etype es"
begin

lemma leaves_instance: "etype e \<Longrightarrow> x \<in> set (leaves e) \<Longrightarrow> etype x"
proof (induction e rule: exn_group_induct)
  case (group c es)
  then show ?case using group_members [of c es] by (auto simp: list_all_iff)
qed simp

lemma split_leaves:
  "leaves_opt (fst (split_exn etype e)) = filter etype (leaves e) \<and>
   leaves_opt (snd (split_exn etype e)) = filter (\<lambda>x. \<not> etype x) (leaves e)"
proof (induction e rule: exn_group_induct)
  case (leaf e)
  then show ?case by (cases e) auto
next
  case (group c es)
  show ?case
  proof (cases "etype (ExcGroup c es)")
    case True
    have "filter etype (leaves (ExcGroup c es)) = leaves (ExcGroup c es)"
      "filter (\<lambda>x. \<not> etype x) (leaves (ExcGroup c es)) = []"
      using leaves_instance [OF True] by (simp_all only: filter_id_conv filter_empty_conv) auto
    then show ?thesis using True by (simp only: split_exn.simps if_True fst_conv snd_conv leaves_opt.simps)
  next
    case False
    have "concat (map (leaves_opt \<circ> (fst \<circ> split_exn etype)) es) = concat (map (filter etype \<circ> leaves) es)"
      "concat (map (leaves_opt \<circ> (snd \<circ> split_exn etype)) es) =
         concat (map (filter (\<lambda>x. \<not> etype x) \<circ> leaves) es)"
      using group by (intro arg_cong [where f = concat] map_cong; simp)+
    then show ?thesis using False by (simp only: split_exn.simps if_False fst_conv snd_conv
        leaves_subgroup leaves.simps filter_concat map_map simp_thms)
  qed
qed

lemma aware_split_leaves:
  assumes "collapse_aware_exception_split e etype = (m, r)"
  shows "leaves_opt m = filter etype (leaves e)"
    and "leaves_opt r = filter (\<lambda>x. \<not> etype x) (leaves e)"
  using assms split_leaves [of e] leaves_collapse_if_group
  by (cases "split_exn etype e"; auto simp: collapse_aware_exception_split_def split: if_splits)+

end

interpretation exception: exception_class is_Exception
  by unfold_locales simp

interpretation cancelled: exception_class is_Cancelled
  by unfold_locales simp

lemma is_Exception_leaves: "is_Exception e \<longleftrightarrow> list_all is_Exception (leaves e)"
proof (induction e rule: exn_group_induct)
  case (leaf e)
  then show ?case by simp
next
  case (group c es)
  then show ?case by (auto simp: list_all_iff)
qed

lemma wf_subgroup:
  "(\<And>e y. e \<in> set es \<Longrightarrow> f e = Some y \<Longrightarrow> wf_exn y) \<Longrightarrow> subgroup c (map f es) = Some x \<Longrightarrow> wf_exn x"
  by (auto simp: subgroup_def Let_def list_all_iff in_set_map_filter image_iff split: if_splits)

lemma wf_split:
  "wf_exn e \<Longrightarrow> (\<forall>m. fst (split_exn P e) = Some m \<longrightarrow> wf_exn m) \<and>
     (\<forall>r. snd (split_exn P e) = Some r \<longrightarrow> wf_exn r)"
proof (induction e rule: exn_group_induct)
  case (leaf e)
  then show ?case by (cases e) auto
next
  case (group c es)
  have IH: "(\<forall>m. fst (split_exn P e) = Some m \<longrightarrow> wf_exn m) \<and>
     (\<forall>r. snd (split_exn P e) = Some r \<longrightarrow> wf_exn r)" if "e \<in> set es" for e
  proof (rule group.IH [OF that])
    show "wf_exn e" using group.prems that by (simp add: list_all_iff)
  qed
  have "\<forall>m. subgroup c (map (fst \<circ> split_exn P) es) = Some m \<longrightarrow> wf_exn m"
    by (intro allI impI, erule wf_subgroup [rotated]) (use IH in \<open>unfold comp_apply, blast\<close>)
  moreover have "\<forall>m. subgroup c (map (snd \<circ> split_exn P) es) = Some m \<longrightarrow> wf_exn m"
    by (intro allI impI, erule wf_subgroup [rotated]) (use IH in \<open>unfold comp_apply, blast\<close>)
  ultimately show ?case using group.prems
    by (cases "P (ExcGroup c es)") (simp_all only: split_exn.simps if_True if_False fst_conv snd_conv option.inject option.distinct simp_thms)
qed

lemma wf_aware_split:
  assumes "wf_exn e" and "collapse_aware_exception_split e P = (m, r)"
  shows "\<forall>x. m = Some x \<or> r = Some x \<longrightarrow> wf_exn x"
proof (cases "is_group e")
  case True
  obtain m' r' where s: "split_exn P e = (m', r')" by fastforce
  then have "m = collapse_if_group m'" "r = collapse_if_group r'"
    using assms(2) True by (auto simp: collapse_aware_exception_split_def)
  then show ?thesis
    using wf_split [OF assms(1), of P] s wf_collapse by (cases m'; cases r') auto
next
  case False
  then show ?thesis using assms by (auto simp: collapse_aware_exception_split_def split: if_splits)
qed

lemma leaves_opt_empty:
  "\<forall>x. m = Some x \<longrightarrow> wf_exn x \<Longrightarrow> leaves_opt m = [] \<longleftrightarrow> m = None"
  by (cases m) (auto simp: leaves_nonempty)

section \<open>Properties\<close>

text \<open>C24: collapsing a group keeps every exception in it, in order, leaves no marked group
  with a single member, and makes a new object exactly if the group was not in that form
  already.\<close>

theorem collapse_correct:
  assumes "wf_exn e" and "collapse_exception_group e = (e', new)"
  shows "leaves e' = leaves e \<and> collapsed e' \<and> wf_exn e' \<and> (new \<longleftrightarrow> \<not> collapsed e) \<and> (\<not> new \<longrightarrow> e' = e)"
  using leaves_collapse [of e] collapsed_collapse [of e] wf_collapse [OF assms(1)] collapse_new_iff [of e]
    collapse_same [of e] assms(2) by simp

theorem collapse_correct_witness:
  "collapsed (fst (collapse_exception_group (ExcGroup True [ExcGroup True [Cancelled], ExcGroup False [KeyError]])))"
proof -
  let ?e = "ExcGroup True [ExcGroup True [Cancelled], ExcGroup False [KeyError]]"
  obtain e' new where c: "collapse_exception_group ?e = (e', new)" by fastforce
  have "wf_exn ?e" by simp
  from collapse_correct [OF this c] show ?thesis by (simp only: c fst_conv)
qed

text \<open>The collapse-aware split by an exception class sorts the exceptions of a group, in
  order, into those of the class and the others; a part is \<open>None\<close> exactly if it would be
  empty.\<close>

theorem aware_split_partitions:
  assumes "wf_exn e" and "etype = is_Exception \<or> etype = is_Cancelled"
    and "collapse_aware_exception_split e etype = (m, r)"
  shows "leaves_opt m = filter etype (leaves e) \<and> leaves_opt r = filter (\<lambda>x. \<not> etype x) (leaves e) \<and>
    (m = None \<longleftrightarrow> filter etype (leaves e) = []) \<and> (r = None \<longleftrightarrow> filter (\<lambda>x. \<not> etype x) (leaves e) = [])"
proof -
  have l: "leaves_opt m = filter etype (leaves e)" "leaves_opt r = filter (\<lambda>x. \<not> etype x) (leaves e)"
    using assms(2,3) exception.aware_split_leaves [of e m r] cancelled.aware_split_leaves [of e m r] by auto
  have "\<forall>x. m = Some x \<or> r = Some x \<longrightarrow> wf_exn x" by (rule wf_aware_split [OF assms(1,3)])
  then have "leaves_opt m = [] \<longleftrightarrow> m = None" "leaves_opt r = [] \<longleftrightarrow> r = None"
    by (simp_all add: leaves_opt_empty)
  then show ?thesis using l by simp
qed

theorem aware_split_partitions_witness:
  "leaves_opt (fst (collapse_aware_exception_split
     (ExcGroup True [ExcGroup True [Cancelled], ExcGroup False [KeyError]]) is_Cancelled)) = [Cancelled]"
proof -
  let ?e = "ExcGroup True [ExcGroup True [Cancelled], ExcGroup False [KeyError]]"
  obtain m r where c: "collapse_aware_exception_split ?e is_Cancelled = (m, r)" by fastforce
  have "wf_exn ?e" by simp
  from aware_split_partitions [OF this _ c] have "leaves_opt m = [Cancelled]" by simp
  then show ?thesis by (simp only: c fst_conv)
qed

end
