(* ===== verification/Asyncgen_Hooks.thy ===== *)
theory Asyncgen_Hooks
  imports Aio_Prelude
begin

text \<open>
  \<open>AsyncGeneratorDispatcher\<close> of \<open>_base.py\<close>: one object per thread, shared by all
  running trio-asyncio loops and counted by \<open>refcnt\<close>, that takes the place of the
  thread's async-generator hooks and routes each generator to the loop or to the hooks that
  were there before.
\<close>

section \<open>Hooks and dispatchers\<close>

text \<open>A hook is a function of somebody else, or the method of the dispatcher with the
  given identity. \<open>sys.get_asyncgen_hooks()\<close> is a pair of optional hooks.\<close>

type_synonym did = nat

datatype hook = ForeignHook nat | DispatcherHook did

record hooks =
  firstiter_hook :: "hook option"
  finalizer_hook :: "hook option"

record dispatcher =
  prev_hooks :: hooks
  refcnt :: int

record hooks_state =
  current_hooks :: hooks
  dispatchers :: "did \<Rightarrow> dispatcher"
  next_did :: did

definition dispatcher_hooks :: "did \<Rightarrow> hooks" where
  "dispatcher_hooks d =
     \<lparr>firstiter_hook = Some (DispatcherHook d), finalizer_hook = Some (DispatcherHook d)\<rparr>"

fun hook_self :: "hook option \<Rightarrow> did option" where
  "hook_self (Some (DispatcherHook d)) = Some d"
| "hook_self _ = None"

definition matches :: "hooks \<Rightarrow> nat" where
  "matches h = of_bool (hook_self (firstiter_hook h) \<noteq> None) +
               of_bool (hook_self (finalizer_hook h) \<noteq> None)"

definition install :: "(hooks_state, did) py" where
  "install s =
     (let h = current_hooks s in
      if firstiter_hook h = None \<or> finalizer_hook h = None then py_raise AssertionError s
      else if matches h = 0 then
        (let d = next_did s in
         py_return d
           (s\<lparr>dispatchers := (dispatchers s)(d := \<lparr>prev_hooks = h, refcnt = 1\<rparr>),
              next_did := Suc d, current_hooks := dispatcher_hooks d\<rparr>))
      else if matches h \<noteq> 2 then py_raise AssertionError s
      else
        (case hook_self (firstiter_hook h) of
           None \<Rightarrow> py_raise AssertionError s
         | Some d \<Rightarrow>
             if hook_self (finalizer_hook h) \<noteq> Some d then py_raise AssertionError s
             else py_return d
               (s\<lparr>dispatchers := (dispatchers s)
                    (d := (dispatchers s d)\<lparr>refcnt := refcnt (dispatchers s d) + 1\<rparr>)\<rparr>)))"

definition uninstall :: "did \<Rightarrow> (hooks_state, unit) py" where
  "uninstall d s =
     (let n = refcnt (dispatchers s d) - 1;
          s' = s\<lparr>dispatchers := (dispatchers s)(d := (dispatchers s d)\<lparr>refcnt := n\<rparr>)\<rparr>
      in if n \<le> 0 then
           (let s'' = s'\<lparr>current_hooks := prev_hooks (dispatchers s' d)\<rparr>
            in if n = 0 then py_return () s'' else py_raise AssertionError s'')
         else py_return () s')"

section \<open>Routing a generator\<close>

text \<open>
  A generator's frame is \<open>None\<close> once it is exhausted; its local
  \<open>@trio_asyncio_loop\<close> is the loop it was first iterated in. The hook that is called
  in the end is the loop's own or one of the previous hooks.
\<close>

type_synonym loop_id = nat
type_synonym agen_frame = "loop_id option option"

datatype target = LoopHook loop_id | PrevHook "hook option"

definition firstiter ::
  "dispatcher \<Rightarrow> string option \<Rightarrow> loop_id option \<Rightarrow> agen_frame \<Rightarrow> agen_frame \<times> (exn + target)" where
  "firstiter d library running frame =
     (if library = Some ''asyncio'' then
        (case running of
           None \<Rightarrow> (frame, Inl (RuntimeError ''no running event loop''))
         | Some loop \<Rightarrow>
             (case frame of
                None \<Rightarrow> (frame, Inl AttributeError)
              | Some _ \<Rightarrow> (Some (Some loop), Inr (LoopHook loop))))
      else (frame, Inr (PrevHook (firstiter_hook (prev_hooks d)))))"

definition finalizer :: "dispatcher \<Rightarrow> agen_frame \<Rightarrow> target" where
  "finalizer d frame =
     (case (case frame of None \<Rightarrow> None | Some loc \<Rightarrow> loc) of
        Some loop \<Rightarrow> LoopHook loop
      | None \<Rightarrow> PrevHook (finalizer_hook (prev_hooks d)))"

section \<open>The reference count\<close>

text \<open>
  \<open>hooks_inv orig k d s\<close>: starting from the hooks \<open>orig\<close> of somebody else, \<open>k\<close>
  loops are between \<open>install\<close> and \<open>uninstall\<close>, all with the dispatcher \<open>d\<close>.
\<close>

definition foreign :: "hooks \<Rightarrow> bool" where
  "foreign h \<longleftrightarrow> (\<exists>a b. h = \<lparr>firstiter_hook = Some (ForeignHook a), finalizer_hook = Some (ForeignHook b)\<rparr>)"

definition hooks_inv :: "hooks \<Rightarrow> nat \<Rightarrow> did \<Rightarrow> hooks_state \<Rightarrow> bool" where
  "hooks_inv orig k d s \<longleftrightarrow>
     foreign orig \<and>
     (if k = 0 then current_hooks s = orig
      else current_hooks s = dispatcher_hooks d \<and> prev_hooks (dispatchers s d) = orig \<and>
           refcnt (dispatchers s d) = int k)"

lemma hook_self_dispatcher [simp]:
  "hook_self (firstiter_hook (dispatcher_hooks d)) = Some d"
  "hook_self (finalizer_hook (dispatcher_hooks d)) = Some d"
  "firstiter_hook (dispatcher_hooks d) \<noteq> None"
  "finalizer_hook (dispatcher_hooks d) \<noteq> None"
  "matches (dispatcher_hooks d) = 2"
  by (auto simp: dispatcher_hooks_def matches_def)

lemma install_first:
  "hooks_inv orig 0 d s \<Longrightarrow> \<exists>s'. install s = (s', Inr (next_did s)) \<and> hooks_inv orig 1 (next_did s) s'"
  by (auto simp: hooks_inv_def install_def foreign_def Let_def matches_def)

lemma install_again:
  "hooks_inv orig (Suc k) d s \<Longrightarrow> \<exists>s'. install s = (s', Inr d) \<and> hooks_inv orig (Suc (Suc k)) d s'"
  by (auto simp: hooks_inv_def install_def Let_def)

lemma uninstall_inv:
  "hooks_inv orig (Suc k) d s \<Longrightarrow> \<exists>s'. uninstall d s = (s', Inr ()) \<and> hooks_inv orig k d s'"
  by (auto simp: hooks_inv_def uninstall_def Let_def)

text \<open>Loops enter and leave in any order; each leaves with the dispatcher it was given.\<close>

datatype hook_op = Enter | Leave

fun run_hook_ops :: "hook_op list \<Rightarrow> did list \<Rightarrow> hooks_state \<Rightarrow> (hooks_state \<times> did list) option" where
  "run_hook_ops [] ds s = Some (s, ds)"
| "run_hook_ops (Enter # ops) ds s =
     (case install s of (s', Inr d) \<Rightarrow> run_hook_ops ops (d # ds) s' | _ \<Rightarrow> None)"
| "run_hook_ops (Leave # ops) ds s =
     (case ds of
        [] \<Rightarrow> None
      | d # ds' \<Rightarrow> (case uninstall d s of (s', Inr _) \<Rightarrow> run_hook_ops ops ds' s' | _ \<Rightarrow> None))"

fun balance :: "hook_op list \<Rightarrow> nat \<Rightarrow> nat option" where
  "balance [] k = Some k"
| "balance (Enter # ops) k = balance ops (Suc k)"
| "balance (Leave # ops) k = (case k of 0 \<Rightarrow> None | Suc k' \<Rightarrow> balance ops k')"

lemma run_hook_ops_inv:
  "hooks_inv orig (length ds) d s \<Longrightarrow> set ds \<subseteq> {d} \<Longrightarrow> balance ops (length ds) = Some k \<Longrightarrow>
   \<exists>s' d' ds'. run_hook_ops ops ds s = Some (s', ds') \<and> length ds' = k \<and> set ds' \<subseteq> {d'} \<and>
     hooks_inv orig k d' s'"
proof (induction ops ds s arbitrary: d rule: run_hook_ops.induct)
  case (1 ds s)
  then show ?case by auto
next
  case (2 ops ds s)
  show ?case
  proof (cases ds)
    case Nil
    with 2 install_first [of orig d s] obtain s' where s': "install s = (s', Inr (next_did s))"
      "hooks_inv orig 1 (next_did s) s'" by auto
    then show ?thesis using 2 Nil "2.IH" [OF s'(1) [symmetric] refl, of "next_did s"] by auto
  next
    case (Cons a list)
    with 2 install_again [of orig "length list" d s] obtain s' where s': "install s = (s', Inr d)"
      "hooks_inv orig (Suc (length ds)) d s'" by auto
    then show ?thesis using 2 "2.IH" [OF s'(1) [symmetric] refl, of d] by auto
  qed
next
  case (3 ops ds s)
  then obtain ds' where ds: "ds = d # ds'" by (cases ds) auto
  with 3 uninstall_inv [of orig "length ds'" d s] obtain s' where
    s': "uninstall d s = (s', Inr ())" "hooks_inv orig (length ds') d s'" by auto
  then show ?case using 3 ds "3.IH" [OF ds s'(1) [symmetric] refl, of d] by auto
qed

text \<open>The hooks of an enclosing Trio run, no dispatcher made yet.\<close>

definition trio_hooks :: hooks_state where
  "trio_hooks =
     \<lparr>current_hooks = \<lparr>firstiter_hook = Some (ForeignHook 0), finalizer_hook = Some (ForeignHook 1)\<rparr>,
      dispatchers = (\<lambda>_. \<lparr>prev_hooks = \<lparr>firstiter_hook = None, finalizer_hook = None\<rparr>, refcnt = 0\<rparr>),
      next_did = 0\<rparr>"

section \<open>Properties\<close>

text \<open>C25: the hooks survive nested loops: whatever number of loops of a thread enter and
  leave, in whatever order, they share one dispatcher, which counts them, and when the last
  has left the hooks are those from before the first.\<close>

theorem hooks_restored:
  assumes "foreign (current_hooks s)" and "balance ops 0 = Some k"
  shows "\<exists>s' d ds. run_hook_ops ops [] s = Some (s', ds) \<and> length ds = k \<and> set ds \<subseteq> {d} \<and>
    (if k = 0 then current_hooks s' = current_hooks s
     else current_hooks s' = dispatcher_hooks d \<and> prev_hooks (dispatchers s' d) = current_hooks s \<and>
       refcnt (dispatchers s' d) = int k)"
  using run_hook_ops_inv [of "current_hooks s" "[]" 0 s ops k] assms
  by (auto simp: hooks_inv_def)

theorem hooks_restored_witness:
  "\<exists>s' ds. run_hook_ops [Enter, Enter, Leave, Enter, Leave, Leave] [] trio_hooks = Some (s', ds) \<and>
    current_hooks s' = current_hooks trio_hooks"
proof -
  have "foreign (current_hooks trio_hooks)" "balance [Enter, Enter, Leave, Enter, Leave, Leave] 0 = Some 0"
    by (simp_all add: foreign_def trio_hooks_def)
  from hooks_restored [OF this] show ?thesis unfolding if_P [OF refl] by blast
qed

text \<open>An asynchronous generator is finalized where it was first iterated: by the loop
  whose \<open>firstiter\<close> hook was called, if there was one, else by the hooks from before
  trio-asyncio, whichever dispatcher is installed by then.\<close>

theorem generator_finalized_at_home:
  assumes "firstiter d library running (Some None) = (frame', Inr t)"
  shows "(\<forall>l. t = LoopHook l \<longrightarrow> library = Some ''asyncio'' \<and> running = Some l \<and> finalizer d' frame' = LoopHook l) \<and>
    (\<forall>p. t = PrevHook p \<longrightarrow> library \<noteq> Some ''asyncio'' \<and> p = firstiter_hook (prev_hooks d) \<and>
       finalizer d' frame' = PrevHook (finalizer_hook (prev_hooks d')))"
  using assms by (auto simp: firstiter_def finalizer_def split: if_splits option.splits)

theorem generator_finalized_at_home_witness:
  "finalizer \<lparr>prev_hooks = \<lparr>firstiter_hook = None, finalizer_hook = None\<rparr>, refcnt = 1\<rparr>
     (fst (firstiter \<lparr>prev_hooks = \<lparr>firstiter_hook = None, finalizer_hook = None\<rparr>, refcnt = 1\<rparr>
        (Some ''asyncio'') (Some 7) (Some None))) = LoopHook 7"
proof -
  let ?d = "\<lparr>prev_hooks = \<lparr>firstiter_hook = None, finalizer_hook = None\<rparr>, refcnt = 1\<rparr>"
  have f: "firstiter ?d (Some ''asyncio'') (Some 7) (Some None) = (Some (Some 7), Inr (LoopHook 7))"
    by (simp add: firstiter_def)
  have "finalizer ?d (Some (Some 7)) = LoopHook 7" using generator_finalized_at_home [OF f, of ?d] by blast
  then show ?thesis by (simp only: f fst_conv)
qed

end
