(* ===== verification/Loop_State.thy ===== *)
theory Loop_State
  imports Heapq Exception_Groups Asyncgen_Hooks "HOL-Library.AList"
begin

text \<open>
  The state of \<open>BaseTrioEventLoop\<close> (\<open>_base.py\<close>), the handles and futures it works
  on, Trio's memory channel as an interface, and the operations that schedule or cancel
  work. The methods that \<open>_base.py\<close> leaves to its subclasses (\<open>_queue_handle\<close>,
  \<open>stop\<close>, the exception handler) or that one of them overrides (\<open>_trio_io_cancel\<close>,
  \<open>_add_reader\<close>, \<open>_add_writer\<close>) are arguments, collected in the
  record \<open>methods\<close>, as the dynamic dispatch of the source.
\<close>

text \<open>What Trio raises when a task is started in a nursery that has been closed.\<close>

definition nursery_is_closed :: exn where
  "nursery_is_closed = RuntimeError ''Nursery is closed to new arrivals''"

lemma nursery_is_closed_simps [simp]:
  "nursery_is_closed \<noteq> WouldBlock" "WouldBlock \<noteq> nursery_is_closed"
  "nursery_is_closed \<noteq> TrioAsyncioExit" "TrioAsyncioExit \<noteq> nursery_is_closed"
  "\<not> is_exit nursery_is_closed" "\<not> is_Cancelled nursery_is_closed" "is_Exception nursery_is_closed"
  by (simp_all add: nursery_is_closed_def)

section \<open>The memory channel\<close>

text \<open>
  \<open>trio.open_memory_channel\<close> is not code of the repository: its two operations are a
  parameter. \<open>None\<close> is the exception \<open>trio.WouldBlock\<close>. The laws are what Trio
  documents: messages come out in the order they went in, sending fails exactly when the
  buffer of a bounded channel is full, receiving without waiting when it is empty.
\<close>

record 'q channel_ops =
  send_nowait :: "'q \<Rightarrow> hid \<Rightarrow> 'q option"
  receive_nowait :: "'q \<Rightarrow> (hid \<times> 'q) option"

locale memory_channel =
  fixes C :: "'q channel_ops" and msgs :: "'q \<Rightarrow> hid list" and cap :: "'q \<Rightarrow> nat option"
  assumes send_None_iff: "send_nowait C q h = None \<longleftrightarrow> (\<exists>n. cap q = Some n \<and> n \<le> length (msgs q))"
    and send_msgs: "send_nowait C q h = Some q' \<Longrightarrow> msgs q' = msgs q @ [h]"
    and send_cap: "send_nowait C q h = Some q' \<Longrightarrow> cap q' = cap q"
    and receive_None_iff: "receive_nowait C q = None \<longleftrightarrow> msgs q = []"
    and receive_msgs: "receive_nowait C q = Some (h, q') \<Longrightarrow> msgs q = h # msgs q'"
    and receive_cap: "receive_nowait C q = Some (h, q') \<Longrightarrow> cap q' = cap q"

text \<open>A channel with these laws, on which the properties are evaluated: the list of
  messages and the capacity (\<open>None\<close> is \<open>math.inf\<close>).\<close>

definition fifo_ops :: "(hid list \<times> nat option) channel_ops" where
  "fifo_ops =
     \<lparr>send_nowait = (\<lambda>(ms, c) h.
        (case c of Some n \<Rightarrow> if n \<le> length ms then None else Some (ms @ [h], c)
         | None \<Rightarrow> Some (ms @ [h], c))),
      receive_nowait = (\<lambda>(ms, c). case ms of [] \<Rightarrow> None | h # hs \<Rightarrow> Some (h, (hs, c)))\<rparr>"

interpretation fifo: memory_channel fifo_ops fst snd
  by unfold_locales (auto simp: fifo_ops_def split: option.splits list.splits if_splits)

section \<open>Handles, futures, callbacks\<close>

text \<open>
  What a callback does to the loop when it runs. \<open>SetEvent\<close> is the bound method
  \<open>w.set\<close> of \<open>synchronize\<close>, \<open>StopMe\<close> and \<open>DoStop\<close> the local functions
  \<open>stop_me\<close> and \<open>do_stop\<close> of the two \<open>stop\<close> methods, \<open>IsDone f n\<close> the
  \<open>is_done\<close> that the \<open>n\<close>-th \<open>run_until_complete\<close> puts on its future. The application's own
  callbacks: a \<open>UserCallback\<close> is given by its trace, the loop operations its execution performs,
  with the exception it ends with, if any; a \<open>UserFunction\<close> by its number, so that it can
  schedule itself again, and what a call of it does is in the field \<open>program\<close> of the state. \<open>TrioProc n\<close> is a Trio-flavored async function, which only an
  \<open>AsyncHandle\<close> may hold.
\<close>

type_synonym fd = int

datatype callback =
    SetEvent eid
  | StopMe eid
  | DoStop
  | IsDone fid nat
  | TrioProc nat
  | UserCallback "api list" "exn option"
  | UserFunction nat
and api =
    CallSoon callback
  | CallLater instant callback
  | CallAt instant callback
  | CallSoonThreadsafe callback
  | TrioAsFuture callback
  | RunTrioTask callback
  | CancelHandle hid
  | CancelFuture fid "string option"
  | AddDoneCallback fid callback
  | CreateFuture
  | SetResult fid nat
  | SetException fid exn
  | StopLoop "eid option"
  | AddReader fd callback
  | AddWriter fd callback
  | RemoveReader fd
  | RemoveWriter fd
  | Autoclose fd
  | NoAutoclose fd

type_synonym trace = "api list \<times> exn option"

text \<open>The class of a handle with the fields its class adds: \<open>TimerHandle._when\<close>,
  \<open>AsyncHandle._fut\<close>.\<close>

datatype hkind =
    PlainHandle
  | TimerHandle instant
  | ScopedHandle
  | AsyncHandle "fid option"

text \<open>
  \<open>_callback\<close> (\<open>None\<close> once cancelled), \<open>_cancelled\<close>; then the fields of
  \<open>ScopedHandle\<close> and \<open>AsyncHandle\<close>: whether \<open>_scope.cancel()\<close> was called,
  \<open>_started.is_set()\<close>, \<open>_finished\<close>, \<open>_cancel_message\<close>.
\<close>

record handle =
  kind :: hkind
  hcallback :: "callback option"
  hcancelled :: bool
  hscope_cancelled :: bool
  hstarted :: bool
  hfinished :: bool
  hcancel_message :: "string option"

text \<open>An \<open>asyncio.Future\<close>; \<open>fwrapped\<close> is the handle whose \<open>wrapped_cancel\<close>
  replaces the future's \<open>cancel\<close>, results are numbered.\<close>

datatype fstate = Pending | FCancelled "string option" | FResult nat | FException exn

record future =
  fstate :: fstate
  fcallbacks :: "callback list"
  fwrapped :: "hid option"

definition new_handle_obj :: "hkind \<Rightarrow> callback \<Rightarrow> handle" where
  "new_handle_obj k cb =
     \<lparr>kind = k, hcallback = Some cb, hcancelled = False, hscope_cancelled = False,
      hstarted = False, hfinished = False, hcancel_message = None\<rparr>"

section \<open>The selector\<close>

text \<open>
  A key of the selector: the mask, bit by bit (\<open>EVENT_READ\<close> is 1, \<open>EVENT_WRITE\<close> is 2), and
  the data (reader, writer). The map is kept in the order of registration.
\<close>

record sel_key =
  ev_read :: bool
  ev_write :: bool
  reader :: "hid option"
  writer :: "hid option"

text \<open>
  Where the task of one handler (\<open>_io_task\<close>) is: at the test of \<open>_cancelled\<close>
  (\<open>IoTop\<close>), in \<open>wait_ready(fd)\<close>, in \<open>synchronize()\<close> for the given event, or it has
  ended; \<open>IoError\<close> is an exception that left the \<open>try\<close> to the outside.
\<close>

datatype io_pc = IoTop | IoWaiting | IoSync eid | IoDone | IoError exn

section \<open>The event loop\<close>

text \<open>
  The fields of the loop object: \<open>queue\<close> is the channel \<open>_q_send\<close>/\<open>_q_recv\<close>,
  \<open>timers\<close> the heap \<open>_timers\<close> of (\<open>_when\<close>, handle), \<open>stopped\<close> whether
  \<open>_stopped\<close> is set; \<open>nursery\<close>, \<open>task\<close>, \<open>token\<close> whether these fields are not
  \<open>None\<close>, and \<open>nursery_closed\<close> whether Trio has closed the nursery to new tasks. Then the objects the loop shares with others (handles, futures, the flags
  of \<open>trio.Event\<close>s, each with the next free identity), the clock, the thread-local
  \<open>sniffio_library.name\<close>, the thread's async-generator hooks and the loop's dispatcher, the
  selector with the file descriptors to close, those given to \<open>os.close\<close>, the I/O
  tasks started (file descriptor, handle, whether it waits for reading), where each of them is,
  and the descriptors that an asyncio transport uses, and what it asked
  of Trio: the handles whose \<open>_run\<close> was
  started in the nursery, the exceptions raised by tasks of the nursery, the handles given
  to \<open>token.run_sync_soon\<close>. \<open>received\<close> and \<open>ran\<close> are history: the handles taken
  from the channel, and those whose \<open>_run\<close> the loop called, in order. \<open>program\<close> is the
  application's code: \<open>program s n k\<close> is what function \<open>n\<close> does when it is the \<open>k\<close>-th callback
  to run, so that it may do something else each time, as the state of the application has it; no
  operation changes it.
\<close>

record 'q loop =
  queue :: 'q
  timers :: "(instant \<times> hid) list"
  closed_flag :: bool
  stopped :: bool
  stop_wait :: "eid option"
  nursery :: bool
  nursery_closed :: bool
  task :: bool
  token :: bool
  handles :: "hid \<Rightarrow> handle"
  next_hid :: hid
  futures :: "fid \<Rightarrow> future"
  next_fid :: fid
  events :: "eid \<Rightarrow> bool"
  next_eid :: eid
  clock :: instant
  sniffio :: "string option"
  asyncgen :: hooks_state
  dispatcher :: "did option"
  selector :: "(fd \<times> sel_key) list"
  close_files :: "fd set"
  closed_fds :: "fd list"
  io_tasks :: "(fd \<times> hid \<times> bool) list"
  io_state :: "hid \<Rightarrow> io_pc"
  transports :: "fd set"
  started_tasks :: "hid list"
  task_errors :: "exn list"
  sync_soon :: "hid list"
  received :: "hid list"
  ran :: "hid list"
  program :: "nat \<Rightarrow> nat \<Rightarrow> trace"

text \<open>The methods a subclass provides (and \<open>do_stop\<close> and \<open>is_done\<close>, the callbacks of
  the sync loop, which write that class's own fields).\<close>

record 's methods =
  m_queue_handle :: "hid \<Rightarrow> ('s, unit) py"
  m_stop :: "eid option \<Rightarrow> ('s, unit) py"
  m_do_stop :: "('s, unit) py"
  m_is_done :: "fid \<Rightarrow> nat \<Rightarrow> ('s, unit) py"
  m_io_cancel :: "hid \<Rightarrow> ('s, unit) py"
  m_add_reader :: "fd \<Rightarrow> callback \<Rightarrow> ('s, hid option) py"
  m_add_writer :: "fd \<Rightarrow> callback \<Rightarrow> ('s, hid option) py"
  m_default_exception_handler :: "exn option \<times> string option \<Rightarrow> ('s, unit) py"

text \<open>Writing one handle, one future, one event.\<close>

definition upd_handle :: "hid \<Rightarrow> (handle \<Rightarrow> handle) \<Rightarrow> ('q, 'z) loop_scheme \<Rightarrow> ('q, 'z) loop_scheme" where
  "upd_handle h f s = s\<lparr>handles := (handles s)(h := f (handles s h))\<rparr>"

definition upd_future :: "fid \<Rightarrow> (future \<Rightarrow> future) \<Rightarrow> ('q, 'z) loop_scheme \<Rightarrow> ('q, 'z) loop_scheme" where
  "upd_future f g s = s\<lparr>futures := (futures s)(f := g (futures s f))\<rparr>"

definition set_event :: "eid \<Rightarrow> ('q, 'z) loop_scheme \<Rightarrow> ('q, 'z) loop_scheme" where
  "set_event e s = s\<lparr>events := (events s)(e := True)\<rparr>"

definition alloc_handle :: "hkind \<Rightarrow> callback \<Rightarrow> ('q, 'z) loop_scheme \<Rightarrow> ('q, 'z) loop_scheme \<times> hid" where
  "alloc_handle k cb s =
     (s\<lparr>handles := (handles s)(next_hid s := new_handle_obj k cb), next_hid := Suc (next_hid s)\<rparr>,
      next_hid s)"

definition alloc_future :: "('q, 'z) loop_scheme \<Rightarrow> ('q, 'z) loop_scheme \<times> fid" where
  "alloc_future s =
     (s\<lparr>futures := (futures s)(next_fid s := \<lparr>fstate = Pending, fcallbacks = [], fwrapped = None\<rparr>),
        next_fid := Suc (next_fid s)\<rparr>, next_fid s)"

definition alloc_event :: "('q, 'z) loop_scheme \<Rightarrow> ('q, 'z) loop_scheme \<times> eid" where
  "alloc_event s =
     (s\<lparr>events := (events s)(next_eid s := False), next_eid := Suc (next_eid s)\<rparr>, next_eid s)"

section \<open>Scheduling\<close>

text \<open>asyncio's \<open>_check_closed\<close> and \<open>_check_callback\<close>.\<close>

definition check_closed :: "(('q, 'z) loop_scheme, unit) py" where
  "check_closed s =
     (if closed_flag s then py_raise (RuntimeError ''Event loop is closed'') s else py_return () s)"

fun is_coroutine_function :: "callback \<Rightarrow> bool" where
  "is_coroutine_function (TrioProc _) = True"
| "is_coroutine_function _ = False"

definition check_callback :: "callback \<Rightarrow> ('s, unit) py" where
  "check_callback cb s = (if is_coroutine_function cb then py_raise TypeError s else py_return () s)"

definition loop_time :: "(('q, 'z) loop_scheme, instant) py" where
  "loop_time s =
     (if \<not> task s then py_raise (RuntimeError ''This loop is closed.'') s
      else py_return (clock s) s)"

text \<open>Creating a handle and passing it to \<open>_queue_handle\<close>, which returns it.\<close>

definition queue_new ::
  "(hid \<Rightarrow> (('q, 'z) loop_scheme, unit) py) \<Rightarrow> hkind \<Rightarrow> callback \<Rightarrow> (('q, 'z) loop_scheme, hid) py" where
  "queue_new queue_handle k cb s =
     (case alloc_handle k cb s of
        (s', h) \<Rightarrow> py_bind (queue_handle h) (\<lambda>_. py_return h) s')"

definition call_soon ::
  "('q, 'z) loop_scheme methods \<Rightarrow> callback \<Rightarrow> (('q, 'z) loop_scheme, hid) py" where
  "call_soon M cb = py_bind (check_callback cb) (\<lambda>_. queue_new (m_queue_handle M) PlainHandle cb)"

definition call_at ::
  "('q, 'z) loop_scheme methods \<Rightarrow> instant \<Rightarrow> callback \<Rightarrow> (('q, 'z) loop_scheme, hid) py" where
  "call_at M when cb = py_bind (check_callback cb) (\<lambda>_. queue_new (m_queue_handle M) (TimerHandle when) cb)"

definition call_later ::
  "('q, 'z) loop_scheme methods \<Rightarrow> instant \<Rightarrow> callback \<Rightarrow> (('q, 'z) loop_scheme, hid) py" where
  "call_later M delay cb =
     py_bind (check_callback cb) (\<lambda>_.
       if delay < 0 then py_raise AssertionError
       else py_bind loop_time (\<lambda>t. queue_new (m_queue_handle M) (TimerHandle (delay + t)) cb))"

definition call_soon_threadsafe ::
  "callback \<Rightarrow> (('q, 'z) loop_scheme, unit) py" where
  "call_soon_threadsafe cb =
     py_bind (check_callback cb) (\<lambda>_. py_bind check_closed (\<lambda>_ s.
       case alloc_handle PlainHandle cb s of
         (s', h) \<Rightarrow> if \<not> token s' then py_raise AttributeError s'
                    else py_return () (s'\<lparr>sync_soon := sync_soon s' @ [h]\<rparr>)))"

text \<open>Trio runs the oldest function given to \<open>run_sync_soon\<close>: \<open>_q_send.send_nowait(h)\<close>.\<close>

definition run_sync_soon_one :: "'q channel_ops \<Rightarrow> (('q, 'z) loop_scheme, unit) py" where
  "run_sync_soon_one C s =
     (case sync_soon s of
        [] \<Rightarrow> py_return () s
      | h # hs \<Rightarrow>
          (let s' = s\<lparr>sync_soon := hs\<rparr>
           in case send_nowait C (queue s') h of
                None \<Rightarrow> py_raise WouldBlock s'
              | Some q \<Rightarrow> py_return () (s'\<lparr>queue := q\<rparr>)))"

text \<open>\<open>trio_as_future\<close>: the constructor of \<open>AsyncHandle\<close> replaces the future's
  \<open>cancel\<close> by its \<open>wrapped_cancel\<close>.\<close>

definition trio_as_future ::
  "('q, 'z) loop_scheme methods \<Rightarrow> callback \<Rightarrow> (('q, 'z) loop_scheme, fid) py" where
  "trio_as_future M proc s =
     (case alloc_future s of (s1, f) \<Rightarrow>
      case alloc_handle (AsyncHandle (Some f)) proc s1 of (s2, h) \<Rightarrow>
        py_bind (m_queue_handle M h) (\<lambda>_. py_return f)
          (upd_future f (\<lambda>x. x\<lparr>fwrapped := Some h\<rparr>) s2))"

definition run_trio_task ::
  "('q, 'z) loop_scheme methods \<Rightarrow> callback \<Rightarrow> (('q, 'z) loop_scheme, hid) py" where
  "run_trio_task M proc = queue_new (m_queue_handle M) (AsyncHandle None) proc"

text \<open>\<open>synchronize\<close> up to its wait: the event it waits for.\<close>

definition synchronize_begin ::
  "('q, 'z) loop_scheme methods \<Rightarrow> (('q, 'z) loop_scheme, eid) py" where
  "synchronize_begin M s =
     (case alloc_event s of
        (s', w) \<Rightarrow> py_bind (queue_new (m_queue_handle M) PlainHandle (SetEvent w)) (\<lambda>_. py_return w) s')"

section \<open>Cancelling\<close>

text \<open>\<open>asyncio.Handle.cancel\<close>; \<open>TimerHandle.cancel\<close> calls
  \<open>_timer_handle_cancelled\<close> first, which the loop overrides to do nothing.\<close>

definition handle_cancel :: "hid \<Rightarrow> ('q, 'z) loop_scheme \<Rightarrow> ('q, 'z) loop_scheme" where
  "handle_cancel h s =
     (if hcancelled (handles s h) then s
      else upd_handle h (\<lambda>x. x\<lparr>hcancelled := True, hcallback := None\<rparr>) s)"

text \<open>\<open>BaseTrioEventLoop._trio_io_cancel\<close> and \<open>ScopedHandle.cancel\<close>.\<close>

definition trio_io_cancel :: "hid \<Rightarrow> (('q, 'z) loop_scheme, unit) py" where
  "trio_io_cancel h s = py_return () (upd_handle h (\<lambda>x. x\<lparr>hscope_cancelled := True\<rparr>) s)"

definition scoped_cancel_by ::
  "(hid \<Rightarrow> (('q, 'z) loop_scheme, unit) py) \<Rightarrow> hid \<Rightarrow> (('q, 'z) loop_scheme, unit) py" where
  "scoped_cancel_by io_cancel h s = io_cancel h (handle_cancel h s)"

definition scoped_cancel ::
  "('q, 'z) loop_scheme methods \<Rightarrow> hid \<Rightarrow> (('q, 'z) loop_scheme, unit) py" where
  "scoped_cancel M = scoped_cancel_by (m_io_cancel M)"

definition cancel_handle ::
  "('q, 'z) loop_scheme methods \<Rightarrow> hid \<Rightarrow> (('q, 'z) loop_scheme, unit) py" where
  "cancel_handle M h s =
     (case kind (handles s h) of
        AsyncHandle _ \<Rightarrow> scoped_cancel M h s
      | ScopedHandle \<Rightarrow> scoped_cancel M h s
      | _ \<Rightarrow> py_return () (handle_cancel h s))"

text \<open>\<open>_cancel_timers\<close>\<close>

definition cancel_timers :: "('q, 'z) loop_scheme \<Rightarrow> ('q, 'z) loop_scheme" where
  "cancel_timers s = (fold (\<lambda>(_, h). handle_cancel h) (timers s) s)\<lparr>timers := []\<rparr>"

section \<open>Futures\<close>

text \<open>asyncio's \<open>Future\<close>: resolving it passes its done-callbacks to \<open>call_soon\<close>.\<close>

fun call_soon_all ::
  "('q, 'z) loop_scheme methods \<Rightarrow> callback list \<Rightarrow> (('q, 'z) loop_scheme, unit) py" where
  "call_soon_all M [] = py_return ()"
| "call_soon_all M (cb # cbs) = py_bind (call_soon M cb) (\<lambda>_. call_soon_all M cbs)"

definition fut_done :: "fid \<Rightarrow> ('q, 'z) loop_scheme \<Rightarrow> bool" where
  "fut_done f s \<longleftrightarrow> fstate (futures s f) \<noteq> Pending"

definition fut_cancelled :: "fid \<Rightarrow> ('q, 'z) loop_scheme \<Rightarrow> bool" where
  "fut_cancelled f s \<longleftrightarrow> (case fstate (futures s f) of FCancelled _ \<Rightarrow> True | _ \<Rightarrow> False)"

text \<open>\<open>future.result()\<close>\<close>

fun future_result :: "fstate \<Rightarrow> exn + nat" where
  "future_result Pending = Inl InvalidStateError"
| "future_result (FCancelled _) = Inl CancelledError"
| "future_result (FResult v) = Inr v"
| "future_result (FException e) = Inl e"

text \<open>Leaving the pending state and scheduling the callbacks.\<close>

definition fut_resolve ::
  "('q, 'z) loop_scheme methods \<Rightarrow> fid \<Rightarrow> fstate \<Rightarrow> (('q, 'z) loop_scheme, unit) py" where
  "fut_resolve M f st s =
     call_soon_all M (fcallbacks (futures s f))
       (upd_future f (\<lambda>x. x\<lparr>fstate := st, fcallbacks := []\<rparr>) s)"

definition fut_orig_cancel ::
  "('q, 'z) loop_scheme methods \<Rightarrow> fid \<Rightarrow> string option \<Rightarrow> (('q, 'z) loop_scheme, bool) py" where
  "fut_orig_cancel M f msg s =
     (if fut_done f s then py_return False s
      else py_bind (fut_resolve M f (FCancelled msg)) (\<lambda>_. py_return True) s)"

definition fut_set_result ::
  "('q, 'z) loop_scheme methods \<Rightarrow> fid \<Rightarrow> nat \<Rightarrow> (('q, 'z) loop_scheme, unit) py" where
  "fut_set_result M f r s =
     (if fut_done f s then py_raise InvalidStateError s else fut_resolve M f (FResult r) s)"

definition fut_set_exception ::
  "('q, 'z) loop_scheme methods \<Rightarrow> fid \<Rightarrow> exn \<Rightarrow> (('q, 'z) loop_scheme, unit) py" where
  "fut_set_exception M f e s =
     (if fut_done f s then py_raise InvalidStateError s else fut_resolve M f (FException e) s)"

definition add_done_callback ::
  "('q, 'z) loop_scheme methods \<Rightarrow> fid \<Rightarrow> callback \<Rightarrow> (('q, 'z) loop_scheme, unit) py" where
  "add_done_callback M f cb s =
     (if fut_done f s then py_bind (call_soon M cb) (\<lambda>_. py_return ()) s
      else py_return () (upd_future f (\<lambda>x. x\<lparr>fcallbacks := fcallbacks x @ [cb]\<rparr>) s))"

text \<open>The \<open>wrapped_cancel\<close> that \<open>AsyncHandle.__init__\<close> puts in place of the
  future's \<open>cancel\<close>.\<close>

definition wrapped_cancel ::
  "('q, 'z) loop_scheme methods \<Rightarrow> hid \<Rightarrow> fid \<Rightarrow> string option \<Rightarrow> (('q, 'z) loop_scheme, bool) py" where
  "wrapped_cancel M h f msg s =
     (if hfinished (handles s h) then
        (if msg \<noteq> None then fut_orig_cancel M f msg s
         else if hcancel_message (handles s h) \<noteq> None
              then fut_orig_cancel M f (hcancel_message (handles s h)) s
         else fut_orig_cancel M f None s)
      else if fut_done f s then py_return False s
      else py_bind (scoped_cancel M h) (\<lambda>_. py_return True)
             (upd_handle h (\<lambda>x. x\<lparr>hcancel_message := msg\<rparr>) s))"

definition fut_cancel ::
  "('q, 'z) loop_scheme methods \<Rightarrow> fid \<Rightarrow> string option \<Rightarrow> (('q, 'z) loop_scheme, bool) py" where
  "fut_cancel M f msg s =
     (case fwrapped (futures s f) of
        None \<Rightarrow> fut_orig_cancel M f msg s
      | Some h \<Rightarrow> wrapped_cancel M h f msg s)"

end
