(* ===== verification/Io_Handlers.thy ===== *)
theory Io_Handlers
  imports Loop_State
begin

text \<open>
  Readers and writers of file descriptors (\<open>_base.py\<close>, "File descriptor callbacks"): the
  selector as a table of handles, the methods that add and remove them, the set of
  descriptors that are closed with the loop, and \<open>_cancel_fds\<close>.
\<close>

section \<open>The selector of the standard library\<close>

text \<open>\<open>_TrioSelector\<close> inherits \<open>register\<close>, \<open>modify\<close>, \<open>unregister\<close> and
  \<open>get_key\<close> from \<open>selectors._BaseSelectorImpl\<close> and disables \<open>select\<close>. Changing the
  mask of a key registers it anew, at the end.\<close>

definition sel_get_key :: "(fd \<times> sel_key) list \<Rightarrow> fd \<Rightarrow> sel_key option" where
  "sel_get_key sel fd = map_of sel fd"

definition sel_register :: "fd \<Rightarrow> sel_key \<Rightarrow> (fd \<times> sel_key) list \<Rightarrow> (fd \<times> sel_key) list" where
  "sel_register fd k sel = sel @ [(fd, k)]"

definition sel_unregister :: "fd \<Rightarrow> (fd \<times> sel_key) list \<Rightarrow> (fd \<times> sel_key) list" where
  "sel_unregister fd sel = AList.delete fd sel"

definition sel_modify :: "fd \<Rightarrow> sel_key \<Rightarrow> (fd \<times> sel_key) list \<Rightarrow> (fd \<times> sel_key) list" where
  "sel_modify fd k sel =
     (case map_of sel fd of
        None \<Rightarrow> sel
      | Some old \<Rightarrow>
          if (ev_read k, ev_write k) \<noteq> (ev_read old, ev_write old)
          then sel_register fd k (sel_unregister fd sel)
          else AList.update fd k sel)"

lemma map_of_delete [simp]: "map_of (AList.delete k al) = (map_of al)(k := None)"
  by (simp add: delete_conv')

lemma sel_register_lookup:
  "map_of sel fd = None \<Longrightarrow> map_of (sel_register fd k sel) = (map_of sel)(fd \<mapsto> k)"
  by (rule ext) (simp add: sel_register_def map_add_def split: option.split)

lemma sel_modify_lookup:
  "map_of sel fd = Some old \<Longrightarrow> map_of (sel_modify fd k sel) = (map_of sel)(fd \<mapsto> k)"
  by (auto simp: sel_modify_def sel_unregister_def sel_register_lookup update_conv')

lemma sel_unregister_lookup: "map_of (sel_unregister fd sel) = (map_of sel)(fd := None)"
  by (simp add: sel_unregister_def)

lemmas sel_lookup = sel_register_lookup sel_modify_lookup sel_unregister_lookup

section \<open>Adding handlers\<close>

text \<open>\<open>_set_read_handle\<close> and \<open>_set_write_handle\<close>: the handle that was there before.\<close>

definition set_read_handle :: "fd \<Rightarrow> hid \<Rightarrow> ('q, 'z) loop_scheme \<Rightarrow> ('q, 'z) loop_scheme \<times> hid option" where
  "set_read_handle fd handle s =
     (case sel_get_key (selector s) fd of
        None \<Rightarrow>
          (s\<lparr>selector := sel_register fd
               \<lparr>ev_read = True, ev_write = False, reader = Some handle, writer = None\<rparr> (selector s)\<rparr>, None)
      | Some key \<Rightarrow>
          (s\<lparr>selector := sel_modify fd (key\<lparr>ev_read := True, reader := Some handle\<rparr>) (selector s)\<rparr>,
           reader key))"

definition set_write_handle :: "fd \<Rightarrow> hid \<Rightarrow> ('q, 'z) loop_scheme \<Rightarrow> ('q, 'z) loop_scheme \<times> hid option" where
  "set_write_handle fd handle s =
     (case sel_get_key (selector s) fd of
        None \<Rightarrow>
          (s\<lparr>selector := sel_register fd
               \<lparr>ev_read = False, ev_write = True, reader = None, writer = Some handle\<rparr> (selector s)\<rparr>, None)
      | Some key \<Rightarrow>
          (s\<lparr>selector := sel_modify fd (key\<lparr>ev_write := True, writer := Some handle\<rparr>) (selector s)\<rparr>,
           writer key))"

text \<open>\<open>_add_io_handler\<close>: the handle is returned if a task was started for it, which is the
  last part.\<close>

definition start_io_task ::
  "fd \<Rightarrow> hid \<Rightarrow> bool \<Rightarrow> (('q, 'z) loop_scheme, hid option) py" where
  "start_io_task fd handle reading s =
     (if \<not> token s then py_return None s
      else if \<not> nursery s then py_raise AttributeError s
      else if nursery_closed s then py_raise nursery_is_closed s
      else py_return (Some handle)
        (s\<lparr>io_tasks := io_tasks s @ [(fd, handle, reading)],
           io_state := (io_state s)(handle := IoTop)\<rparr>))"

definition add_io_handler ::
  "(hid \<Rightarrow> (('q, 'z) loop_scheme, unit) py) \<Rightarrow>
   (fd \<Rightarrow> hid \<Rightarrow> ('q, 'z) loop_scheme \<Rightarrow> ('q, 'z) loop_scheme \<times> hid option) \<Rightarrow>
   bool \<Rightarrow> fd \<Rightarrow> callback \<Rightarrow> (('q, 'z) loop_scheme, hid option) py" where
  "add_io_handler io_cancel set_handle reading fd cb =
     py_bind check_closed (\<lambda>_ s.
       case alloc_handle ScopedHandle cb s of (s1, handle) \<Rightarrow>
       case set_handle fd handle s1 of (s2, old_handle) \<Rightarrow>
         py_bind (case old_handle of None \<Rightarrow> py_return () | Some old \<Rightarrow> scoped_cancel_by io_cancel old)
           (\<lambda>_. start_io_task fd handle reading) s2)"

definition add_reader_impl ::
  "(hid \<Rightarrow> (('q, 'z) loop_scheme, unit) py) \<Rightarrow> fd \<Rightarrow> callback \<Rightarrow> (('q, 'z) loop_scheme, hid option) py" where
  "add_reader_impl io_cancel fd cb = add_io_handler io_cancel set_read_handle True fd cb"

definition add_writer_impl ::
  "(hid \<Rightarrow> (('q, 'z) loop_scheme, unit) py) \<Rightarrow> fd \<Rightarrow> callback \<Rightarrow> (('q, 'z) loop_scheme, hid option) py" where
  "add_writer_impl io_cancel fd cb = add_io_handler io_cancel set_write_handle False fd cb"

text \<open>The public methods first ask asyncio whether a transport uses the descriptor.\<close>

definition ensure_fd_no_transport :: "fd \<Rightarrow> (('q, 'z) loop_scheme, unit) py" where
  "ensure_fd_no_transport fd s =
     (if fd \<in> transports s then py_raise (RuntimeError ''File descriptor is used by transport'') s
      else py_return () s)"

definition add_reader ::
  "('q, 'z) loop_scheme methods \<Rightarrow> fd \<Rightarrow> callback \<Rightarrow> (('q, 'z) loop_scheme, hid option) py" where
  "add_reader M fd cb = py_bind (ensure_fd_no_transport fd) (\<lambda>_. m_add_reader M fd cb)"

definition add_writer ::
  "('q, 'z) loop_scheme methods \<Rightarrow> fd \<Rightarrow> callback \<Rightarrow> (('q, 'z) loop_scheme, hid option) py" where
  "add_writer M fd cb = py_bind (ensure_fd_no_transport fd) (\<lambda>_. m_add_writer M fd cb)"

text \<open>\<open>remove_reader\<close> and \<open>remove_writer\<close>, unchanged from asyncio: the table is written, the
  handle that was in it is cancelled.\<close>

definition take_slot ::
  "('q, 'z) loop_scheme methods \<Rightarrow> (fd \<times> sel_key) list \<Rightarrow> hid option \<Rightarrow> (('q, 'z) loop_scheme, bool) py" where
  "take_slot M sel old s =
     (case old of
        None \<Rightarrow> py_return False (s\<lparr>selector := sel\<rparr>)
      | Some h \<Rightarrow> py_bind (scoped_cancel M h) (\<lambda>_. py_return True) (s\<lparr>selector := sel\<rparr>))"

definition remove_reader_impl ::
  "('q, 'z) loop_scheme methods \<Rightarrow> fd \<Rightarrow> (('q, 'z) loop_scheme, bool) py" where
  "remove_reader_impl M fd s =
     (if closed_flag s then py_return False s
      else case map_of (selector s) fd of
        None \<Rightarrow> py_return False s
      | Some key \<Rightarrow>
          take_slot M
            (if \<not> ev_write key then sel_unregister fd (selector s)
             else sel_modify fd (key\<lparr>ev_read := False, reader := None\<rparr>) (selector s)) (reader key) s)"

definition remove_writer_impl ::
  "('q, 'z) loop_scheme methods \<Rightarrow> fd \<Rightarrow> (('q, 'z) loop_scheme, bool) py" where
  "remove_writer_impl M fd s =
     (if closed_flag s then py_return False s
      else case map_of (selector s) fd of
        None \<Rightarrow> py_return False s
      | Some key \<Rightarrow>
          take_slot M
            (if \<not> ev_read key then sel_unregister fd (selector s)
             else sel_modify fd (key\<lparr>ev_write := False, writer := None\<rparr>) (selector s)) (writer key) s)"

definition remove_reader :: "('q, 'z) loop_scheme methods \<Rightarrow> fd \<Rightarrow> (('q, 'z) loop_scheme, bool) py" where
  "remove_reader M fd = py_bind (ensure_fd_no_transport fd) (\<lambda>_. remove_reader_impl M fd)"

definition remove_writer :: "('q, 'z) loop_scheme methods \<Rightarrow> fd \<Rightarrow> (('q, 'z) loop_scheme, bool) py" where
  "remove_writer M fd = py_bind (ensure_fd_no_transport fd) (\<lambda>_. remove_writer_impl M fd)"

section \<open>Closing descriptors with the loop\<close>

definition autoclose :: "fd \<Rightarrow> ('q, 'z) loop_scheme \<Rightarrow> ('q, 'z) loop_scheme" where
  "autoclose fd s = s\<lparr>close_files := insert fd (close_files s)\<rparr>"

definition no_autoclose :: "fd \<Rightarrow> (('q, 'z) loop_scheme, unit) py" where
  "no_autoclose fd s =
     (if fd \<in> close_files s then py_return () (s\<lparr>close_files := close_files s - {fd}\<rparr>)
      else py_raise KeyError s)"

text \<open>\<open>_cancel_fds\<close>: for each flag of the mask, cancel the scope of a handle that is not
  cancelled itself; then close the descriptor if it is marked.\<close>

definition cancel_fd_flag :: "bool \<Rightarrow> hid option \<Rightarrow> (('q, 'z) loop_scheme, unit) py" where
  "cancel_fd_flag flag handle s =
     (if \<not> flag then py_return () s
      else case handle of
        None \<Rightarrow> py_raise AssertionError s
      | Some h \<Rightarrow>
          if hcancelled (handles s h) then py_return () s
          else py_return () (upd_handle h (\<lambda>x. x\<lparr>hscope_cancelled := True\<rparr>) s))"

fun cancel_fd_list :: "(fd \<times> sel_key) list \<Rightarrow> (('q, 'z) loop_scheme, unit) py" where
  "cancel_fd_list [] = py_return ()"
| "cancel_fd_list ((fd, key) # rest) =
     py_bind (cancel_fd_flag (ev_read key) (reader key)) (\<lambda>_.
     py_bind (cancel_fd_flag (ev_write key) (writer key)) (\<lambda>_ s.
       cancel_fd_list rest
         (if fd \<in> close_files s then s\<lparr>closed_fds := closed_fds s @ [fd]\<rparr> else s)))"

definition cancel_fds :: "(('q, 'z) loop_scheme, unit) py" where
  "cancel_fds s = cancel_fd_list (selector s) s"

text \<open>
  Every key has a handle for exactly the bits of its mask. \<open>cancel_fds\<close> then cancels the
  scope of every handle in the table that is not cancelled itself, and closes the descriptors
  of the table that are marked, in the order of the table.
\<close>

definition key_ok :: "sel_key \<Rightarrow> bool" where
  "key_ok k \<longleftrightarrow> ev_read k = (reader k \<noteq> None) \<and> ev_write k = (writer k \<noteq> None) \<and> (ev_read k \<or> ev_write k)"

definition selector_ok :: "(fd \<times> sel_key) list \<Rightarrow> bool" where
  "selector_ok sel \<longleftrightarrow> distinct (map fst sel) \<and> (\<forall>(fd, k) \<in> set sel. key_ok k)"

definition io_handles :: "(fd \<times> sel_key) list \<Rightarrow> hid set" where
  "io_handles sel = (\<Union>(fd, k) \<in> set sel. set_option (reader k) \<union> set_option (writer k))"

definition cancel_scopes :: "hid set \<Rightarrow> (hid \<Rightarrow> handle) \<Rightarrow> hid \<Rightarrow> handle" where
  "cancel_scopes A hs h =
     (if h \<in> A \<and> \<not> hcancelled (hs h) then (hs h)\<lparr>hscope_cancelled := True\<rparr> else hs h)"

lemma cancel_scopes_empty [simp]: "cancel_scopes {} hs = hs"
  by (simp add: cancel_scopes_def fun_eq_iff)

lemma cancel_scopes_compose: "cancel_scopes A (cancel_scopes B hs) = cancel_scopes (A \<union> B) hs"
  by (auto simp: cancel_scopes_def fun_eq_iff)

lemma cancel_fd_flag_effect:
  "flag = (handle \<noteq> None) \<Longrightarrow>
   cancel_fd_flag flag handle s = (s\<lparr>handles := cancel_scopes (set_option handle) (handles s)\<rparr>, Inr ())"
  by (cases handle) (auto simp: cancel_fd_flag_def upd_handle_def cancel_scopes_def fun_eq_iff
      intro!: arg_cong [where f = "\<lambda>hs. s\<lparr>handles := hs\<rparr>"])

lemma cancel_fd_list_effect:
  "\<forall>(fd, k) \<in> set sel. key_ok k \<Longrightarrow>
   cancel_fd_list sel s =
     (s\<lparr>handles := cancel_scopes (io_handles sel) (handles s),
        closed_fds := closed_fds s @ filter (\<lambda>fd. fd \<in> close_files s) (map fst sel)\<rparr>, Inr ())"
proof (induction sel arbitrary: s)
  case Nil
  then show ?case by (simp add: io_handles_def)
next
  case (Cons p sel)
  obtain fd k where p: "p = (fd, k)" by fastforce
  have io: "io_handles ((fd, k) # sel) = io_handles sel \<union> (set_option (writer k) \<union> set_option (reader k))"
    by (auto simp: io_handles_def)
  have "ev_read k = (reader k \<noteq> None)" "ev_write k = (writer k \<noteq> None)"
    using Cons.prems by (auto simp: p key_ok_def)
  then show ?case
    using Cons by (simp add: p py_bind_def cancel_fd_flag_effect cancel_scopes_compose io)
qed

section \<open>Lookup after an operation\<close>

text \<open>The table stays in order under every operation on one descriptor.\<close>

lemma selector_ok_iff:
  "selector_ok sel \<longleftrightarrow> distinct (map fst sel) \<and> (\<forall>fd k. map_of sel fd = Some k \<longrightarrow> key_ok k)"
  unfolding selector_ok_def by (auto dest: map_of_SomeD)

lemma selector_ok_register:
  "selector_ok sel \<Longrightarrow> map_of sel fd = None \<Longrightarrow> key_ok k \<Longrightarrow> selector_ok (sel_register fd k sel)"
  by (auto simp: selector_ok_def sel_register_def map_of_eq_None_iff)

lemma selector_ok_unregister: "selector_ok sel \<Longrightarrow> selector_ok (sel_unregister fd sel)"
  by (auto simp: selector_ok_iff sel_unregister_def distinct_delete split: if_splits)

lemma selector_ok_modify:
  assumes "selector_ok sel" and "map_of sel fd = Some old" and "key_ok k"
  shows "selector_ok (sel_modify fd k sel)"
proof -
  have "selector_ok (AList.update fd k sel)"
    using assms(1,3) by (auto simp: selector_ok_iff distinct_update update_conv' split: if_splits)
  moreover have "selector_ok (sel_register fd k (sel_unregister fd sel))"
    using assms by (intro selector_ok_register selector_ok_unregister) (auto simp: sel_unregister_def)
  ultimately show ?thesis by (simp add: sel_modify_def assms(2))
qed

end
