(* ===== verification/Loop_Calls.thy ===== *)
theory Loop_Calls
  imports Io_Handlers
begin

text \<open>
  What a callback does to the loop when it runs: the operations of the loop's interface as
  data (\<open>exec_api\<close>), the callbacks, and \<open>asyncio.Handle._run\<close> with the exception handler.
  Then the Trio task that waits for one descriptor and runs its handle (\<open>_io_task\<close>).
\<close>

section \<open>Running a callback\<close>

text \<open>One loop operation of a trace, and a trace: it ends at the first exception.\<close>

definition discard :: "('s, 'a) py \<Rightarrow> ('s, unit) py" where
  "discard f = py_bind f (\<lambda>_. py_return ())"

fun exec_api ::
  "('q, 'z) loop_scheme methods \<Rightarrow> api \<Rightarrow> (('q, 'z) loop_scheme, unit) py" where
  "exec_api M (CallSoon cb) = discard (call_soon M cb)"
| "exec_api M (CallLater d cb) = discard (call_later M d cb)"
| "exec_api M (CallAt t cb) = discard (call_at M t cb)"
| "exec_api M (CallSoonThreadsafe cb) = call_soon_threadsafe cb"
| "exec_api M (TrioAsFuture proc) = discard (trio_as_future M proc)"
| "exec_api M (RunTrioTask proc) = discard (run_trio_task M proc)"
| "exec_api M (CancelHandle h) = cancel_handle M h"
| "exec_api M (CancelFuture f msg) = discard (fut_cancel M f msg)"
| "exec_api M (AddDoneCallback f cb) = add_done_callback M f cb"
| "exec_api M CreateFuture = (\<lambda>s. py_return () (fst (alloc_future s)))"
| "exec_api M (SetResult f r) = fut_set_result M f r"
| "exec_api M (SetException f e) = fut_set_exception M f e"
| "exec_api M (StopLoop w) = m_stop M w"
| "exec_api M (AddReader fd cb) = discard (add_reader M fd cb)"
| "exec_api M (AddWriter fd cb) = discard (add_writer M fd cb)"
| "exec_api M (RemoveReader fd) = discard (remove_reader M fd)"
| "exec_api M (RemoveWriter fd) = discard (remove_writer M fd)"
| "exec_api M (Autoclose fd) = (\<lambda>s. py_return () (autoclose fd s))"
| "exec_api M (NoAutoclose fd) = no_autoclose fd"

fun exec_apis ::
  "('q, 'z) loop_scheme methods \<Rightarrow> api list \<Rightarrow> (('q, 'z) loop_scheme, unit) py" where
  "exec_apis M [] = py_return ()"
| "exec_apis M (a # as) = py_bind (exec_api M a) (\<lambda>_. exec_apis M as)"

definition run_trace ::
  "('q, 'z) loop_scheme methods \<Rightarrow> trace \<Rightarrow> (('q, 'z) loop_scheme, unit) py" where
  "run_trace M t =
     py_bind (exec_apis M (fst t)) (\<lambda>_. case snd t of None \<Rightarrow> py_return () | Some e \<Rightarrow> py_raise e)"

fun run_callback ::
  "('q, 'z) loop_scheme methods \<Rightarrow> callback \<Rightarrow> (('q, 'z) loop_scheme, unit) py" where
  "run_callback M (SetEvent e) = (\<lambda>s. py_return () (set_event e s))"
| "run_callback M (StopMe e) = (\<lambda>s. py_raise TrioAsyncioExit (set_event e s))"
| "run_callback M DoStop = m_do_stop M"
| "run_callback M (IsDone f n) = m_is_done M f n"
| "run_callback M (TrioProc _) = py_return ()"
| "run_callback M (UserCallback as r) = run_trace M (as, r)"
| "run_callback M (UserFunction n) = (\<lambda>s. run_trace M (program s n (length (ran s))) s)"

text \<open>asyncio's \<open>call_exception_handler\<close> with no handler installed: what the default
  handler raises is logged, unless it is an exit.\<close>

definition call_exception_handler ::
  "('q, 'z) loop_scheme methods \<Rightarrow> exn option \<times> string option \<Rightarrow> (('q, 'z) loop_scheme, unit) py" where
  "call_exception_handler M ctx s =
     (case m_default_exception_handler M ctx s of
        (s', Inr _) \<Rightarrow> py_return () s'
      | (s', Inl e) \<Rightarrow> if is_exit e then py_raise e s' else py_return () s')"

text \<open>\<open>asyncio.Handle._run\<close>: exits propagate, all else goes to the exception handler.
  A cancelled handle has lost its callback and calls \<open>None\<close>.\<close>

definition handle_run ::
  "('q, 'z) loop_scheme methods \<Rightarrow> hid \<Rightarrow> (('q, 'z) loop_scheme, unit) py" where
  "handle_run M h s =
     (case (case hcallback (handles s h) of None \<Rightarrow> py_raise TypeError s
            | Some cb \<Rightarrow> run_callback M cb s) of
        (s', Inr _) \<Rightarrow> py_return () s'
      | (s', Inl e) \<Rightarrow>
          if is_exit e then py_raise e s'
          else call_exception_handler M (Some e, Some ''Exception in callback'') s')"

section \<open>The task of one handler\<close>

text \<open>How a suspended task is resumed: the descriptor is ready, \<open>wait_ready\<close> raised, or
  the event of \<open>synchronize\<close> is set. A cancellation of the scope raises \<open>Cancelled\<close>,
  which the scope absorbs.\<close>

datatype io_wake = IoReady | IoRaise exn | IoSynced | IoScopeCancelled

text \<open>\<open>except Exception as exc: handle._raise(exc)\<close>\<close>

definition io_except ::
  "('q, 'z) loop_scheme methods \<Rightarrow> exn \<Rightarrow> ('q, 'z) loop_scheme \<Rightarrow> ('q, 'z) loop_scheme \<times> io_pc" where
  "io_except M e s =
     (if is_Exception e then
        (case call_exception_handler M (Some e, Some ''Exception in callback'') s of
           (s', Inr _) \<Rightarrow> (s', IoDone) | (s', Inl e') \<Rightarrow> (s', IoError e'))
      else (s, IoError e))"

definition io_run ::
  "('q, 'z) loop_scheme methods \<Rightarrow> hid \<Rightarrow> ('q, 'z) loop_scheme \<Rightarrow> ('q, 'z) loop_scheme \<times> io_pc" where
  "io_run M handle s =
     (case py_bind (handle_run M handle) (\<lambda>_. synchronize_begin M) (s\<lparr>ran := ran s @ [handle]\<rparr>) of
        (s', Inl e) \<Rightarrow> io_except M e s'
      | (s', Inr w) \<Rightarrow> (s', IoSync w))"

definition io_step ::
  "('q, 'z) loop_scheme methods \<Rightarrow> hid \<Rightarrow> io_wake \<Rightarrow> ('q, 'z) loop_scheme \<Rightarrow> io_pc \<Rightarrow>
   ('q, 'z) loop_scheme \<times> io_pc" where
  "io_step M handle wake s pc =
     (case pc of
        IoTop \<Rightarrow> if hcancelled (handles s handle) then (s, IoDone) else (s, IoWaiting)
      | IoWaiting \<Rightarrow>
          (case wake of
             IoReady \<Rightarrow> if hcancelled (handles s handle) then (s, IoDone) else io_run M handle s
           | IoRaise e \<Rightarrow>
               if e = OSError \<and> hcancelled (handles s handle) then (s, IoDone) else io_except M e s
           | IoScopeCancelled \<Rightarrow> (s, IoDone)
           | IoSynced \<Rightarrow> (s, pc))
      | IoSync w \<Rightarrow>
          (case wake of
             IoSynced \<Rightarrow> (s, if events s w then IoTop else pc)
           | IoScopeCancelled \<Rightarrow> (s, IoDone)
           | _ \<Rightarrow> (s, pc))
      | _ \<Rightarrow> (s, pc))"

text \<open>A task of the loop goes on; what leaves it is an exception of the nursery.\<close>

fun io_over :: "io_pc \<Rightarrow> bool" where
  "io_over IoDone = True"
| "io_over (IoError _) = True"
| "io_over _ = False"

definition io_advance ::
  "('q, 'z) loop_scheme methods \<Rightarrow> hid \<Rightarrow> io_wake \<Rightarrow> ('q, 'z) loop_scheme \<Rightarrow> ('q, 'z) loop_scheme" where
  "io_advance M h wake s =
     (case io_step M h wake s (io_state s h) of
        (s', pc) \<Rightarrow> s'\<lparr>io_state := (io_state s')(h := pc),
          task_errors := (case pc of IoError e \<Rightarrow> task_errors s' @ [e] | _ \<Rightarrow> task_errors s')\<rparr>)"

end
