(* ===== verification/Async_Loop.thy ===== *)
theory Async_Loop
  imports Loop_Calls
begin

text \<open>
  \<open>TrioEventLoop\<close> (\<open>_async.py\<close>): the methods it gives to the base class.
\<close>

section \<open>The methods\<close>

definition queue_handle_async ::
  "'q channel_ops \<Rightarrow> hid \<Rightarrow> (('q, 'z) loop_scheme, unit) py" where
  "queue_handle_async C h =
     py_bind check_closed (\<lambda>_ s.
       case send_nowait C (queue s) h of
         None \<Rightarrow> py_raise WouldBlock s
       | Some q \<Rightarrow> py_return () (s\<lparr>queue := q\<rparr>))"

text \<open>A context is the pair of \<open>exception\<close> and \<open>message\<close>; starting
  \<open>propagate_asyncio_error\<close> in the nursery adds a task that raises; in a nursery that has
  been closed, it cannot be started.\<close>

definition default_exception_handler ::
  "exn option \<times> string option \<Rightarrow> (('q, 'z) loop_scheme, unit) py" where
  "default_exception_handler ctx s =
     (if \<not> nursery s then py_return () s
      else
        (let exception =
           (case fst ctx of
              Some e \<Rightarrow> e
            | None \<Rightarrow>
                RuntimeError (case snd ctx of
                    None \<Rightarrow> ''Unhandled error in event loop''
                  | Some m \<Rightarrow> if m = '''' then ''Unhandled error in event loop'' else m))
         in if nursery_closed s then py_raise nursery_is_closed s
            else py_return () (s\<lparr>task_errors := task_errors s @ [exception]\<rparr>)))"

text \<open>\<open>stop(waiter)\<close> returns the event; the part after the choice of the waiter first.\<close>

definition stop_with ::
  "'q channel_ops \<Rightarrow> eid \<Rightarrow> (('q, 'z) loop_scheme, eid) py" where
  "stop_with C waiter s =
     (if stopped s then py_return waiter (set_event waiter s)
      else py_bind (queue_new (queue_handle_async C) PlainHandle (StopMe waiter))
             (\<lambda>_. py_return waiter) s)"

definition stop_async ::
  "'q channel_ops \<Rightarrow> eid option \<Rightarrow> (('q, 'z) loop_scheme, eid) py" where
  "stop_async C waiter s =
     (case waiter of
        None \<Rightarrow>
          (case stop_wait s of
             Some w \<Rightarrow> py_return w s
           | None \<Rightarrow>
               (case alloc_event s of (s', w) \<Rightarrow> stop_with C w (s'\<lparr>stop_wait := Some w\<rparr>)))
      | Some w \<Rightarrow>
          stop_with C w (if events s w then s\<lparr>events := (events s)(w := False)\<rparr> else s))"

definition async_methods :: "'q channel_ops \<Rightarrow> ('q, 'z) loop_scheme methods" where
  "async_methods C =
     \<lparr>m_queue_handle = queue_handle_async C,
      m_stop = (\<lambda>w. discard (stop_async C w)),
      m_do_stop = py_return (),
      m_is_done = (\<lambda>_ _. py_return ()),
      m_io_cancel = trio_io_cancel,
      m_add_reader = add_reader_impl trio_io_cancel,
      m_add_writer = add_writer_impl trio_io_cancel,
      m_default_exception_handler = default_exception_handler\<rparr>"

lemma async_methods_simps [simp]:
  "m_queue_handle (async_methods C) = queue_handle_async C"
  "m_stop (async_methods C) = (\<lambda>w. discard (stop_async C w))"
  "m_do_stop (async_methods C) = py_return ()"
  "m_is_done (async_methods C) = (\<lambda>_ _. py_return ())"
  "m_io_cancel (async_methods C) = trio_io_cancel"
  "m_add_reader (async_methods C) = add_reader_impl trio_io_cancel"
  "m_add_writer (async_methods C) = add_writer_impl trio_io_cancel"
  "m_default_exception_handler (async_methods C) = default_exception_handler"
  by (simp_all add: async_methods_def)

section \<open>Closing\<close>

definition is_running :: "('q, 'z) loop_scheme \<Rightarrow> bool" where
  "is_running s \<longleftrightarrow> \<not> stopped s"

text \<open>\<open>_close\<close> of the class, the \<open>close\<close> of asyncio's loop, and \<open>close\<close> of the
  base class.\<close>

definition close_hook :: "(('q, 'z) loop_scheme, unit) py" where
  "close_hook s =
     (if \<not> stopped s then py_raise (RuntimeError ''You need to stop the loop before closing it'') s
      else py_return () s)"

definition asyncio_close :: "(('q, 'z) loop_scheme, unit) py" where
  "asyncio_close s =
     (if is_running s then py_raise (RuntimeError ''Cannot close a running event loop'') s
      else py_return () (s\<lparr>closed_flag := True\<rparr>))"

definition close_loop :: "(('q, 'z) loop_scheme, unit) py \<Rightarrow> (('q, 'z) loop_scheme, unit) py" where
  "close_loop hook s =
     (if closed_flag s then py_return () s
      else py_bind hook (\<lambda>_. asyncio_close) s)"

end
