(* ===== verification/Async_Handle.thy ===== *)
theory Async_Handle
  imports Loop_Calls
begin

text \<open>
  \<open>AsyncHandle._run\<close> (\<open>_handles.py\<close>), the Trio task that runs a Trio-flavored function
  for asyncio. It is cut where it is suspended: \<open>async_run_begin\<close> is the code up to the
  first suspension of the function, \<open>async_run_end\<close> the code after the function is over.
\<close>

text \<open>How \<open>with self._scope: res = await self._callback(*self._args)\<close> ended: with a
  result, by an exception the scope caught (\<open>cancelled_caught\<close>), by one that left it.\<close>

datatype body = Returned nat | ScopeCaught | Raised exn

definition handle_future :: "hid \<Rightarrow> ('q, 'z) loop_scheme \<Rightarrow> fid option" where
  "handle_future h s = (case kind (handles s h) of AsyncHandle fut \<Rightarrow> fut | _ \<Rightarrow> None)"

definition finish :: "hid \<Rightarrow> ('q, 'z) loop_scheme \<Rightarrow> ('q, 'z) loop_scheme" where
  "finish h = upd_handle h (\<lambda>x. x\<lparr>hfinished := True\<rparr>)"

text \<open>The value tells whether the function was started.\<close>

definition async_run_begin ::
  "('q, 'z) loop_scheme methods \<Rightarrow> hid \<Rightarrow> (('q, 'z) loop_scheme, bool) py" where
  "async_run_begin M h s =
     (let s1 = upd_handle h (\<lambda>x. x\<lparr>hstarted := True\<rparr>) s
      in if hcancelled (handles s1 h) then
           (let s2 = finish h s1
            in case handle_future h s2 of
                 None \<Rightarrow> py_return False s2
               | Some f \<Rightarrow>
                   if fut_done f s2 then py_return False s2
                   else py_bind (fut_cancel M f None) (\<lambda>_. py_return False) s2)
         else py_return True s1)"

text \<open>The part of the \<open>try\<close> after the function: propagating the result.\<close>

definition async_propagate ::
  "('q, 'z) loop_scheme methods \<Rightarrow> hid \<Rightarrow> body \<Rightarrow> (('q, 'z) loop_scheme, unit) py" where
  "async_propagate M h b s =
     (case b of
        Raised e \<Rightarrow> py_raise e s
      | ScopeCaught \<Rightarrow>
          (case handle_future h s of
             None \<Rightarrow> py_return () s
           | Some f \<Rightarrow> discard (fut_cancel M f None) s)
      | Returned res \<Rightarrow>
          (case handle_future h s of
             None \<Rightarrow> py_return () s
           | Some f \<Rightarrow> if fut_cancelled f s then py_return () s else fut_set_result M f res s))"

definition opt_raise :: "exn option \<Rightarrow> ('s, unit) py" where
  "opt_raise e = (case e of None \<Rightarrow> py_return () | Some e \<Rightarrow> py_raise e)"

text \<open>\<open>ScopedHandle._raise\<close>\<close>

definition handle_raise ::
  "('q, 'z) loop_scheme methods \<Rightarrow> exn \<Rightarrow> (('q, 'z) loop_scheme, unit) py" where
  "handle_raise M exc = call_exception_handler M (Some exc, Some ''Exception in callback'')"

text \<open>The \<open>except BaseException as exc\<close> branch.\<close>

definition async_except ::
  "('q, 'z) loop_scheme methods \<Rightarrow> hid \<Rightarrow> exn \<Rightarrow> (('q, 'z) loop_scheme, unit) py" where
  "async_except M h exc s =
     (case handle_future h s of
        None \<Rightarrow>
          (case collapse_aware_exception_split exc is_Exception of
             (rest, base) \<Rightarrow>
               py_bind (case rest of None \<Rightarrow> py_return () | Some e \<Rightarrow> handle_raise M e)
                 (\<lambda>_. opt_raise base) s)
      | Some f \<Rightarrow>
          (case collapse_aware_exception_split exc is_Cancelled of
             (cancelled, rest) \<Rightarrow>
               py_bind
                 (if \<not> fut_cancelled f s then
                    (case rest of
                       Some e \<Rightarrow> fut_set_exception M f e
                     | None \<Rightarrow> discard (fut_cancel M f None))
                  else py_return ())
                 (\<lambda>_. opt_raise cancelled) s))"

definition async_run_end ::
  "('q, 'z) loop_scheme methods \<Rightarrow> hid \<Rightarrow> body \<Rightarrow> (('q, 'z) loop_scheme, unit) py" where
  "async_run_end M h b s =
     (case async_propagate M h b (finish h s) of
        (s', Inr _) \<Rightarrow> py_return () s'
      | (s', Inl exc) \<Rightarrow> async_except M h exc s')"

end
