(* ===== verification/Main_Loop.thy ===== *)
theory Main_Loop
  imports Async_Loop Async_Handle
begin

text \<open>
  The main loop of \<open>BaseTrioEventLoop\<close>: \<open>_main_loop_init\<close>, \<open>_main_loop\<close>,
  \<open>_main_loop_one\<close> and \<open>_main_loop_exit\<close>, as functions between the points where the
  loop's task is suspended, and as a step relation in which everything else may happen
  while it is suspended.
\<close>

section \<open>One iteration\<close>

text \<open>The head of \<open>_main_loop_one\<close>: a due timer is taken from the heap; otherwise the
  time to wait (\<open>None\<close> is \<open>math.inf\<close>).\<close>

definition poll_timers ::
  "(('q, 'z) loop_scheme, hid option \<times> instant option) py" where
  "poll_timers s =
     (case timers s of
        [] \<Rightarrow> py_return (None, None) s
      | (when, _) # _ \<Rightarrow>
          py_bind loop_time (\<lambda>t s.
            let timeout = when - t in
            if timeout \<le> 0 then
              (case heappop fst (timers s) of
                 None \<Rightarrow> py_raise IndexError s
               | Some ((_, obj), ts) \<Rightarrow> py_return (Some obj, Some timeout) (s\<lparr>timers := ts\<rparr>))
            else py_return (None, Some timeout) s) s)"

text \<open>
  Running one object. For an \<open>AsyncHandle\<close>, the loop, unless Trio refuses, starts \<open>obj._run\<close> in the nursery
  and waits for \<open>_started\<close>, which that task sets before its function runs: when the loop
  goes on, \<open>async_run_begin\<close> has happened. An exception of that task is the nursery's.
\<close>

definition dispatch ::
  "('q, 'z) loop_scheme methods \<Rightarrow> hid \<Rightarrow> (('q, 'z) loop_scheme, unit) py" where
  "dispatch M obj s =
     (case kind (handles s obj) of
        AsyncHandle _ \<Rightarrow>
          if \<not> nursery s then py_raise AttributeError s
          else if nursery_closed s then py_raise nursery_is_closed s
          else (case async_run_begin M obj (s\<lparr>started_tasks := started_tasks s @ [obj]\<rparr>) of
                  (s', Inr _) \<Rightarrow> py_return () s'
                | (s', Inl e) \<Rightarrow> py_return () (s'\<lparr>task_errors := task_errors s' @ [e]\<rparr>))
      | _ \<Rightarrow>
          if \<not> hcancelled (handles s obj) then
            (case handle_run M obj (s\<lparr>sniffio := Some ''asyncio'', ran := ran s @ [obj]\<rparr>) of
               (s', r) \<Rightarrow> (s'\<lparr>sniffio := sniffio s\<rparr>, r))
          else py_return () s)"

text \<open>An object received from the channel: a timer is put on the heap, anything else run.\<close>

definition accept ::
  "('q, 'z) loop_scheme methods \<Rightarrow> hid \<Rightarrow> (('q, 'z) loop_scheme, unit) py" where
  "accept M obj s =
     (case kind (handles s obj) of
        TimerHandle when \<Rightarrow> py_return () (s\<lparr>timers := heappush fst (timers s) (when, obj)\<rparr>)
      | _ \<Rightarrow> dispatch M obj s)"

definition receive ::
  "'q channel_ops \<Rightarrow> ('q, 'z) loop_scheme \<Rightarrow> (hid \<times> ('q, 'z) loop_scheme) option" where
  "receive C s =
     (case receive_nowait C (queue s) of
        None \<Rightarrow> None
      | Some (h, q) \<Rightarrow> Some (h, s\<lparr>queue := q, received := received s @ [h]\<rparr>))"

text \<open>\<open>_main_loop_one(no_wait=True)\<close>\<close>

definition main_loop_one_nowait ::
  "'q channel_ops \<Rightarrow> ('q, 'z) loop_scheme methods \<Rightarrow> (('q, 'z) loop_scheme, unit) py" where
  "main_loop_one_nowait C M =
     py_bind poll_timers (\<lambda>r. case r of
         (Some obj, _) \<Rightarrow> dispatch M obj
       | (None, _) \<Rightarrow> (\<lambda>s. case receive C s of
             None \<Rightarrow> py_raise WouldBlock s
           | Some (obj, s') \<Rightarrow> accept M obj s'))"

section \<open>Starting\<close>

definition main_loop_init :: "(('q, 'z) loop_scheme, unit) py" where
  "main_loop_init s =
     (if nursery s \<or> \<not> stopped s then py_raise (RuntimeError ''You can't enter a loop twice'') s
      else
        (let s1 = s\<lparr>nursery := True, task := True, token := True\<rparr>
         in case install (asyncgen s1) of
              (a, Inr d) \<Rightarrow> py_return () (s1\<lparr>asyncgen := a, dispatcher := Some d\<rparr>)
            | (a, Inl e) \<Rightarrow> py_raise e (s1\<lparr>asyncgen := a\<rparr>)))"

section \<open>The loop as a step relation\<close>

text \<open>
  Where the task of \<open>_main_loop\<close> is: at the test of the \<open>while\<close>, waiting for a message
  until a deadline, or gone, with the exception that left it, if any.
\<close>

datatype pc = Top | Waiting "instant option" | Exited "exn option"

text \<open>\<open>except TrioAsyncioExit: pass\<close> and \<open>finally: self._stopped.set()\<close>\<close>

definition leave_loop :: "exn option \<Rightarrow> ('q, 'z) loop_scheme \<Rightarrow> ('q, 'z) loop_scheme \<times> pc" where
  "leave_loop e s =
     (s\<lparr>stopped := True\<rparr>, Exited (if e = Some TrioAsyncioExit then None else e))"

definition after_one :: "('q, 'z) loop_scheme \<times> (exn + unit) \<Rightarrow> ('q, 'z) loop_scheme \<times> pc" where
  "after_one r =
     (case r of (s, Inr _) \<Rightarrow> (s, Top) | (s, Inl e) \<Rightarrow> leave_loop (Some e) s)"

definition main_loop_start :: "('q, 'z) loop_scheme \<Rightarrow> ('q, 'z) loop_scheme \<times> pc" where
  "main_loop_start s = (s\<lparr>stopped := False\<rparr>, Top)"

text \<open>From the test of the \<open>while\<close> to the next test or the wait.\<close>

definition loop_top ::
  "('q, 'z) loop_scheme methods \<Rightarrow> ('q, 'z) loop_scheme \<Rightarrow> ('q, 'z) loop_scheme \<times> pc" where
  "loop_top M s =
     (if stopped s then leave_loop None s
      else case poll_timers s of
        (s', Inl e) \<Rightarrow> leave_loop (Some e) s'
      | (s', Inr (Some obj, _)) \<Rightarrow> after_one (dispatch M obj s')
      | (s', Inr (None, timeout)) \<Rightarrow> (s', Waiting (map_option (\<lambda>t. clock s' + t) timeout)))"

text \<open>A message arrives while the loop waits.\<close>

definition loop_receive ::
  "'q channel_ops \<Rightarrow> ('q, 'z) loop_scheme methods \<Rightarrow> ('q, 'z) loop_scheme \<Rightarrow>
   (('q, 'z) loop_scheme \<times> pc) option" where
  "loop_receive C M s =
     (case receive C s of
        None \<Rightarrow> None
      | Some (obj, s') \<Rightarrow> Some (after_one (accept M obj s')))"

text \<open>
  The steps. The environment steps are possible whenever the loop's task is suspended, at
  \<open>Top\<close> too, where it may be waiting for \<open>_started\<close>: another task or thread calls the
  loop's interface, the clock advances, Trio runs a function given to \<open>run_sync_soon\<close>, the
  task of an \<open>AsyncHandle\<close> ends, the task of a reader or writer goes on, asyncio's
  transports change.
\<close>

inductive loop_step ::
  "'q channel_ops \<Rightarrow> ('q, 'z) loop_scheme methods \<Rightarrow>
   ('q, 'z) loop_scheme \<times> pc \<Rightarrow> ('q, 'z) loop_scheme \<times> pc \<Rightarrow> bool"
  for C M where
  top: "loop_step C M (s, Top) (loop_top M s)"
| message: "loop_receive C M s = Some c \<Longrightarrow> loop_step C M (s, Waiting d) c"
| timeout: "t \<le> clock s \<Longrightarrow> loop_step C M (s, Waiting (Some t)) (s, Top)"
| call: "exec_api M a s = (s', r) \<Longrightarrow> loop_step C M (s, p) (s', p)"
| tick: "clock s \<le> t \<Longrightarrow> loop_step C M (s, p) (s\<lparr>clock := t\<rparr>, p)"
| soon: "run_sync_soon_one C s = (s', Inr u) \<Longrightarrow> loop_step C M (s, p) (s', p)"
| async_end: "h \<in> set (started_tasks s) \<Longrightarrow> \<not> hfinished (handles s h) \<Longrightarrow>
    async_run_end M h b s = (s', r) \<Longrightarrow>
    loop_step C M (s, p)
      ((case r of Inr _ \<Rightarrow> s' | Inl e \<Rightarrow> s'\<lparr>task_errors := task_errors s' @ [e]\<rparr>), p)"
| io: "(fd, h, reading) \<in> set (io_tasks s) \<Longrightarrow> \<not> io_over (io_state s h) \<Longrightarrow>
    loop_step C M (s, p) (io_advance M h wake s, p)"
| transports: "loop_step C M (s, p) (s\<lparr>transports := T\<rparr>, p)"

abbreviation loop_steps ::
  "'q channel_ops \<Rightarrow> ('q, 'z) loop_scheme methods \<Rightarrow>
   ('q, 'z) loop_scheme \<times> pc \<Rightarrow> ('q, 'z) loop_scheme \<times> pc \<Rightarrow> bool" where
  "loop_steps C M \<equiv> (loop_step C M)\<^sup>*\<^sup>*"

text \<open>What may happen around the loop while its task is suspended.\<close>

inductive other_step ::
  "'q channel_ops \<Rightarrow> ('q, 'z) loop_scheme methods \<Rightarrow>
   ('q, 'z) loop_scheme \<times> pc \<Rightarrow> ('q, 'z) loop_scheme \<times> pc \<Rightarrow> bool"
  for C M where
  call: "exec_api M a s = (s', r) \<Longrightarrow> other_step C M (s, p) (s', p)"
| tick: "clock s \<le> t \<Longrightarrow> other_step C M (s, p) (s\<lparr>clock := t\<rparr>, p)"
| soon: "run_sync_soon_one C s = (s', Inr u) \<Longrightarrow> other_step C M (s, p) (s', p)"
| async_end: "h \<in> set (started_tasks s) \<Longrightarrow> \<not> hfinished (handles s h) \<Longrightarrow>
    async_run_end M h b s = (s', r) \<Longrightarrow>
    other_step C M (s, p)
      ((case r of Inr _ \<Rightarrow> s' | Inl e \<Rightarrow> s'\<lparr>task_errors := task_errors s' @ [e]\<rparr>), p)"
| io: "(fd, h, reading) \<in> set (io_tasks s) \<Longrightarrow> \<not> io_over (io_state s h) \<Longrightarrow>
    other_step C M (s, p) (io_advance M h wake s, p)"
| transports: "other_step C M (s, p) (s\<lparr>transports := T\<rparr>, p)"

definition meanwhile ::
  "'q channel_ops \<Rightarrow> ('q, 'z) loop_scheme methods \<Rightarrow> ('q, 'z) loop_scheme \<Rightarrow> ('q, 'z) loop_scheme \<Rightarrow> bool" where
  "meanwhile C M s s' \<longleftrightarrow> (other_step C M)\<^sup>*\<^sup>* (s, Top) (s', Top)"

section \<open>Leaving\<close>

text \<open>The \<open>while True\<close> of \<open>_main_loop_exit\<close> that drains the queue: \<open>None\<close> if it does
  not end. \<open>others i\<close> is what happens around the loop after the \<open>i\<close>-th iteration: time passes, and
  if the iteration waited for a Trio function to start, other tasks and threads have acted.\<close>

partial_function (option) drain ::
  "'q channel_ops \<Rightarrow> ('q, 'z) loop_scheme methods \<Rightarrow> (nat \<Rightarrow> ('q, 'z) loop_scheme \<Rightarrow> ('q, 'z) loop_scheme) \<Rightarrow>
   nat \<Rightarrow> ('q, 'z) loop_scheme \<Rightarrow> (('q, 'z) loop_scheme \<times> (exn + unit)) option" where
  "drain C M others i s =
     (case main_loop_one_nowait C M s of
        (s', Inr _) \<Rightarrow> drain C M others (Suc i) (others i s')
      | (s', Inl e) \<Rightarrow>
          if e = WouldBlock then Some (s', Inr ())
          else if e = TrioAsyncioExit then drain C M others (Suc i) (others i s')
          else Some (s', Inl e))"

text \<open>After the drain: the async-generator hooks, the unprocessed work, the core fields.\<close>

definition exit_cleanup :: "(('q, 'z) loop_scheme, unit) py" where
  "exit_cleanup s =
     (case dispatcher s of
        None \<Rightarrow> py_raise AttributeError s
      | Some d \<Rightarrow>
          (case uninstall d (asyncgen s) of
             (a, Inl e) \<Rightarrow> py_raise e (s\<lparr>asyncgen := a\<rparr>)
           | (a, Inr _) \<Rightarrow>
               py_bind cancel_fds (\<lambda>_ s2.
                   py_return () ((cancel_timers s2)\<lparr>nursery := False, task := False, token := False\<rparr>))
                 (s\<lparr>asyncgen := a, dispatcher := None\<rparr>)))"

text \<open>
  \<open>_main_loop_exit\<close>: \<open>stop()\<close>, then \<open>wait_stopped()\<close>, during which the main loop
  and everything else run on: \<open>await_stopped\<close> is what they do to the state, and
  the wait only ends once \<open>stopped\<close> holds. \<open>others\<close> is what happens around the drain.
\<close>

definition main_loop_exit ::
  "'q channel_ops \<Rightarrow> ('q, 'z) loop_scheme methods \<Rightarrow>
   (('q, 'z) loop_scheme \<Rightarrow> ('q, 'z) loop_scheme) \<Rightarrow> (nat \<Rightarrow> ('q, 'z) loop_scheme \<Rightarrow> ('q, 'z) loop_scheme) \<Rightarrow>
   ('q, 'z) loop_scheme \<Rightarrow> (('q, 'z) loop_scheme \<times> (exn + unit)) option" where
  "main_loop_exit C M await_stopped others s =
     (if closed_flag s then Some (s, Inr ())
      else case m_stop M None s of
        (s1, Inl e) \<Rightarrow> Some (s1, Inl e)
      | (s1, Inr _) \<Rightarrow>
          (case drain C M others 0 (await_stopped s1) of
             None \<Rightarrow> None
           | Some (s2, Inl e) \<Rightarrow> Some (s2, Inl e)
           | Some (s2, Inr _) \<Rightarrow> Some (exit_cleanup s2)))"

end
