(* ===== verification/Io_Frame.thy ===== *)
theory Io_Frame
  imports Main_Loop
begin

text \<open>
  The invariant of readers and writers: the table of the selector is in order, and every
  task whose handle was not cancelled is the one the table has for its descriptor and
  direction. What the operations on the table do to it, and the frame \<open>io_frame\<close> that every
  operation of the loop's interface keeps.
\<close>

section \<open>Handles over time\<close>

text \<open>A handle only ever loses its callback, by being cancelled.\<close>

definition handle_frame :: "handle \<Rightarrow> handle \<Rightarrow> bool" where
  "handle_frame x y \<longleftrightarrow>
     kind y = kind x \<and> (hcancelled x \<longrightarrow> hcancelled y) \<and> (hstarted x \<longrightarrow> hstarted y) \<and>
     (hfinished x \<longrightarrow> hfinished y) \<and>
     (hcallback y = hcallback x \<or> hcallback y = None \<and> hcancelled y)"

lemma handle_frame_refl [simp]: "handle_frame x x"
  by (simp add: handle_frame_def)

lemma handle_frame_trans: "handle_frame x y \<Longrightarrow> handle_frame y z \<Longrightarrow> handle_frame x z"
  by (auto simp: handle_frame_def)

section \<open>Slots of the table\<close>

text \<open>The handle that the table has for a descriptor and a direction.\<close>

definition slot :: "(fd \<times> sel_key) list \<Rightarrow> fd \<Rightarrow> bool \<Rightarrow> hid option" where
  "slot sel fd reading =
     (case map_of sel fd of None \<Rightarrow> None | Some k \<Rightarrow> if reading then reader k else writer k)"

text \<open>\<open>sel'\<close> is \<open>sel\<close> with one slot set to \<open>x\<close>.\<close>

definition slot_set ::
  "(fd \<times> sel_key) list \<Rightarrow> fd \<Rightarrow> bool \<Rightarrow> hid option \<Rightarrow> (fd \<times> sel_key) list \<Rightarrow> bool" where
  "slot_set sel fd reading x sel' \<longleftrightarrow>
     slot sel' fd reading = x \<and> (selector_ok sel \<longrightarrow> selector_ok sel') \<and>
     (\<forall>fd' reading'. (fd', reading') \<noteq> (fd, reading) \<longrightarrow> slot sel' fd' reading' = slot sel fd' reading')"

lemma selector_ok_key: "selector_ok sel \<Longrightarrow> map_of sel fd = Some k \<Longrightarrow> key_ok k"
  by (simp add: selector_ok_iff)

lemma set_read_handle_slot:
  assumes "set_read_handle fd h s = (s', old)"
  shows "\<exists>sel. s' = s\<lparr>selector := sel\<rparr> \<and> slot_set (selector s) fd True (Some h) sel \<and>
    old = slot (selector s) fd True"
proof (cases "map_of (selector s) fd")
  case None
  let ?k = "\<lparr>ev_read = True, ev_write = False, reader = Some h, writer = None\<rparr>"
  have "selector_ok (selector s) \<Longrightarrow> selector_ok (sel_register fd ?k (selector s))"
    using None by (intro selector_ok_register) (simp_all add: key_ok_def)
  then have "slot_set (selector s) fd True (Some h) (sel_register fd ?k (selector s))"
    using None by (simp add: slot_set_def slot_def sel_register_lookup)
  then show ?thesis using assms None by (auto simp: set_read_handle_def sel_get_key_def slot_def)
next
  case (Some k)
  let ?k = "k\<lparr>ev_read := True, reader := Some h\<rparr>"
  have "selector_ok (selector s) \<Longrightarrow> key_ok ?k"
    using selector_ok_key [OF _ Some] by (auto simp: key_ok_def)
  then have "slot_set (selector s) fd True (Some h) (sel_modify fd ?k (selector s))"
    using selector_ok_modify [OF _ Some, of ?k] Some by (simp add: slot_set_def slot_def sel_modify_lookup)
  then show ?thesis using assms Some by (auto simp: set_read_handle_def sel_get_key_def slot_def)
qed

lemma set_write_handle_slot:
  assumes "set_write_handle fd h s = (s', old)"
  shows "\<exists>sel. s' = s\<lparr>selector := sel\<rparr> \<and> slot_set (selector s) fd False (Some h) sel \<and>
    old = slot (selector s) fd False"
proof (cases "map_of (selector s) fd")
  case None
  let ?k = "\<lparr>ev_read = False, ev_write = True, reader = None, writer = Some h\<rparr>"
  have "selector_ok (selector s) \<Longrightarrow> selector_ok (sel_register fd ?k (selector s))"
    using None by (intro selector_ok_register) (simp_all add: key_ok_def)
  then have "slot_set (selector s) fd False (Some h) (sel_register fd ?k (selector s))"
    using None by (simp add: slot_set_def slot_def sel_register_lookup)
  then show ?thesis using assms None by (auto simp: set_write_handle_def sel_get_key_def slot_def)
next
  case (Some k)
  let ?k = "k\<lparr>ev_write := True, writer := Some h\<rparr>"
  have "selector_ok (selector s) \<Longrightarrow> key_ok ?k"
    using selector_ok_key [OF _ Some] by (auto simp: key_ok_def)
  then have "slot_set (selector s) fd False (Some h) (sel_modify fd ?k (selector s))"
    using selector_ok_modify [OF _ Some, of ?k] Some by (simp add: slot_set_def slot_def sel_modify_lookup)
  then show ?thesis using assms Some by (auto simp: set_write_handle_def sel_get_key_def slot_def)
qed

text \<open>The table after a handler was removed.\<close>

lemma remove_slot_read:
  assumes "map_of sel fd = Some k" and "selector_ok sel"
  shows "slot_set sel fd True None
    (if \<not> ev_write k then sel_unregister fd sel else sel_modify fd (k\<lparr>ev_read := False, reader := None\<rparr>) sel)"
  using assms selector_ok_key [OF assms(2,1)] selector_ok_unregister [OF assms(2)]
    selector_ok_modify [OF assms(2,1), of "k\<lparr>ev_read := False, reader := None\<rparr>"]
  by (auto simp: slot_set_def slot_def sel_unregister_lookup sel_modify_lookup key_ok_def)

lemma remove_slot_write:
  assumes "map_of sel fd = Some k" and "selector_ok sel"
  shows "slot_set sel fd False None
    (if \<not> ev_read k then sel_unregister fd sel else sel_modify fd (k\<lparr>ev_write := False, writer := None\<rparr>) sel)"
  using assms selector_ok_key [OF assms(2,1)] selector_ok_unregister [OF assms(2)]
    selector_ok_modify [OF assms(2,1), of "k\<lparr>ev_write := False, writer := None\<rparr>"]
  by (auto simp: slot_set_def slot_def sel_unregister_lookup sel_modify_lookup key_ok_def)

section \<open>The invariant\<close>

definition io_inv :: "('q, 'z) loop_scheme \<Rightarrow> bool" where
  "io_inv s \<longleftrightarrow> selector_ok (selector s) \<and>
     (\<forall>fd reading h. slot (selector s) fd reading = Some h \<longrightarrow> h < next_hid s) \<and>
     (\<forall>(fd, h, reading) \<in> set (io_tasks s). h < next_hid s \<and> kind (handles s h) = ScopedHandle \<and>
        (\<not> hcancelled (handles s h) \<longrightarrow> slot (selector s) fd reading = Some h)) \<and>
     distinct (map (\<lambda>(fd, h, reading). h) (io_tasks s))"

lemma io_inv_selector: "io_inv s \<Longrightarrow> selector_ok (selector s)"
  and io_inv_slot: "io_inv s \<Longrightarrow> slot (selector s) fd reading = Some h \<Longrightarrow> h < next_hid s"
  and io_inv_task: "io_inv s \<Longrightarrow> (fd, h, reading) \<in> set (io_tasks s) \<Longrightarrow>
    h < next_hid s \<and> kind (handles s h) = ScopedHandle \<and>
    (\<not> hcancelled (handles s h) \<longrightarrow> slot (selector s) fd reading = Some h)"
  and io_inv_distinct: "io_inv s \<Longrightarrow> distinct (map (\<lambda>(fd, h, reading). h) (io_tasks s))"
  unfolding io_inv_def by blast+

text \<open>Other fields do not matter.\<close>

lemma io_inv_update [simp]:
  "io_inv (s\<lparr>queue := x_queue\<rparr>) = io_inv s"
  "io_inv (s\<lparr>timers := x_timers\<rparr>) = io_inv s"
  "io_inv (s\<lparr>closed_flag := x_closed_flag\<rparr>) = io_inv s"
  "io_inv (s\<lparr>stopped := x_stopped\<rparr>) = io_inv s"
  "io_inv (s\<lparr>stop_wait := x_stop_wait\<rparr>) = io_inv s"
  "io_inv (s\<lparr>nursery := x_nursery\<rparr>) = io_inv s"
  "io_inv (s\<lparr>nursery_closed := x_nursery_closed\<rparr>) = io_inv s"
  "io_inv (s\<lparr>task := x_task\<rparr>) = io_inv s"
  "io_inv (s\<lparr>token := x_token\<rparr>) = io_inv s"
  "io_inv (s\<lparr>futures := x_futures\<rparr>) = io_inv s"
  "io_inv (s\<lparr>events := x_events\<rparr>) = io_inv s"
  "io_inv (s\<lparr>clock := x_clock\<rparr>) = io_inv s"
  "io_inv (s\<lparr>sniffio := x_sniffio\<rparr>) = io_inv s"
  "io_inv (s\<lparr>asyncgen := x_asyncgen\<rparr>) = io_inv s"
  "io_inv (s\<lparr>dispatcher := x_dispatcher\<rparr>) = io_inv s"
  "io_inv (s\<lparr>close_files := x_close_files\<rparr>) = io_inv s"
  "io_inv (s\<lparr>closed_fds := x_closed_fds\<rparr>) = io_inv s"
  "io_inv (s\<lparr>io_state := x_io_state\<rparr>) = io_inv s"
  "io_inv (s\<lparr>transports := x_transports\<rparr>) = io_inv s"
  "io_inv (s\<lparr>started_tasks := x_started_tasks\<rparr>) = io_inv s"
  "io_inv (s\<lparr>task_errors := x_task_errors\<rparr>) = io_inv s"
  "io_inv (s\<lparr>sync_soon := x_sync_soon\<rparr>) = io_inv s"
  "io_inv (s\<lparr>received := x_received\<rparr>) = io_inv s"
  "io_inv (s\<lparr>ran := x_ran\<rparr>) = io_inv s"
  by (simp_all add: io_inv_def)

definition io_frame :: "('q, 'z) loop_scheme \<Rightarrow> ('q, 'z) loop_scheme \<Rightarrow> bool" where
  "io_frame s s' \<longleftrightarrow> (io_inv s \<longrightarrow> io_inv s') \<and>
     (\<exists>new. io_tasks s' = io_tasks s @ new \<and>
        (\<forall>(fd, h, reading) \<in> set new. next_hid s \<le> h \<and> h < next_hid s')) \<and>
     (\<forall>h < next_hid s. io_state s' h = io_state s h)"

text \<open>The fields of readers and writers.\<close>

definition io_core :: "('q, 'z) loop_scheme \<Rightarrow> _" where
  "io_core s = (selector s, io_tasks s, io_state s)"

lemma io_inv_cong:
  assumes "selector s' = selector s" "io_tasks s' = io_tasks s" "next_hid s \<le> next_hid s'"
    and "\<And>h. h < next_hid s \<Longrightarrow> handle_frame (handles s h) (handles s' h)" and "io_inv s"
  shows "io_inv s'"
proof -
  have "h < next_hid s' \<and> kind (handles s' h) = ScopedHandle \<and>
      (\<not> hcancelled (handles s' h) \<longrightarrow> slot (selector s') fd reading = Some h)"
    if "(fd, h, reading) \<in> set (io_tasks s)" for fd h reading
    using io_inv_task [OF assms(5) that] assms(1,3) assms(4) [of h] by (auto simp: handle_frame_def)
  then show ?thesis
    using io_inv_selector [OF assms(5)] io_inv_slot [OF assms(5)] io_inv_distinct [OF assms(5)] assms(1-3)
    by (force simp: io_inv_def)
qed

lemma io_frame_cong:
  assumes "io_core s' = io_core s" and "next_hid s \<le> next_hid s'"
    and "\<And>h. h < next_hid s \<Longrightarrow> handle_frame (handles s h) (handles s' h)"
  shows "io_frame s s'"
  using assms io_inv_cong [OF _ _ assms(2,3)] by (auto simp: io_frame_def io_core_def)

lemma io_frame_trans:
  assumes "io_frame a b" and "io_frame b c" and "next_hid a \<le> next_hid b" and "next_hid b \<le> next_hid c"
  shows "io_frame a c"
proof -
  obtain n1 n2 where "io_tasks b = io_tasks a @ n1" "\<forall>(fd, h, rd) \<in> set n1. next_hid a \<le> h \<and> h < next_hid b"
    "io_tasks c = io_tasks b @ n2" "\<forall>(fd, h, rd) \<in> set n2. next_hid b \<le> h \<and> h < next_hid c"
    using assms(1,2) unfolding io_frame_def by blast
  moreover from this have "\<forall>(fd, h, rd) \<in> set (n1 @ n2). next_hid a \<le> h \<and> h < next_hid c"
    using assms(3,4) by fastforce
  ultimately have "\<exists>new. io_tasks c = io_tasks a @ new \<and> (\<forall>(fd, h, rd) \<in> set new. next_hid a \<le> h \<and> h < next_hid c)"
    by (intro exI [of _ "n1 @ n2"]) simp
  then show ?thesis using assms by (simp add: io_frame_def)
qed

text \<open>A slot is written, its old handle is cancelled.\<close>

lemma io_inv_slot_set:
  assumes inv: "io_inv s" and set: "slot_set (selector s) fd reading x (selector s')"
    and new: "\<And>h. x = Some h \<Longrightarrow> h < next_hid s'"
    and old: "\<And>h. slot (selector s) fd reading = Some h \<Longrightarrow> hcancelled (handles s' h)"
    and s': "io_tasks s' = io_tasks s" "next_hid s \<le> next_hid s'"
      "\<And>h. h < next_hid s \<Longrightarrow> handle_frame (handles s h) (handles s' h)"
  shows "io_inv s'"
proof -
  have tasks: "h < next_hid s' \<and> kind (handles s' h) = ScopedHandle \<and>
      (\<not> hcancelled (handles s' h) \<longrightarrow> slot (selector s') fd' rd = Some h)"
    if "(fd', h, rd) \<in> set (io_tasks s)" for fd' h rd
    using io_inv_task [OF inv that] s'(2) s'(3) [of h] set old [of h]
    by (cases "(fd', rd) = (fd, reading)") (auto simp: handle_frame_def slot_set_def)
  moreover have "h < next_hid s'" if "slot (selector s') fd' rd = Some h" for fd' h rd
    using that set new [of h] io_inv_slot [OF inv, of fd' rd h] s'(2)
    by (cases "(fd', rd) = (fd, reading)") (auto simp: slot_set_def)
  ultimately show ?thesis
    using io_inv_selector [OF inv] io_inv_distinct [OF inv] s'(1) set by (auto simp: io_inv_def slot_set_def)
qed

text \<open>A task is started for a new handle that is in its slot.\<close>

lemma io_inv_start:
  assumes inv: "io_inv s" and h: "h < next_hid s" "kind (handles s h) = ScopedHandle"
    and "slot (selector s) fd reading = Some h" and "\<forall>(fd, h', reading) \<in> set (io_tasks s). h' \<noteq> h"
    and s': "selector s' = selector s" "io_tasks s' = io_tasks s @ [(fd, h, reading)]" "next_hid s' = next_hid s"
      "handles s' = handles s"
  shows "io_inv s'"
  using assms(4,5) h s' io_inv_selector [OF inv] io_inv_slot [OF inv] io_inv_task [OF inv] io_inv_distinct [OF inv]
  by (fastforce simp: io_inv_def)

end
