(* ===== verification/Future_Frame.thy ===== *)
theory Future_Frame
  imports Io_Frame
begin

text \<open>
  The invariant that ties futures to the handles of Trio functions: an \<open>AsyncHandle\<close> with a
  future and the future whose \<open>cancel\<close> was replaced by the handle's \<open>wrapped_cancel\<close> know each
  other, and the future is resolved when the function is over. What an operation must keep
  of it (\<open>fut_frame\<close>); while \<open>AsyncHandle._run\<close> is between \<open>_finished = True\<close> and the future's
  result, its handle is exempt.
\<close>

section \<open>The invariant\<close>

text \<open>The handles in \<open>H\<close> may be finished with a pending future.\<close>

definition fut_inv :: "hid set \<Rightarrow> ('q, 'z) loop_scheme \<Rightarrow> bool" where
  "fut_inv H s \<longleftrightarrow>
     (\<forall>h < next_hid s. \<forall>f. kind (handles s h) = AsyncHandle (Some f) \<longrightarrow>
        f < next_fid s \<and> fwrapped (futures s f) = Some h \<and>
        (hfinished (handles s h) \<and> h \<notin> H \<longrightarrow> fstate (futures s f) \<noteq> Pending)) \<and>
     (\<forall>f < next_fid s. \<forall>h. fwrapped (futures s f) = Some h \<longrightarrow>
        h < next_hid s \<and> kind (handles s h) = AsyncHandle (Some f))"

lemma fut_inv_handle:
  "fut_inv H s \<Longrightarrow> h < next_hid s \<Longrightarrow> kind (handles s h) = AsyncHandle (Some f) \<Longrightarrow>
   f < next_fid s \<and> fwrapped (futures s f) = Some h \<and>
   (hfinished (handles s h) \<and> h \<notin> H \<longrightarrow> fstate (futures s f) \<noteq> Pending)"
  and fut_inv_wrapped:
  "fut_inv H s \<Longrightarrow> f < next_fid s \<Longrightarrow> fwrapped (futures s f) = Some h \<Longrightarrow>
   h < next_hid s \<and> kind (handles s h) = AsyncHandle (Some f)"
  unfolding fut_inv_def by blast+

text \<open>Other fields do not matter.\<close>

lemma fut_inv_update [simp]:
  "fut_inv H (s\<lparr>queue := x_queue\<rparr>) = fut_inv H s"
  "fut_inv H (s\<lparr>timers := x_timers\<rparr>) = fut_inv H s"
  "fut_inv H (s\<lparr>closed_flag := x_closed_flag\<rparr>) = fut_inv H s"
  "fut_inv H (s\<lparr>stopped := x_stopped\<rparr>) = fut_inv H s"
  "fut_inv H (s\<lparr>stop_wait := x_stop_wait\<rparr>) = fut_inv H s"
  "fut_inv H (s\<lparr>nursery := x_nursery\<rparr>) = fut_inv H s"
  "fut_inv H (s\<lparr>nursery_closed := x_nursery_closed\<rparr>) = fut_inv H s"
  "fut_inv H (s\<lparr>task := x_task\<rparr>) = fut_inv H s"
  "fut_inv H (s\<lparr>token := x_token\<rparr>) = fut_inv H s"
  "fut_inv H (s\<lparr>events := x_events\<rparr>) = fut_inv H s"
  "fut_inv H (s\<lparr>next_eid := x_next_eid\<rparr>) = fut_inv H s"
  "fut_inv H (s\<lparr>clock := x_clock\<rparr>) = fut_inv H s"
  "fut_inv H (s\<lparr>sniffio := x_sniffio\<rparr>) = fut_inv H s"
  "fut_inv H (s\<lparr>asyncgen := x_asyncgen\<rparr>) = fut_inv H s"
  "fut_inv H (s\<lparr>dispatcher := x_dispatcher\<rparr>) = fut_inv H s"
  "fut_inv H (s\<lparr>selector := x_selector\<rparr>) = fut_inv H s"
  "fut_inv H (s\<lparr>close_files := x_close_files\<rparr>) = fut_inv H s"
  "fut_inv H (s\<lparr>closed_fds := x_closed_fds\<rparr>) = fut_inv H s"
  "fut_inv H (s\<lparr>io_tasks := x_io_tasks\<rparr>) = fut_inv H s"
  "fut_inv H (s\<lparr>io_state := x_io_state\<rparr>) = fut_inv H s"
  "fut_inv H (s\<lparr>transports := x_transports\<rparr>) = fut_inv H s"
  "fut_inv H (s\<lparr>started_tasks := x_started_tasks\<rparr>) = fut_inv H s"
  "fut_inv H (s\<lparr>task_errors := x_task_errors\<rparr>) = fut_inv H s"
  "fut_inv H (s\<lparr>sync_soon := x_sync_soon\<rparr>) = fut_inv H s"
  "fut_inv H (s\<lparr>received := x_received\<rparr>) = fut_inv H s"
  "fut_inv H (s\<lparr>ran := x_ran\<rparr>) = fut_inv H s"
  by (simp_all add: fut_inv_def)

lemma fut_inv_same:
  "futures s' = futures s \<Longrightarrow> next_fid s' = next_fid s \<Longrightarrow> handles s' = handles s \<Longrightarrow> next_hid s' = next_hid s \<Longrightarrow>
   fut_inv H s' = fut_inv H s"
  by (simp add: fut_inv_def)

section \<open>What an operation keeps of it\<close>

definition fut_frame :: "('q, 'z) loop_scheme \<Rightarrow> ('q, 'z) loop_scheme \<Rightarrow> bool" where
  "fut_frame s s' \<longleftrightarrow> (\<forall>H. fut_inv H s \<longrightarrow> fut_inv H s')"

lemma fut_frameD: "fut_frame s s' \<Longrightarrow> fut_inv H s \<Longrightarrow> fut_inv H s'"
  by (simp add: fut_frame_def)

lemma fut_frame_trans: "fut_frame a b \<Longrightarrow> fut_frame b c \<Longrightarrow> fut_frame a c"
  by (simp add: fut_frame_def)

lemma fut_frame_same [simp]:
  "futures s' = futures s \<Longrightarrow> next_fid s' = next_fid s \<Longrightarrow> handles s' = handles s \<Longrightarrow> next_hid s' = next_hid s \<Longrightarrow>
   fut_frame s s'"
  using fut_inv_same [of s' s] by (simp add: fut_frame_def)

text \<open>Handles are written without being finished, or made.\<close>

lemma fut_frame_handles:
  assumes "futures s' = futures s" "next_fid s' = next_fid s" "next_hid s \<le> next_hid s'"
    and "\<And>h. h < next_hid s \<Longrightarrow>
      kind (handles s' h) = kind (handles s h) \<and> hfinished (handles s' h) = hfinished (handles s h)"
    and "\<And>h f. next_hid s \<le> h \<Longrightarrow> h < next_hid s' \<Longrightarrow> kind (handles s' h) \<noteq> AsyncHandle (Some f)"
  shows "fut_frame s s'"
proof -
  have "fut_inv H s'" if inv: "fut_inv H s" for H
  proof -
    have "f < next_fid s' \<and> fwrapped (futures s' f) = Some h \<and>
        (hfinished (handles s' h) \<and> h \<notin> H \<longrightarrow> fstate (futures s' f) \<noteq> Pending)"
      if h: "h < next_hid s'" "kind (handles s' h) = AsyncHandle (Some f)" for h f
    proof (cases "h < next_hid s")
      case True
      then show ?thesis using assms(1,2) assms(4) [OF True] fut_inv_handle [OF inv True] h(2) by auto
    next
      case False
      then show ?thesis using assms(5) [of h f] h by simp
    qed
    moreover have "h < next_hid s' \<and> kind (handles s' h) = AsyncHandle (Some f)"
      if "f < next_fid s'" "fwrapped (futures s' f) = Some h" for f h
      using fut_inv_wrapped [OF inv, of f h] that assms(1-4) by auto
    ultimately show ?thesis unfolding fut_inv_def by blast
  qed
  then show ?thesis by (simp add: fut_frame_def)
qed

text \<open>A future is written, without being made pending again, or made.\<close>

lemma fut_frame_futures:
  assumes "handles s' = handles s" "next_hid s' = next_hid s" "next_fid s \<le> next_fid s'"
    and "\<And>f. f < next_fid s \<Longrightarrow> fwrapped (futures s' f) = fwrapped (futures s f) \<and>
      (fstate (futures s f) \<noteq> Pending \<longrightarrow> fstate (futures s' f) \<noteq> Pending)"
    and "\<And>f. next_fid s \<le> f \<Longrightarrow> f < next_fid s' \<Longrightarrow> fwrapped (futures s' f) = None"
  shows "fut_frame s s'"
proof -
  have "fut_inv H s'" if inv: "fut_inv H s" for H
  proof -
    have "f < next_fid s' \<and> fwrapped (futures s' f) = Some h \<and>
        (hfinished (handles s' h) \<and> h \<notin> H \<longrightarrow> fstate (futures s' f) \<noteq> Pending)"
      if h: "h < next_hid s'" "kind (handles s' h) = AsyncHandle (Some f)" for h f
      using fut_inv_handle [OF inv, of h f] h assms(1-3) assms(4) [of f] by auto
    moreover have "h < next_hid s' \<and> kind (handles s' h) = AsyncHandle (Some f)"
      if f: "f < next_fid s'" "fwrapped (futures s' f) = Some h" for f h
    proof (cases "f < next_fid s")
      case True
      then show ?thesis using fut_inv_wrapped [OF inv True, of h] f(2) assms(1,2) assms(4) [OF True] by simp
    next
      case False
      then show ?thesis using assms(5) [of f] f by simp
    qed
    ultimately show ?thesis unfolding fut_inv_def by blast
  qed
  then show ?thesis by (simp add: fut_frame_def)
qed

text \<open>\<open>trio_as_future\<close> makes a future and its handle.\<close>

lemma fut_frame_pair:
  assumes "handles s' = (handles s)(next_hid s := x)" "next_hid s' = Suc (next_hid s)"
    and "futures s' = (futures s)(next_fid s := y)" "next_fid s' = Suc (next_fid s)"
    and "kind x = AsyncHandle (Some (next_fid s))" "\<not> hfinished x" "fwrapped y = Some (next_hid s)"
  shows "fut_frame s s'"
proof -
  have "fut_inv H s'" if inv: "fut_inv H s" for H
  proof -
    have "f < next_fid s' \<and> fwrapped (futures s' f) = Some h \<and>
        (hfinished (handles s' h) \<and> h \<notin> H \<longrightarrow> fstate (futures s' f) \<noteq> Pending)"
      if "h < next_hid s'" "kind (handles s' h) = AsyncHandle (Some f)" for h f
      using fut_inv_handle [OF inv, of h f] that assms by (auto simp: less_Suc_eq split: if_splits)
    moreover have "h < next_hid s' \<and> kind (handles s' h) = AsyncHandle (Some f)"
      if "f < next_fid s'" "fwrapped (futures s' f) = Some h" for f h
      using fut_inv_wrapped [OF inv, of f h] that assms by (auto simp: less_Suc_eq split: if_splits)
    ultimately show ?thesis unfolding fut_inv_def by blast
  qed
  then show ?thesis by (simp add: fut_frame_def)
qed

section \<open>Between \<open>_finished = True\<close> and the result\<close>

lemma finish_fields:
  "futures (finish h s) = futures s" "next_fid (finish h s) = next_fid s" "next_hid (finish h s) = next_hid s"
  "kind (handles (finish h s) k) = kind (handles s k)"
  "hfinished (handles (finish h s) k) = (k = h \<or> hfinished (handles s k))"
  by (simp_all add: finish_def upd_handle_def)

lemma fut_inv_finish:
  assumes inv: "fut_inv H s"
    and "h \<in> H' \<or> (\<forall>f. h < next_hid s \<longrightarrow> kind (handles s h) = AsyncHandle (Some f) \<longrightarrow> fstate (futures s f) \<noteq> Pending)"
    and "H \<subseteq> H'"
  shows "fut_inv H' (finish h s)"
proof -
  have "f < next_fid s \<and> fwrapped (futures s f) = Some k \<and>
      ((k = h \<or> hfinished (handles s k)) \<and> k \<notin> H' \<longrightarrow> fstate (futures s f) \<noteq> Pending)"
    if k: "k < next_hid s" "kind (handles s k) = AsyncHandle (Some f)" for k f
    using fut_inv_handle [OF inv k] assms(2,3) k by blast
  moreover have "k < next_hid s \<and> kind (handles s k) = AsyncHandle (Some f)"
    if "f < next_fid s" "fwrapped (futures s f) = Some k" for f k
    using fut_inv_wrapped [OF inv that] .
  ultimately show ?thesis unfolding fut_inv_def finish_fields by blast
qed

text \<open>A handle without a pending future may be finished at any time.\<close>

lemma fut_frame_finish:
  assumes "\<And>f. h < next_hid s \<Longrightarrow> kind (handles s h) = AsyncHandle (Some f) \<Longrightarrow> fstate (futures s f) \<noteq> Pending"
  shows "fut_frame s (finish h s)"
  using fut_inv_finish [where h = h and s = s] assms unfolding fut_frame_def by blast

lemma fut_inv_resolved:
  assumes inv: "fut_inv (insert h H) s"
    and "\<And>f. h < next_hid s \<Longrightarrow> kind (handles s h) = AsyncHandle (Some f) \<Longrightarrow> fstate (futures s f) \<noteq> Pending"
  shows "fut_inv H s"
proof -
  have "f < next_fid s \<and> fwrapped (futures s f) = Some k \<and>
      (hfinished (handles s k) \<and> k \<notin> H \<longrightarrow> fstate (futures s f) \<noteq> Pending)"
    if k: "k < next_hid s" "kind (handles s k) = AsyncHandle (Some f)" for k f
    using fut_inv_handle [OF inv k] assms(2) k by (cases "k = h") blast+
  moreover have "k < next_hid s \<and> kind (handles s k) = AsyncHandle (Some f)"
    if "f < next_fid s" "fwrapped (futures s f) = Some k" for f k
    using fut_inv_wrapped [OF inv that] .
  ultimately show ?thesis unfolding fut_inv_def by blast
qed

end
