(* ===== verification/Loop_Contract.thy ===== *)
theory Loop_Contract
  imports Future_Frame
begin

text \<open>
  What the base class relies on when it calls the methods of its subclass, as a locale, and
  the frame condition of every operation of the loop's interface proved from it: such an
  operation only allocates objects, appends new handles to the channel, cancels handles, and
  changes readers and writers, futures and their handles in an orderly way (\<open>io_frame\<close>,
  \<open>fut_frame\<close>).
  The asynchronous loop meets the contract for every channel with Trio's laws.
\<close>

section \<open>The frame\<close>

text \<open>The fields that no operation of the interface writes.\<close>

definition core :: "('q, 'z) loop_scheme \<Rightarrow> _" where
  "core s = (timers s, closed_flag s, stopped s, nursery s, nursery_closed s, task s, token s, clock s,
     sniffio s, asyncgen s, dispatcher s, closed_fds s, transports s, started_tasks s, received s, ran s, program s)"

text \<open>A future that is resolved stays as it is.\<close>

definition future_frame :: "future \<Rightarrow> future \<Rightarrow> bool" where
  "future_frame x y \<longleftrightarrow> (fstate x \<noteq> Pending \<longrightarrow> fstate y = fstate x)"

text \<open>Once \<open>_stop_wait\<close> holds an event, it keeps it.\<close>

definition keeps_stop_wait :: "('q, 'z) loop_scheme \<Rightarrow> ('q, 'z) loop_scheme \<Rightarrow> bool" where
  "keeps_stop_wait s s' \<longleftrightarrow> (\<forall>w. stop_wait s = Some w \<longrightarrow> stop_wait s' = Some w)"

lemma keeps_stop_wait_same [simp]: "stop_wait s' = stop_wait s \<Longrightarrow> keeps_stop_wait s s'"
  by (simp add: keeps_stop_wait_def)

lemma keeps_stop_wait_trans: "keeps_stop_wait a b \<Longrightarrow> keeps_stop_wait b c \<Longrightarrow> keeps_stop_wait a c"
  by (simp add: keeps_stop_wait_def)

definition pre_frame ::
  "('z \<Rightarrow> 'z \<Rightarrow> bool) \<Rightarrow> ('q \<Rightarrow> hid list) \<Rightarrow> ('q \<Rightarrow> nat option) \<Rightarrow> ('q, 'z) loop_scheme \<Rightarrow> ('q, 'z) loop_scheme \<Rightarrow> bool" where
  "pre_frame ext msgs cap s s' \<longleftrightarrow>
     core s' = core s \<and> io_frame s s' \<and> (nursery_closed s \<longrightarrow> io_tasks s' = io_tasks s) \<and> ext\<^sup>*\<^sup>* (loop.more s) (loop.more s') \<and> cap (queue s') = cap (queue s) \<and>
     next_hid s \<le> next_hid s' \<and> next_fid s \<le> next_fid s' \<and>
     (\<forall>h < next_hid s. handle_frame (handles s h) (handles s' h)) \<and>
     (\<forall>f < next_fid s. future_frame (futures s f) (futures s' f)) \<and>
     (\<exists>new. sync_soon s' = sync_soon s @ new \<and>
        (\<forall>h \<in> set new. next_hid s \<le> h \<and> h < next_hid s')) \<and>
     (\<exists>new. msgs (queue s') = msgs (queue s) @ new \<and>
        (\<forall>h \<in> set new. next_hid s \<le> h \<and> h < next_hid s')) \<and>
     keeps_stop_wait s s'"

definition api_frame ::
  "('z \<Rightarrow> 'z \<Rightarrow> bool) \<Rightarrow> ('q \<Rightarrow> hid list) \<Rightarrow> ('q \<Rightarrow> nat option) \<Rightarrow> ('q, 'z) loop_scheme \<Rightarrow> ('q, 'z) loop_scheme \<Rightarrow> bool" where
  "api_frame ext msgs cap s s' \<longleftrightarrow> pre_frame ext msgs cap s s' \<and> fut_frame s s'"

lemma future_frame_refl [simp]: "future_frame x x"
  by (simp add: future_frame_def)

lemma future_frame_trans: "future_frame x y \<Longrightarrow> future_frame y z \<Longrightarrow> future_frame x z"
  by (auto simp: future_frame_def)

text \<open>An operation that leaves readers and writers alone.\<close>

lemma pre_frameI:
  assumes "core s' = core s" and "io_core s' = io_core s" and "ext\<^sup>*\<^sup>* (loop.more s) (loop.more s')"
    and "cap (queue s') = cap (queue s)" and "next_hid s \<le> next_hid s'" and "next_fid s \<le> next_fid s'"
    and "\<And>h. h < next_hid s \<Longrightarrow> handle_frame (handles s h) (handles s' h)"
    and "\<And>f. f < next_fid s \<Longrightarrow> future_frame (futures s f) (futures s' f)"
    and "\<exists>new. sync_soon s' = sync_soon s @ new \<and> (\<forall>h \<in> set new. next_hid s \<le> h \<and> h < next_hid s')"
    and "\<exists>new. msgs (queue s') = msgs (queue s) @ new \<and> (\<forall>h \<in> set new. next_hid s \<le> h \<and> h < next_hid s')"
    and "keeps_stop_wait s s'"
  shows "pre_frame ext msgs cap s s'"
  using assms io_frame_cong [OF assms(2,5,7)] by (simp add: pre_frame_def io_core_def)

lemmas api_frameI = api_frame_def [THEN iffD2, OF conjI [OF pre_frameI]]

lemma api_frame_refl [simp, intro]: "api_frame ext msgs cap s s"
  by (rule api_frameI) simp_all

lemma new_ids_trans:
  assumes "\<exists>new. ys = xs @ new \<and> (\<forall>h \<in> set new. (a::nat) \<le> h \<and> h < b)"
    and "\<exists>new. zs = ys @ new \<and> (\<forall>h \<in> set new. b \<le> h \<and> h < c)" and "a \<le> b" and "b \<le> c"
  shows "\<exists>new. zs = xs @ new \<and> (\<forall>h \<in> set new. a \<le> h \<and> h < c)"
proof -
  obtain n1 n2 where "ys = xs @ n1" "\<forall>h \<in> set n1. a \<le> h \<and> h < b"
    "zs = ys @ n2" "\<forall>h \<in> set n2. b \<le> h \<and> h < c"
    using assms(1,2) by auto
  then show ?thesis using assms(3,4) by (intro exI [of _ "n1 @ n2"]) auto
qed

lemma pre_frame_io: "pre_frame ext msgs cap s s' \<Longrightarrow> io_frame s s'"
  and pre_frame_more: "pre_frame ext msgs cap s s' \<Longrightarrow> ext\<^sup>*\<^sup>* (loop.more s) (loop.more s')"
  and pre_frame_closed: "pre_frame ext msgs cap s s' \<Longrightarrow> nursery_closed s \<Longrightarrow> io_tasks s' = io_tasks s"
  and pre_frame_core: "pre_frame ext msgs cap s s' \<Longrightarrow> core s' = core s"
  and pre_frame_cap: "pre_frame ext msgs cap s s' \<Longrightarrow> cap (queue s') = cap (queue s)"
  and pre_frame_next: "pre_frame ext msgs cap s s' \<Longrightarrow> next_hid s \<le> next_hid s'"
  and pre_frame_next_fid: "pre_frame ext msgs cap s s' \<Longrightarrow> next_fid s \<le> next_fid s'"
  and pre_frame_handle:
    "pre_frame ext msgs cap s s' \<Longrightarrow> h < next_hid s \<Longrightarrow> handle_frame (handles s h) (handles s' h)"
  and pre_frame_future:
    "pre_frame ext msgs cap s s' \<Longrightarrow> f < next_fid s \<Longrightarrow> future_frame (futures s f) (futures s' f)"
  and pre_frame_soon:
    "pre_frame ext msgs cap s s' \<Longrightarrow> \<exists>new. sync_soon s' = sync_soon s @ new \<and>
       (\<forall>h \<in> set new. next_hid s \<le> h \<and> h < next_hid s')"
  and pre_frame_queue:
    "pre_frame ext msgs cap s s' \<Longrightarrow> \<exists>new. msgs (queue s') = msgs (queue s) @ new \<and>
       (\<forall>h \<in> set new. next_hid s \<le> h \<and> h < next_hid s')"
  and pre_frame_wait: "pre_frame ext msgs cap s s' \<Longrightarrow> keeps_stop_wait s s'"
  unfolding pre_frame_def by blast+

lemma pre_frame_trans:
  assumes ab: "pre_frame ext msgs cap a b" and bc: "pre_frame ext msgs cap b c"
  shows "pre_frame ext msgs cap a c"
proof -
  note le = pre_frame_next [OF ab] pre_frame_next [OF bc] pre_frame_next_fid [OF ab] pre_frame_next_fid [OF bc]
  have "handle_frame (handles a h) (handles c h)" if "h < next_hid a" for h
    using handle_frame_trans [OF pre_frame_handle [OF ab that] pre_frame_handle [OF bc]] that le(1) by simp
  moreover have "future_frame (futures a f) (futures c f)" if "f < next_fid a" for f
    using future_frame_trans [OF pre_frame_future [OF ab that] pre_frame_future [OF bc]] that le(3) by simp
  moreover note new_ids_trans [OF pre_frame_queue [OF ab] pre_frame_queue [OF bc] le(1,2)]
  moreover note new_ids_trans [OF pre_frame_soon [OF ab] pre_frame_soon [OF bc] le(1,2)]
  moreover note io_frame_trans [OF pre_frame_io [OF ab] pre_frame_io [OF bc] le(1,2)]
  moreover note rtranclp_trans [OF pre_frame_more [OF ab] pre_frame_more [OF bc]]
  moreover have "nursery_closed a \<longrightarrow> io_tasks c = io_tasks a"
    using pre_frame_closed [OF ab] pre_frame_closed [OF bc] pre_frame_core [OF ab] by (simp add: core_def)
  moreover note keeps_stop_wait_trans [OF pre_frame_wait [OF ab] pre_frame_wait [OF bc]]
  moreover note pre_frame_core [OF ab] pre_frame_core [OF bc] pre_frame_cap [OF ab] pre_frame_cap [OF bc]
  ultimately show ?thesis using le unfolding pre_frame_def by (simp only:) (metis order_trans)
qed

lemma api_frame_pre: "api_frame ext msgs cap s s' \<Longrightarrow> pre_frame ext msgs cap s s'"
  and api_frame_fut: "api_frame ext msgs cap s s' \<Longrightarrow> fut_frame s s'"
  by (simp_all add: api_frame_def)

lemmas api_frame_io = pre_frame_io [OF api_frame_pre]
  and api_frame_closed = pre_frame_closed [OF api_frame_pre]
  and api_frame_more = pre_frame_more [OF api_frame_pre]
  and api_frame_core = pre_frame_core [OF api_frame_pre]
  and api_frame_cap = pre_frame_cap [OF api_frame_pre]
  and api_frame_next = pre_frame_next [OF api_frame_pre]
  and api_frame_next_fid = pre_frame_next_fid [OF api_frame_pre]
  and api_frame_handle = pre_frame_handle [OF api_frame_pre]
  and api_frame_future = pre_frame_future [OF api_frame_pre]
  and api_frame_soon = pre_frame_soon [OF api_frame_pre]
  and api_frame_queue = pre_frame_queue [OF api_frame_pre]
  and api_frame_wait = pre_frame_wait [OF api_frame_pre]

lemma api_frame_trans:
  "api_frame ext msgs cap a b \<Longrightarrow> api_frame ext msgs cap b c \<Longrightarrow> api_frame ext msgs cap a c"
  unfolding api_frame_def using pre_frame_trans fut_frame_trans by blast

lemma frame_bind:
  assumes "api_frame ext msgs cap s (fst (f s))"
    and "\<And>s' x. f s = (s', Inr x) \<Longrightarrow> api_frame ext msgs cap s' (fst (g x s'))"
  shows "api_frame ext msgs cap s (fst (py_bind f g s))"
  using assms api_frame_trans by (rule py_bind_rel [where R = "api_frame ext msgs cap" and f = f])

lemma frame_discard:
  "api_frame ext msgs cap s (fst (f s)) \<Longrightarrow> api_frame ext msgs cap s (fst (discard f s))"
  unfolding discard_def by (rule frame_bind) simp_all

lemma frame_check_closed: "api_frame ext msgs cap s (fst (check_closed s))"
  by (simp add: check_closed_def)

lemma frame_check_callback: "api_frame ext msgs cap s (fst (check_callback cb s))"
  by (simp add: check_callback_def)

lemma frame_loop_time: "api_frame ext msgs cap s (fst (loop_time s))"
  by (simp add: loop_time_def)

lemma pre_frame_upd_handle:
  "handle_frame (handles s h) (f (handles s h)) \<Longrightarrow> pre_frame ext msgs cap s (upd_handle h f s)"
  by (rule pre_frameI) (auto simp: core_def io_core_def upd_handle_def)

lemma frame_upd_handle:
  assumes "handle_frame (handles s h) (f (handles s h))" and "hfinished (f (handles s h)) = hfinished (handles s h)"
  shows "api_frame ext msgs cap s (upd_handle h f s)"
proof -
  have "fut_frame s (upd_handle h f s)"
    by (rule fut_frame_handles) (use assms in \<open>auto simp: upd_handle_def handle_frame_def\<close>)
  then show ?thesis using pre_frame_upd_handle assms(1) by (simp add: api_frame_def)
qed

lemma pre_frame_upd_future:
  "future_frame (futures s f) (g (futures s f)) \<Longrightarrow> pre_frame ext msgs cap s (upd_future f g s)"
  by (rule pre_frameI) (auto simp: core_def io_core_def upd_future_def)

lemma frame_upd_future:
  assumes "future_frame (futures s f) (g (futures s f))" and "fwrapped (g (futures s f)) = fwrapped (futures s f)"
  shows "api_frame ext msgs cap s (upd_future f g s)"
proof -
  have "fut_frame s (upd_future f g s)"
    by (rule fut_frame_futures) (use assms in \<open>auto simp: upd_future_def future_frame_def\<close>)
  then show ?thesis using pre_frame_upd_future assms(1) by (simp add: api_frame_def)
qed

lemma frame_set_event: "api_frame ext msgs cap s (set_event e s)"
  by (rule api_frameI) (simp_all add: core_def io_core_def set_event_def)

lemma frame_events: "api_frame ext msgs cap s (s\<lparr>events := ev\<rparr>)"
  by (rule api_frameI) (simp_all add: core_def io_core_def)

lemma frame_stop_wait: "stop_wait s = None \<Longrightarrow> api_frame ext msgs cap s (s\<lparr>stop_wait := w\<rparr>)"
  by (rule api_frameI) (simp_all add: core_def io_core_def keeps_stop_wait_def)

lemma frame_task_errors: "api_frame ext msgs cap s (s\<lparr>task_errors := es\<rparr>)"
  by (rule api_frameI) (simp_all add: core_def io_core_def)

text \<open>The handle of a Trio function with a future is only ever made together with the future.\<close>

fun linked :: "hkind \<Rightarrow> bool" where
  "linked (AsyncHandle (Some f)) = True"
| "linked _ = False"

lemma pre_frame_alloc_handle: "pre_frame ext msgs cap s (fst (alloc_handle k cb s))"
  by (rule pre_frameI) (simp_all add: core_def io_core_def alloc_handle_def)

lemma frame_alloc_handle:
  assumes "\<not> linked k"
  shows "api_frame ext msgs cap s (fst (alloc_handle k cb s))"
proof -
  have "fut_frame s (fst (alloc_handle k cb s))"
    by (rule fut_frame_handles) (use assms in \<open>auto simp: alloc_handle_def new_handle_obj_def\<close>)
  then show ?thesis using pre_frame_alloc_handle by (simp add: api_frame_def)
qed

lemma frame_alloc_future: "api_frame ext msgs cap s (fst (alloc_future s))"
proof (rule api_frameI)
  show "fut_frame s (fst (alloc_future s))"
    by (rule fut_frame_futures) (auto simp: alloc_future_def)
qed (simp_all add: core_def io_core_def alloc_future_def)

lemma frame_alloc_event: "api_frame ext msgs cap s (fst (alloc_event s))"
  by (rule api_frameI) (simp_all add: core_def io_core_def alloc_event_def)

lemma frame_handle_cancel: "api_frame ext msgs cap s (handle_cancel h s)"
  by (simp add: handle_cancel_def frame_upd_handle handle_frame_def)

lemma frame_io_cancel: "api_frame ext msgs cap s (fst (trio_io_cancel h s))"
  by (simp add: trio_io_cancel_def frame_upd_handle handle_frame_def)

lemma frame_call_soon_threadsafe: "api_frame ext msgs cap s (fst (call_soon_threadsafe cb s))"
  unfolding call_soon_threadsafe_def
proof (intro frame_bind frame_check_callback frame_check_closed)
  fix s :: "('b, 'a) loop_scheme"
  show "api_frame ext msgs cap s (fst (case alloc_handle PlainHandle cb s of
      (s', h) \<Rightarrow> if \<not> token s' then py_raise AttributeError s'
                 else py_return () (s'\<lparr>sync_soon := sync_soon s' @ [h]\<rparr>)))"
  proof (cases "token s")
    case True
    obtain s1 h where a: "alloc_handle PlainHandle cb s = (s1, h)" by fastforce
    have "api_frame ext msgs cap s s1" using frame_alloc_handle [of PlainHandle ext msgs cap s cb] by (simp add: a)
    then have "fut_frame s (s1\<lparr>sync_soon := sync_soon s1 @ [h]\<rparr>)"
      by (rule fut_frame_trans [OF api_frame_fut fut_frame_same]) simp_all
    moreover have "pre_frame ext msgs cap s (s1\<lparr>sync_soon := sync_soon s1 @ [h]\<rparr>)"
      by (rule pre_frameI) (use a in \<open>auto simp: alloc_handle_def core_def io_core_def\<close>)
    ultimately show ?thesis using a True by (auto simp: alloc_handle_def api_frame_def)
  next
    case False
    then show ?thesis using frame_alloc_handle [of PlainHandle ext msgs cap s cb] by (simp add: alloc_handle_def)
  qed
qed

section \<open>Queueing\<close>

text \<open>What a subclass's \<open>_queue_handle\<close> does: nothing when it raises, else it appends.\<close>

definition appends ::
  "('q \<Rightarrow> hid list) \<Rightarrow> ('q \<Rightarrow> nat option) \<Rightarrow> (hid \<Rightarrow> (('q, 'z) loop_scheme, unit) py) \<Rightarrow> bool" where
  "appends msgs cap Q \<longleftrightarrow>
     (\<forall>h s s' r. Q h s = (s', r) \<longrightarrow>
        (case r of
           Inl _ \<Rightarrow> s' = s
         | Inr _ \<Rightarrow> (\<exists>q. s' = s\<lparr>queue := q\<rparr> \<and> msgs q = msgs (queue s) @ [h] \<and> cap q = cap (queue s))))"

lemma appendsI:
  assumes "\<And>h s s' e. Q h s = (s', Inl e) \<Longrightarrow> s' = s"
    and "\<And>h s s' u. Q h s = (s', Inr u) \<Longrightarrow>
      \<exists>q. s' = s\<lparr>queue := q\<rparr> \<and> msgs q = msgs (queue s) @ [h] \<and> cap q = cap (queue s)"
  shows "appends msgs cap Q"
  using assms unfolding appends_def by (fastforce split: sum.split)

lemma appends_cases:
  assumes "appends msgs cap Q" and "Q h s = (s', r)"
  obtains (raises) e where "r = Inl e" "s' = s"
  | (appends) q where "r = Inr ()" "s' = s\<lparr>queue := q\<rparr>" "msgs q = msgs (queue s) @ [h]" "cap q = cap (queue s)"
  using assms unfolding appends_def by (cases r) fastforce+

lemma frame_enqueue:
  assumes f: "api_frame ext msgs cap s s1" and h: "next_hid s \<le> h" "h < next_hid s1"
    and q: "msgs q = msgs (queue s1) @ [h]" "cap q = cap (queue s1)"
  shows "api_frame ext msgs cap s (s1\<lparr>queue := q\<rparr>)"
proof -
  obtain new where "msgs (queue s1) = msgs (queue s) @ new" "\<forall>h \<in> set new. next_hid s \<le> h \<and> h < next_hid s1"
    using api_frame_queue [OF f] by blast
  then have "\<exists>new. msgs q = msgs (queue s) @ new \<and> (\<forall>h \<in> set new. next_hid s \<le> h \<and> h < next_hid s1)"
    using h q(1) by (intro exI [of _ "new @ [h]"]) auto
  moreover have "io_frame s (s1\<lparr>queue := q\<rparr>)"
    by (rule io_frame_trans [OF api_frame_io [OF f] io_frame_cong]) (simp_all add: io_core_def api_frame_next [OF f])
  moreover have "fut_frame s (s1\<lparr>queue := q\<rparr>)" using fut_frame_trans [OF api_frame_fut [OF f]] by simp
  ultimately show ?thesis using api_frame_pre [OF f] q(2) by (simp add: api_frame_def pre_frame_def core_def keeps_stop_wait_def)
qed

lemma appends_frame:
  assumes Q: "appends msgs cap Q" and f: "api_frame ext msgs cap s s1" and h: "next_hid s \<le> h" "h < next_hid s1"
  shows "api_frame ext msgs cap s (fst (Q h s1))"
proof (cases "Q h s1")
  case (Pair s' r)
  from Q Pair show ?thesis
    by (cases rule: appends_cases) (use f h Pair frame_enqueue in auto)
qed

lemma appends_queue_new_frame:
  assumes Q: "appends msgs cap Q" and k: "\<not> linked k"
  shows "api_frame ext msgs cap s (fst (queue_new Q k cb s))"
proof -
  obtain s1 h where a: "alloc_handle k cb s = (s1, h)" by fastforce
  then have "api_frame ext msgs cap s s1" "next_hid s \<le> h" "h < next_hid s1"
    using frame_alloc_handle [OF k, of ext msgs cap s cb] by (auto simp: alloc_handle_def)
  with Q have "api_frame ext msgs cap s (fst (Q h s1))" by (rule appends_frame)
  then show ?thesis
    by (cases "Q h s1") (auto simp: queue_new_def a py_bind_def split: sum.split)
qed

section \<open>Readers and writers\<close>

text \<open>Writing a slot of the table and cancelling the handle it had.\<close>

lemma frame_slot:
  assumes set: "io_inv s \<Longrightarrow> slot_set (selector s) fd reading x sel" and new: "\<And>h. x = Some h \<Longrightarrow> h < next_hid s"
    and old: "old = slot (selector s) fd reading"
  shows "api_frame ext msgs cap s
    (case old of None \<Rightarrow> s\<lparr>selector := sel\<rparr> | Some h \<Rightarrow> handle_cancel h (s\<lparr>selector := sel\<rparr>))" (is "api_frame _ _ _ _ ?s")
proof -
  have fields: "core ?s = core s" "selector ?s = sel" "io_tasks ?s = io_tasks s" "io_state ?s = io_state s"
    "queue ?s = queue s" "next_hid ?s = next_hid s" "next_fid ?s = next_fid s" "futures ?s = futures s"
    "sync_soon ?s = sync_soon s" "loop.more ?s = loop.more s" "\<And>h. handle_frame (handles s h) (handles ?s h)"
    "\<And>h. old = Some h \<Longrightarrow> hcancelled (handles ?s h)"
    "stop_wait ?s = stop_wait s" "\<And>h. kind (handles ?s h) = kind (handles s h) \<and> hfinished (handles ?s h) = hfinished (handles s h)"
    by (auto simp: handle_cancel_def upd_handle_def core_def handle_frame_def split: option.split)
  have "fut_frame s ?s"
    by (rule fut_frame_handles) (use fields in simp_all)
  moreover have "io_inv s \<Longrightarrow> io_inv ?s"
    by (rule io_inv_slot_set [where s = s and fd = fd and reading = reading and x = x])
      (use set new old fields in auto)
  ultimately show ?thesis using fields by (simp add: api_frame_def pre_frame_def io_frame_def)
qed

text \<open>A method that cancels scopes leaves the table and the tasks alone.\<close>

definition cancels ::
  "('z \<Rightarrow> 'z \<Rightarrow> bool) \<Rightarrow> ('q \<Rightarrow> hid list) \<Rightarrow> ('q \<Rightarrow> nat option) \<Rightarrow>
   (hid \<Rightarrow> (('q, 'z) loop_scheme, unit) py) \<Rightarrow> bool" where
  "cancels ext msgs cap io_cancel \<longleftrightarrow>
     (\<forall>h s. api_frame ext msgs cap s (fst (io_cancel h s)) \<and> io_core (fst (io_cancel h s)) = io_core s \<and>
        next_hid (fst (io_cancel h s)) = next_hid s)"

lemma cancels_io_cancel: "cancels ext msgs cap trio_io_cancel"
  by (simp add: cancels_def frame_io_cancel) (simp add: trio_io_cancel_def upd_handle_def io_core_def)

text \<open>\<open>_add_io_handler\<close>: up to the start of the task, and the whole.\<close>

definition adds_slot ::
  "bool \<Rightarrow> (fd \<Rightarrow> hid \<Rightarrow> ('q, 'z) loop_scheme \<Rightarrow> ('q, 'z) loop_scheme \<times> hid option) \<Rightarrow> bool" where
  "adds_slot reading set_handle \<longleftrightarrow>
     (\<forall>fd h s s' old. set_handle fd h s = (s', old) \<longrightarrow>
        (\<exists>sel. s' = s\<lparr>selector := sel\<rparr> \<and> slot_set (selector s) fd reading (Some h) sel \<and>
           old = slot (selector s) fd reading))"

lemma adds_slot_handlers: "adds_slot True set_read_handle" "adds_slot False set_write_handle"
  unfolding adds_slot_def using set_read_handle_slot set_write_handle_slot by blast+

lemma start_io_task_cases:
  assumes "start_io_task fd h reading s = (s', r)"
  obtains "s' = s"
  | "s' = s\<lparr>io_tasks := io_tasks s @ [(fd, h, reading)], io_state := (io_state s)(h := IoTop)\<rparr>"
    "\<not> nursery_closed s" "token s" "nursery s"
proof (cases "token s \<and> nursery s \<and> \<not> nursery_closed s")
  case True
  then show ?thesis using assms by (intro that(2)) (simp_all add: start_io_task_def)
next
  case False
  then show ?thesis using assms by (intro that(1)) (simp add: start_io_task_def split: if_splits)
qed

lemma cancel_slot_effect:
  assumes ioc: "cancels ext msgs cap io_cancel"
    and c: "(case old of None \<Rightarrow> py_return () s | Some h \<Rightarrow> scoped_cancel_by io_cancel h s) = (s', r)"
  shows "api_frame ext msgs cap (case old of None \<Rightarrow> s | Some h \<Rightarrow> handle_cancel h s) s' \<and> io_core s' = io_core s \<and>
    next_hid s' = next_hid s"
proof (cases old)
  case None
  then show ?thesis using c by simp
next
  case (Some h)
  have "fst (io_cancel h (handle_cancel h s)) = s'" using c Some by (simp add: scoped_cancel_by_def)
  moreover have "io_core (handle_cancel h s) = io_core s" "next_hid (handle_cancel h s) = next_hid s"
    by (simp_all add: handle_cancel_def upd_handle_def io_core_def)
  ultimately show ?thesis using ioc [unfolded cancels_def, rule_format, of "handle_cancel h s" h] Some by simp
qed

text \<open>What \<open>_add_io_handler\<close> leaves when it does not raise before it writes the table.\<close>

lemma add_io_handler_steps:
  assumes sh: "adds_slot reading set_handle" and ioc: "cancels ext msgs cap io_cancel"
    and d: "add_io_handler io_cancel set_handle reading fd cb s = (s', r)"
  obtains (refused) "s' = s"
  | (added) v s1 where "api_frame ext msgs cap s v" "queue v = queue s" "futures v = futures s"
      "s1 = v \<or> (\<exists>h. s1 = fst (io_cancel h v))"
      "api_frame ext msgs cap s s1" "io_tasks s1 = io_tasks s" "io_state s1 = io_state s"
      "next_hid s1 = Suc (next_hid s)" "slot (selector s1) fd reading = Some (next_hid s)"
      "io_inv s \<Longrightarrow> kind (handles s1 (next_hid s)) = ScopedHandle"
      "s' = s1 \<or> start_io_task fd (next_hid s) reading s1 = (s', r)"
proof (cases "closed_flag s")
  case True
  then show ?thesis using d by (intro refused) (simp add: add_io_handler_def py_bind_def check_closed_def)
next
  case False
  let ?h = "next_hid s"
  obtain t where a: "alloc_handle ScopedHandle cb s = (t, ?h)" by (simp add: alloc_handle_def)
  then have t: "selector t = selector s" "next_hid t = Suc ?h" "io_tasks t = io_tasks s" "io_state t = io_state s"
    "kind (handles t ?h) = ScopedHandle" "api_frame ext msgs cap s t"
    using frame_alloc_handle [of ScopedHandle ext msgs cap s cb] by (auto simp: alloc_handle_def new_handle_obj_def)
  obtain u old where set: "set_handle fd ?h t = (u, old)" by fastforce
  then obtain sel where u: "u = t\<lparr>selector := sel\<rparr>" and sel: "slot_set (selector t) fd reading (Some ?h) sel"
    and old: "old = slot (selector t) fd reading"
    using sh unfolding adds_slot_def by metis
  obtain s1 r1 where c: "(case old of None \<Rightarrow> py_return () u | Some h \<Rightarrow> scoped_cancel_by io_cancel h u) = (s1, r1)"
    by fastforce
  let ?v = "case old of None \<Rightarrow> u | Some h \<Rightarrow> handle_cancel h u"
  note ce = cancel_slot_effect [OF ioc c]
  have "api_frame ext msgs cap t ?v"
    unfolding u by (rule frame_slot [OF sel _ old]) (simp add: t)
  moreover have v: "kind (handles ?v ?h) = ScopedHandle" "next_hid ?v = Suc ?h"
    using t by (auto simp: u handle_cancel_def upd_handle_def split: option.split)
  ultimately have fv: "api_frame ext msgs cap s ?v" using api_frame_trans [OF t(6)] by blast
  have qv: "queue ?v = queue s" "futures ?v = futures s"
    using a by (auto simp: u alloc_handle_def handle_cancel_def upd_handle_def split: option.split)
  have sv: "s1 = ?v \<or> (\<exists>h. s1 = fst (io_cancel h ?v))"
    using c by (cases old) (simp_all add: scoped_cancel_by_def, metis fst_conv)
  have f: "api_frame ext msgs cap s s1" using api_frame_trans [OF fv] ce by blast
  have "kind (handles s1 ?h) = ScopedHandle"
    using api_frame_handle [OF conjunct1 [OF ce], of ?h] v by (simp add: handle_frame_def)
  moreover have "io_tasks s1 = io_tasks s" "io_state s1 = io_state s" "next_hid s1 = Suc ?h" "selector s1 = sel"
    using ce t by (simp_all add: io_core_def u)
  moreover have "slot sel fd reading = Some ?h" using sel by (simp add: slot_set_def)
  moreover have "(s', r) = (case r1 of Inl e \<Rightarrow> (s1, Inl e) | Inr _ \<Rightarrow> start_io_task fd ?h reading s1)"
    by (cases old) (use d False c in \<open>auto simp: add_io_handler_def py_bind_def check_closed_def a set\<close>)
  ultimately show ?thesis by (intro added [OF fv qv sv f]) (simp_all split: sum.splits)
qed

lemma add_io_handler_frame:
  assumes sh: "adds_slot reading set_handle" and ioc: "cancels ext msgs cap io_cancel"
  shows "api_frame ext msgs cap s (fst (add_io_handler io_cancel set_handle reading fd cb s))"
proof -
  obtain s' r where d: "add_io_handler io_cancel set_handle reading fd cb s = (s', r)" by fastforce
  from sh ioc d have "api_frame ext msgs cap s s'"
  proof (cases rule: add_io_handler_steps)
    case (added v s1)
    note added = added(5-11)
    show ?thesis
    proof (cases "s' = s1")
      case False
      then have s': "s' = s1\<lparr>io_tasks := io_tasks s1 @ [(fd, next_hid s, reading)], io_state := (io_state s1)(next_hid s := IoTop)\<rparr>"
        and open': "\<not> nursery_closed s1"
        using added(7) start_io_task_cases by blast+
      have "io_inv s'" if inv: "io_inv s"
      proof (rule io_inv_start [of s1 "next_hid s" fd reading])
        show "io_inv s1" using api_frame_io [OF added(1)] inv by (simp add: io_frame_def)
        show "\<forall>(fd, h', reading) \<in> set (io_tasks s1). h' \<noteq> next_hid s"
          using io_inv_task [OF inv] added(2) by fastforce
      qed (use added inv s' in simp_all)
      then have "io_frame s s'" using added(2-4) by (simp add: io_frame_def s')
      moreover have "fut_frame s s'" using fut_frame_trans [OF api_frame_fut [OF added(1)]] by (simp add: s')
      ultimately show ?thesis using added(1) open' by (simp add: api_frame_def pre_frame_def core_def keeps_stop_wait_def s')
    qed (simp add: added)
  qed simp
  then show ?thesis by (simp add: d)
qed

lemma add_reader_impl_frame:
  "cancels ext msgs cap io_cancel \<Longrightarrow> api_frame ext msgs cap s (fst (add_reader_impl io_cancel fd cb s))"
  and add_writer_impl_frame:
  "cancels ext msgs cap io_cancel \<Longrightarrow> api_frame ext msgs cap s (fst (add_writer_impl io_cancel fd cb s))"
  by (simp_all add: add_reader_impl_def add_writer_impl_def add_io_handler_frame adds_slot_handlers)

lemma frame_no_transport: "api_frame ext msgs cap s (fst (ensure_fd_no_transport fd s))"
  by (simp add: ensure_fd_no_transport_def)

lemma frame_autoclose: "api_frame ext msgs cap s (autoclose fd s)"
  unfolding autoclose_def by (rule api_frameI) (simp_all add: core_def io_core_def)

lemma frame_no_autoclose: "api_frame ext msgs cap s (fst (no_autoclose fd s))"
  unfolding no_autoclose_def by (auto intro!: api_frameI simp: core_def io_core_def)

lemma fut_done_mono:
  "api_frame ext msgs cap s s' \<Longrightarrow> f < next_fid s \<Longrightarrow> fut_done f s \<Longrightarrow> fut_done f s'"
  using api_frame_future [of ext msgs cap s s' f] by (auto simp: future_frame_def fut_done_def)

lemma next_fid_upd [simp]: "next_fid (upd_future f g s) = next_fid s" "next_fid (upd_handle h k s) = next_fid s"
  by (simp_all add: upd_future_def upd_handle_def)

lemma finish_facts:
  "handle_future k (finish h s) = handle_future k s" "next_fid (finish h s) = next_fid s"
  "futures (finish h s) = futures s" "hfinished (handles (finish h s) h)"
  "hcancel_message (handles (finish h s) k) = hcancel_message (handles s k)"
  by (simp_all add: finish_def upd_handle_def handle_future_def)

section \<open>The contract\<close>

locale loop_methods = memory_channel C msgs cap
  for C :: "'q channel_ops" and msgs :: "'q \<Rightarrow> hid list" and cap :: "'q \<Rightarrow> nat option" +
  fixes ext :: "'z \<Rightarrow> 'z \<Rightarrow> bool"
    and M :: "('q, 'z) loop_scheme methods"
  assumes queue_appends: "appends msgs cap (m_queue_handle M)"
    and stop_frame: "api_frame ext msgs cap s (fst (m_stop M w s))"
    and do_stop_frame: "api_frame ext msgs cap s (fst (m_do_stop M s))"
    and is_done_frame: "api_frame ext msgs cap s (fst (m_is_done M f n s))"
    and io_cancel_frame: "api_frame ext msgs cap s (fst (m_io_cancel M h s))"
    and add_reader_frame: "api_frame ext msgs cap s (fst (m_add_reader M fd cb s))"
    and add_writer_frame: "api_frame ext msgs cap s (fst (m_add_writer M fd cb s))"
    and handler_frame: "api_frame ext msgs cap s (fst (m_default_exception_handler M ctx s))"
begin

lemmas alloc_queue_frame = appends_frame [OF queue_appends]
  and queue_new_frame = appends_queue_new_frame [OF queue_appends]

text \<open>A future and its handle are made.\<close>

lemma trio_pair_frame:
  assumes a: "alloc_future s = (s1, f)" and b: "alloc_handle (AsyncHandle (Some f)) proc s1 = (s2, h)"
  shows "api_frame ext msgs cap s (upd_future f (\<lambda>x. x\<lparr>fwrapped := Some h\<rparr>) s2)"
proof (rule api_frameI)
  show "fut_frame s (upd_future f (\<lambda>x. x\<lparr>fwrapped := Some h\<rparr>) s2)"
    by (rule fut_frame_pair [where x = "new_handle_obj (AsyncHandle (Some f)) proc"
          and y = "\<lparr>fstate = Pending, fcallbacks = [], fwrapped = Some h\<rparr>"])
      (use a b in \<open>auto simp: alloc_handle_def alloc_future_def upd_future_def new_handle_obj_def\<close>)
qed (use a b in \<open>auto simp: alloc_handle_def alloc_future_def upd_future_def core_def io_core_def\<close>)

lemma trio_as_future_frame: "api_frame ext msgs cap s (fst (trio_as_future M proc s))"
proof -
  obtain s1 f where a: "alloc_future s = (s1, f)" by fastforce
  obtain s2 h where b: "alloc_handle (AsyncHandle (Some f)) proc s1 = (s2, h)" by fastforce
  let ?s3 = "upd_future f (\<lambda>x. x\<lparr>fwrapped := Some h\<rparr>) s2"
  have "next_hid s \<le> h" "h < next_hid ?s3"
    using a b by (auto simp: alloc_handle_def alloc_future_def upd_future_def)
  with trio_pair_frame [OF a b] have "api_frame ext msgs cap s (fst (m_queue_handle M h ?s3))"
    by (rule alloc_queue_frame)
  then show ?thesis
    by (cases "m_queue_handle M h ?s3")
      (auto simp: trio_as_future_def a b py_bind_def split: sum.split)
qed

lemmas schedule_frames = frame_check_closed frame_check_callback frame_loop_time queue_new_frame

lemma call_soon_frame: "api_frame ext msgs cap s (fst (call_soon M cb s))"
  unfolding call_soon_def by (intro frame_bind schedule_frames) simp

lemma call_at_frame: "api_frame ext msgs cap s (fst (call_at M t cb s))"
  unfolding call_at_def by (intro frame_bind schedule_frames) simp

lemma call_later_frame: "api_frame ext msgs cap s (fst (call_later M d cb s))"
  unfolding call_later_def
  by (intro frame_bind schedule_frames) (auto intro!: frame_bind schedule_frames)

lemma run_trio_task_frame: "api_frame ext msgs cap s (fst (run_trio_task M p s))"
  unfolding run_trio_task_def by (rule queue_new_frame) simp

lemma call_soon_all_frame: "api_frame ext msgs cap s (fst (call_soon_all M cbs s))"
  by (induction cbs arbitrary: s) (auto intro!: frame_bind call_soon_frame)

lemma scoped_cancel_frame: "api_frame ext msgs cap s (fst (scoped_cancel M h s))"
  unfolding scoped_cancel_def scoped_cancel_by_def
  using frame_handle_cancel io_cancel_frame by (rule api_frame_trans)

lemma cancel_handle_frame: "api_frame ext msgs cap s (fst (cancel_handle M h s))"
  by (simp add: cancel_handle_def scoped_cancel_frame frame_handle_cancel split: hkind.split)

lemma add_reader_api_frame: "api_frame ext msgs cap s (fst (add_reader M fd cb s))"
  unfolding add_reader_def by (intro frame_bind frame_no_transport add_reader_frame)

lemma add_writer_api_frame: "api_frame ext msgs cap s (fst (add_writer M fd cb s))"
  unfolding add_writer_def by (intro frame_bind frame_no_transport add_writer_frame)

lemma take_slot_frame:
  assumes "io_inv s \<Longrightarrow> slot_set (selector s) fd reading None sel" and "old = slot (selector s) fd reading"
  shows "api_frame ext msgs cap s (fst (take_slot M sel old s))"
proof -
  have f: "api_frame ext msgs cap s
      (case old of None \<Rightarrow> s\<lparr>selector := sel\<rparr> | Some h \<Rightarrow> handle_cancel h (s\<lparr>selector := sel\<rparr>))"
    by (rule frame_slot [where x = None]) (use assms in auto)
  show ?thesis
  proof (cases old)
    case None
    then show ?thesis using f by (simp add: take_slot_def)
  next
    case (Some h)
    then have "api_frame ext msgs cap s (fst (scoped_cancel M h (s\<lparr>selector := sel\<rparr>)))"
      using f api_frame_trans [OF _ io_cancel_frame] by (simp add: scoped_cancel_def scoped_cancel_by_def)
    then show ?thesis
      using Some by (cases "scoped_cancel M h (s\<lparr>selector := sel\<rparr>)") (simp add: take_slot_def py_bind_def split: sum.split)
  qed
qed

lemma remove_reader_impl_frame: "api_frame ext msgs cap s (fst (remove_reader_impl M fd s))"
proof (cases "map_of (selector s) fd")
  case (Some k)
  have "api_frame ext msgs cap s (fst (take_slot M (if \<not> ev_write k then sel_unregister fd (selector s)
      else sel_modify fd (k\<lparr>ev_read := False, reader := None\<rparr>) (selector s)) (reader k) s))"
    by (rule take_slot_frame [OF remove_slot_read [OF Some io_inv_selector]]) (simp_all add: slot_def Some)
  then show ?thesis by (simp only: remove_reader_impl_def Some) simp
qed (simp add: remove_reader_impl_def)

lemma remove_writer_impl_frame: "api_frame ext msgs cap s (fst (remove_writer_impl M fd s))"
proof (cases "map_of (selector s) fd")
  case (Some k)
  have "api_frame ext msgs cap s (fst (take_slot M (if \<not> ev_read k then sel_unregister fd (selector s)
      else sel_modify fd (k\<lparr>ev_write := False, writer := None\<rparr>) (selector s)) (writer k) s))"
    by (rule take_slot_frame [OF remove_slot_write [OF Some io_inv_selector]]) (simp_all add: slot_def Some)
  then show ?thesis by (simp only: remove_writer_impl_def Some) simp
qed (simp add: remove_writer_impl_def)

lemma remove_reader_frame: "api_frame ext msgs cap s (fst (remove_reader M fd s))"
  unfolding remove_reader_def by (intro frame_bind frame_no_transport remove_reader_impl_frame)

lemma remove_writer_frame: "api_frame ext msgs cap s (fst (remove_writer M fd s))"
  unfolding remove_writer_def by (intro frame_bind frame_no_transport remove_writer_impl_frame)

lemma fut_resolve_frame: "\<not> fut_done f s \<Longrightarrow> api_frame ext msgs cap s (fst (fut_resolve M f st s))"
  unfolding fut_resolve_def
  by (rule api_frame_trans [OF frame_upd_future call_soon_all_frame])
    (simp_all add: future_frame_def fut_done_def)

lemma fut_orig_cancel_frame: "api_frame ext msgs cap s (fst (fut_orig_cancel M f msg s))"
  by (auto simp: fut_orig_cancel_def intro!: frame_bind fut_resolve_frame)

lemma fut_set_result_frame: "api_frame ext msgs cap s (fst (fut_set_result M f r s))"
  by (auto simp: fut_set_result_def intro!: fut_resolve_frame)

lemma fut_set_exception_frame: "api_frame ext msgs cap s (fst (fut_set_exception M f e s))"
  by (auto simp: fut_set_exception_def intro!: fut_resolve_frame)

lemma add_done_callback_frame: "api_frame ext msgs cap s (fst (add_done_callback M f cb s))"
  by (auto simp: add_done_callback_def future_frame_def intro!: frame_upd_future frame_bind call_soon_frame)

lemma wrapped_cancel_frame: "api_frame ext msgs cap s (fst (wrapped_cancel M h f msg s))"
proof -
  have "api_frame ext msgs cap s (fst (py_bind (scoped_cancel M h) (\<lambda>_. py_return True)
      (upd_handle h (\<lambda>x. x\<lparr>hcancel_message := m\<rparr>) s)))" for m
    by (rule api_frame_trans [OF frame_upd_handle frame_bind])
      (auto simp: handle_frame_def intro: scoped_cancel_frame)
  then show ?thesis by (simp add: wrapped_cancel_def fut_orig_cancel_frame)
qed

lemma fut_cancel_frame: "api_frame ext msgs cap s (fst (fut_cancel M f msg s))"
  by (simp add: fut_cancel_def fut_orig_cancel_frame wrapped_cancel_frame split: option.split)

lemma synchronize_begin_frame: "api_frame ext msgs cap s (fst (synchronize_begin M s))"
proof -
  obtain s1 w where a: "alloc_event s = (s1, w)" by fastforce
  have "api_frame ext msgs cap s s1" using frame_alloc_event [of ext msgs cap s] a by simp
  moreover have "api_frame ext msgs cap s1
      (fst (py_bind (queue_new (m_queue_handle M) PlainHandle (SetEvent w)) (\<lambda>_. py_return w) s1))"
    by (rule frame_bind) (auto intro: queue_new_frame)
  ultimately show ?thesis
    by (auto simp: synchronize_begin_def a intro: api_frame_trans)
qed

lemmas op_frames = call_soon_frame call_later_frame call_at_frame frame_call_soon_threadsafe
  trio_as_future_frame run_trio_task_frame cancel_handle_frame fut_cancel_frame
  add_done_callback_frame stop_frame frame_alloc_future fut_set_result_frame fut_set_exception_frame
  add_reader_api_frame add_writer_api_frame remove_reader_frame remove_writer_frame frame_autoclose frame_no_autoclose

lemma exec_api_frame: "api_frame ext msgs cap s (fst (exec_api M a s))"
  by (cases a) (auto intro: op_frames frame_discard)

lemma exec_apis_frame: "api_frame ext msgs cap s (fst (exec_apis M as s))"
  by (induction as arbitrary: s) (auto intro!: frame_bind exec_api_frame)

lemma run_trace_frame: "api_frame ext msgs cap s (fst (run_trace M t s))"
  unfolding run_trace_def by (rule frame_bind) (auto intro: exec_apis_frame split: option.split)

lemma run_callback_frame: "api_frame ext msgs cap s (fst (run_callback M cb s))"
  by (cases cb) (simp_all add: frame_set_event do_stop_frame is_done_frame run_trace_frame)

lemma call_exception_handler_frame: "api_frame ext msgs cap s (fst (call_exception_handler M ctx s))"
  using handler_frame [of s ctx]
  by (cases "m_default_exception_handler M ctx s") (auto simp: call_exception_handler_def split: sum.split)

lemma handle_run_frame: "api_frame ext msgs cap s (fst (handle_run M h s))"
proof -
  obtain s1 r where a: "(case hcallback (handles s h) of None \<Rightarrow> py_raise TypeError s
            | Some cb \<Rightarrow> run_callback M cb s) = (s1, r)" by fastforce
  then have "api_frame ext msgs cap s s1"
    using run_callback_frame [of s] by (auto split: option.splits, metis fst_conv)
  then show ?thesis
    using api_frame_trans [OF _ call_exception_handler_frame]
    by (auto simp: handle_run_def a split: sum.split)
qed

lemma frame_mark_handle: "api_frame ext msgs cap s (upd_handle h (\<lambda>x. x\<lparr>hstarted := True\<rparr>) s)"
  by (rule frame_upd_handle) (simp_all add: handle_frame_def)

lemma pre_frame_finish: "pre_frame ext msgs cap s (finish h s)"
  unfolding finish_def by (rule pre_frame_upd_handle) (simp add: handle_frame_def)

text \<open>Finishing a handle and going on to a state in which its future is resolved.\<close>

lemma finish_frame:
  assumes f: "api_frame ext msgs cap (finish h s) s'"
    and res: "\<And>f. handle_future h s = Some f \<Longrightarrow> f < next_fid s \<Longrightarrow> fwrapped (futures s f) = Some h \<Longrightarrow> fut_done f s'"
  shows "api_frame ext msgs cap s s'"
proof -
  have p: "pre_frame ext msgs cap s s'" by (rule pre_frame_trans [OF pre_frame_finish api_frame_pre [OF f]])
  have "fut_inv H s'" if inv: "fut_inv H s" for H
  proof (cases "h < next_hid s")
    case True
    have "fut_inv (insert h H) s'"
      by (rule fut_frameD [OF api_frame_fut [OF f] fut_inv_finish [OF inv]]) auto
    then show ?thesis
    proof (rule fut_inv_resolved)
      fix g
      assume "kind (handles s' h) = AsyncHandle (Some g)"
      then have k: "kind (handles s h) = AsyncHandle (Some g)"
        using pre_frame_handle [OF p True] by (simp add: handle_frame_def)
      then show "fstate (futures s' g) \<noteq> Pending"
        using res [of g] fut_inv_handle [OF inv True k] by (simp add: handle_future_def fut_done_def)
    qed
  next
    case False
    show ?thesis
      by (rule fut_frameD [OF api_frame_fut [OF f] fut_inv_finish [OF inv]]) (use False in auto)
  qed
  then show ?thesis using p by (simp add: api_frame_def fut_frame_def)
qed

lemma async_propagate_frame: "api_frame ext msgs cap s (fst (async_propagate M h b s))"
  by (auto simp: async_propagate_def split: body.split option.split
      intro: frame_discard fut_cancel_frame fut_set_result_frame)

lemma opt_raise_frame: "api_frame ext msgs cap s (fst (opt_raise e s))"
  by (simp add: opt_raise_def split: option.split)

lemma async_except_frame: "api_frame ext msgs cap s (fst (async_except M h e s))"
  by (auto simp: async_except_def handle_raise_def split: option.split prod.split
      intro!: frame_bind opt_raise_frame call_exception_handler_frame fut_set_exception_frame
        frame_discard fut_cancel_frame)

text \<open>The future of a finished handle is resolved.\<close>

lemma fut_resolve_state:
  assumes "f < next_fid s" and "st \<noteq> Pending"
  shows "fstate (futures (fst (fut_resolve M f st s)) f) = st"
proof -
  let ?s = "upd_future f (\<lambda>x. x\<lparr>fstate := st, fcallbacks := []\<rparr>) s"
  have "api_frame ext msgs cap ?s (fst (fut_resolve M f st s))"
    unfolding fut_resolve_def by (rule call_soon_all_frame)
  from api_frame_future [OF this] assms show ?thesis by (simp add: future_frame_def upd_future_def)
qed

lemma fut_orig_cancel_done: "f < next_fid s \<Longrightarrow> fut_done f (fst (fut_orig_cancel M f msg s))"
  using fut_resolve_state [of f s "FCancelled msg"]
  by (cases "fut_resolve M f (FCancelled msg) s")
    (auto simp: fut_orig_cancel_def py_bind_def fut_done_def split: sum.split)

lemma fut_cancel_done:
  "f < next_fid s \<Longrightarrow> fwrapped (futures s f) = Some h \<Longrightarrow> hfinished (handles s h) \<Longrightarrow>
   fut_done f (fst (fut_cancel M f msg s))"
  by (simp add: fut_cancel_def wrapped_cancel_def fut_orig_cancel_done)

lemma fut_set_result_done: "f < next_fid s \<Longrightarrow> fut_done f (fst (fut_set_result M f v s))"
  using fut_resolve_state [of f s "FResult v"] by (simp add: fut_set_result_def fut_done_def)

lemma fut_set_exception_done: "f < next_fid s \<Longrightarrow> fut_done f (fst (fut_set_exception M f e s))"
  using fut_resolve_state [of f s "FException e"] by (simp add: fut_set_exception_def fut_done_def)

lemma discard_state: "fst (discard g s) = fst (g s)"
  by (cases "g s") (auto simp: discard_def py_bind_def split: sum.split)

lemma async_propagate_done:
  assumes "handle_future h s = Some f" and "f < next_fid s" and "fwrapped (futures s f) = Some h"
    and "hfinished (handles s h)"
  shows "fut_done f (fst (async_propagate M h b s)) \<or> (\<exists>e. b = Raised e \<and> async_propagate M h b s = (s, Inl e))"
  using assms fut_cancel_done [OF assms(2,3,4)] fut_set_result_done [OF assms(2)]
  by (cases b) (auto simp: async_propagate_def discard_state fut_done_def fut_cancelled_def split: fstate.splits)

lemma py_bind_done:
  assumes "fut_done f (fst (g s))" and "\<And>s' x. fut_done f s' \<Longrightarrow> fut_done f (fst (k x s'))"
  shows "fut_done f (fst (py_bind g k s))"
  using assms by (cases "g s") (auto simp: py_bind_def split: sum.split)

lemma async_except_done:
  assumes "handle_future h s = Some f" and "f < next_fid s" and "fwrapped (futures s f) = Some h"
    and "hfinished (handles s h)"
  shows "fut_done f (fst (async_except M h e s))"
proof -
  obtain c r where "collapse_aware_exception_split e is_Cancelled = (c, r)" by fastforce
  moreover have "fut_done f (fst ((if \<not> fut_cancelled f s then
      (case r of Some e \<Rightarrow> fut_set_exception M f e | None \<Rightarrow> discard (fut_cancel M f None))
      else py_return ()) s))"
    using fut_cancel_done [OF assms(2,3,4)] fut_set_exception_done [OF assms(2)]
    by (auto simp: discard_state fut_done_def fut_cancelled_def split: option.split fstate.splits)
  ultimately show ?thesis
    by (auto simp: async_except_def assms(1) opt_raise_def split: option.split intro!: py_bind_done)
qed

lemma async_run_end_done:
  assumes "handle_future h s = Some f" and "f < next_fid s" and "fwrapped (futures s f) = Some h"
  shows "fut_done f (fst (async_run_end M h b s))"
proof -
  have fin: "handle_future h (finish h s) = Some f" "f < next_fid (finish h s)"
    "fwrapped (futures (finish h s) f) = Some h" "hfinished (handles (finish h s) h)"
    using assms by (simp_all add: finish_facts)
  from async_propagate_done [OF fin, of b] consider
      (over) "fut_done f (fst (async_propagate M h b (finish h s)))"
    | (raised) e where "async_propagate M h b (finish h s) = (finish h s, Inl e)" by blast
  then show ?thesis
  proof cases
    case over
    obtain s1 r where p: "async_propagate M h b (finish h s) = (s1, r)" by fastforce
    have "api_frame ext msgs cap (finish h s) s1" using async_propagate_frame [of "finish h s" h b] p by simp
    then have "f < next_fid s1" using fin(2) api_frame_next_fid by (blast intro: less_le_trans)
    then have "fut_done f (fst (async_except M h e s1))" for e
      using fut_done_mono [OF async_except_frame, of f s1] over p by simp
    then show ?thesis using over p by (simp add: async_run_end_def split: sum.split)
  next
    case raised
    then show ?thesis
      using async_except_done [OF fin] by (simp add: async_run_end_def)
  qed
qed

lemma async_run_begin_done:
  assumes "handle_future h s = Some f" and "f < next_fid s" and "fwrapped (futures s f) = Some h"
    and c: "hcancelled (handles s h)"
  shows "fut_done f (fst (async_run_begin M h s))"
proof -
  let ?s2 = "finish h (upd_handle h (\<lambda>x. x\<lparr>hstarted := True\<rparr>) s)"
  have s2: "handle_future h ?s2 = Some f" "f < next_fid ?s2" "fwrapped (futures ?s2 f) = Some h" "hfinished (handles ?s2 h)"
    using assms(1-3) by (simp_all add: finish_facts) (simp_all add: upd_handle_def handle_future_def)
  have "fut_done f (fst (py_bind (fut_cancel M f None) (\<lambda>_. py_return False) ?s2))"
    by (rule py_bind_done) (simp_all add: fut_cancel_done [OF s2(2-4)])
  then show ?thesis using c s2(1) by (simp add: async_run_begin_def Let_def upd_handle_def)
qed

lemma async_run_begin_frame: "api_frame ext msgs cap s (fst (async_run_begin M h s))"
proof -
  let ?s1 = "upd_handle h (\<lambda>x. x\<lparr>hstarted := True\<rparr>) s"
  have s1: "api_frame ext msgs cap s ?s1" by (rule frame_mark_handle)
  have fields: "handle_future h ?s1 = handle_future h s" "next_fid ?s1 = next_fid s" "futures ?s1 = futures s"
    "hcancelled (handles ?s1 h) = hcancelled (handles s h)"
    by (simp_all add: upd_handle_def handle_future_def)
  have "api_frame ext msgs cap ?s1 (fst (async_run_begin M h s))" if c: "hcancelled (handles ?s1 h)"
  proof (rule finish_frame)
    show "api_frame ext msgs cap (finish h ?s1) (fst (async_run_begin M h s))"
      using c by (auto simp: async_run_begin_def Let_def intro!: frame_bind fut_cancel_frame split: option.split)
    show "fut_done f (fst (async_run_begin M h s))"
      if "handle_future h ?s1 = Some f" "f < next_fid ?s1" "fwrapped (futures ?s1 f) = Some h" for f
      using async_run_begin_done [of h s f] that c by (simp add: fields)
  qed
  then show ?thesis using api_frame_trans [OF s1] s1 by (cases "hcancelled (handles ?s1 h)") (simp_all add: async_run_begin_def)
qed

lemma async_run_end_frame: "api_frame ext msgs cap s (fst (async_run_end M h b s))"
proof (rule finish_frame)
  obtain s1 r where a: "async_propagate M h b (finish h s) = (s1, r)" by fastforce
  then have "api_frame ext msgs cap (finish h s) s1" using async_propagate_frame [of "finish h s" h b] by simp
  then show "api_frame ext msgs cap (finish h s) (fst (async_run_end M h b s))"
    using api_frame_trans [OF _ async_except_frame] by (auto simp: async_run_end_def a split: sum.split)
  show "fut_done f (fst (async_run_end M h b s))"
    if "handle_future h s = Some f" "f < next_fid s" "fwrapped (futures s f) = Some h" for f
    using that by (rule async_run_end_done)
qed

end

section \<open>The asynchronous loop\<close>

context memory_channel
begin

lemma queue_handle_async_appends: "appends msgs cap (queue_handle_async C)"
  by (rule appendsI)
    (auto simp: queue_handle_async_def py_bind_def check_closed_def
      split: if_splits option.splits dest: send_msgs send_cap)

lemmas alloc_queue_handle_async_frame = appends_queue_new_frame [OF queue_handle_async_appends]

lemma stop_with_frame: "api_frame ext msgs cap s (fst (stop_with C w s))"
  by (auto simp: stop_with_def frame_set_event intro!: frame_bind alloc_queue_handle_async_frame)

lemma stop_async_frame: "api_frame ext msgs cap s (fst (stop_async C w s))"
proof -
  obtain s1 e where a: "alloc_event s = (s1, e)" by fastforce
  then have "api_frame ext msgs cap s s1" using frame_alloc_event [of ext msgs cap s] by simp
  then have "api_frame ext msgs cap s (s1\<lparr>stop_wait := Some e\<rparr>)" if "stop_wait s = None"
    by (rule api_frame_trans) (rule frame_stop_wait, use a that in \<open>auto simp: alloc_event_def\<close>)
  then have "api_frame ext msgs cap s (fst (stop_with C e (s1\<lparr>stop_wait := Some e\<rparr>)))" if "stop_wait s = None"
    using that by (blast intro: api_frame_trans stop_with_frame)
  moreover have "api_frame ext msgs cap s (fst (stop_with C w (if events s w then s\<lparr>events := ev\<rparr> else s)))" for w ev
    by (auto intro: stop_with_frame api_frame_trans [OF frame_events stop_with_frame])
  ultimately show ?thesis by (auto simp: stop_async_def a split: option.split)
qed

lemma default_exception_handler_frame: "api_frame ext msgs cap s (fst (default_exception_handler ctx s))"
  by (simp add: default_exception_handler_def Let_def frame_task_errors)

lemma async_contract: "loop_methods C msgs cap (=) (async_methods C)"
  by unfold_locales
    (simp_all add: queue_handle_async_appends stop_async_frame frame_discard frame_io_cancel
      add_reader_impl_frame add_writer_impl_frame cancels_io_cancel default_exception_handler_frame)

end

interpretation fifo_async: loop_methods fifo_ops fst snd "(=)" "async_methods fifo_ops"
  by (rule fifo.async_contract)

sublocale memory_channel \<subseteq> async: loop_methods C msgs cap "(=)" "async_methods C"
  by (rule async_contract)

lemmas loop_methods_async = memory_channel.async_contract

end
