(* ===== verification/Loop_Invariants.thy ===== *)
theory Loop_Invariants
  imports Loop_Contract "HOL-Library.Sublist"
begin

text \<open>
  The invariant of the main loop, kept by every step of the relation, and the facts about
  whole runs that follow: order of the callbacks, timers, cancelled handles, the way the
  loop ends.
\<close>

section \<open>The invariant\<close>

fun is_timer :: "hkind \<Rightarrow> bool" where
  "is_timer (TimerHandle _) = True"
| "is_timer _ = False"

text \<open>The handles that do not run in the order of the channel: timers, and the handles of
  readers and writers, which never enter it.\<close>

fun unordered :: "hkind \<Rightarrow> bool" where
  "unordered (TimerHandle _) = True"
| "unordered ScopedHandle = True"
| "unordered _ = False"

text \<open>The heap: ordered, of timer handles under their own deadlines.\<close>

definition timers_ok :: "('q, 'z) loop_scheme \<Rightarrow> bool" where
  "timers_ok s \<longleftrightarrow> heap_inv fst (timers s) \<and>
     (\<forall>(w, h) \<in> set (timers s). h < next_hid s \<and> kind (handles s h) = TimerHandle w)"

text \<open>All identities in use are allocated.\<close>

definition ids_ok :: "('q \<Rightarrow> hid list) \<Rightarrow> ('q, 'z) loop_scheme \<Rightarrow> bool" where
  "ids_ok msgs s \<longleftrightarrow>
     (\<forall>h \<in> set (msgs (queue s)) \<union> set (sync_soon s) \<union> set (received s) \<union> set (ran s) \<union>
        set (started_tasks s). h < next_hid s)"

text \<open>What happened to a handle taken from the channel. Trio refuses to start a task once it
  has closed the nursery.\<close>

definition handled :: "('q, 'z) loop_scheme \<Rightarrow> hid \<Rightarrow> bool" where
  "handled s h \<longleftrightarrow>
     (case kind (handles s h) of
        TimerHandle w \<Rightarrow> (w, h) \<in> set (timers s) \<or> h \<in> set (ran s) \<or> hcancelled (handles s h)
      | AsyncHandle _ \<Rightarrow> h \<in> set (started_tasks s) \<or> nursery_closed s
      | _ \<Rightarrow> h \<in> set (ran s) \<or> hcancelled (handles s h))"

text \<open>A timer ran no earlier than its deadline.\<close>

definition on_time :: "('q, 'z) loop_scheme \<Rightarrow> bool" where
  "on_time s \<longleftrightarrow> (\<forall>h \<in> set (ran s). \<forall>w. kind (handles s h) = TimerHandle w \<longrightarrow> w \<le> clock s)"

text \<open>The other handles ran in the order they were received.\<close>

definition in_order :: "('q, 'z) loop_scheme \<Rightarrow> bool" where
  "in_order s \<longleftrightarrow> subseq (filter (\<lambda>h. \<not> unordered (kind (handles s h))) (ran s)) (received s)"

definition loop_inv :: "('q \<Rightarrow> hid list) \<Rightarrow> ('q, 'z) loop_scheme \<Rightarrow> bool" where
  "loop_inv msgs s \<longleftrightarrow> timers_ok s \<and> ids_ok msgs s \<and> nursery s \<and> on_time s \<and> in_order s \<and>
     io_inv s \<and> fut_inv {} s \<and> (\<forall>h \<in> set (received s). handled s h)"

section \<open>How the state evolves\<close>

text \<open>What every step keeps of the state before it: messages are taken from the front of
  the channel and put at its end, the histories grow, handles are only ever cancelled.\<close>

definition evolves ::
  "('z \<Rightarrow> 'z \<Rightarrow> bool) \<Rightarrow> ('q \<Rightarrow> hid list) \<Rightarrow> ('q, 'z) loop_scheme \<Rightarrow> ('q, 'z) loop_scheme \<Rightarrow> bool" where
  "evolves ext msgs s s' \<longleftrightarrow>
     ext\<^sup>*\<^sup>* (loop.more s) (loop.more s') \<and> next_hid s \<le> next_hid s' \<and> clock s \<le> clock s' \<and>
     (\<forall>h < next_hid s. handle_frame (handles s h) (handles s' h)) \<and>
     (\<exists>new. received s' @ msgs (queue s') = received s @ msgs (queue s) @ new) \<and>
     prefix (received s) (received s') \<and> prefix (started_tasks s) (started_tasks s') \<and>
     (\<exists>new. ran s' = ran s @ new \<and> (\<forall>h \<in> set new. h < next_hid s \<longrightarrow> \<not> hcancelled (handles s h))) \<and>
     keeps_stop_wait s s'"

lemma evolves_refl [simp]: "evolves ext msgs s s"
  by (simp add: evolves_def)

lemma evolves_more: "evolves ext msgs s s' \<Longrightarrow> ext\<^sup>*\<^sup>* (loop.more s) (loop.more s')"
  and evolves_next: "evolves ext msgs s s' \<Longrightarrow> next_hid s \<le> next_hid s'"
  and evolves_clock: "evolves ext msgs s s' \<Longrightarrow> clock s \<le> clock s'"
  and evolves_handle: "evolves ext msgs s s' \<Longrightarrow> h < next_hid s \<Longrightarrow> handle_frame (handles s h) (handles s' h)"
  and evolves_fifo: "evolves ext msgs s s' \<Longrightarrow> \<exists>new. received s' @ msgs (queue s') = received s @ msgs (queue s) @ new"
  and evolves_received: "evolves ext msgs s s' \<Longrightarrow> prefix (received s) (received s')"
  and evolves_started: "evolves ext msgs s s' \<Longrightarrow> prefix (started_tasks s) (started_tasks s')"
  and evolves_ran: "evolves ext msgs s s' \<Longrightarrow> \<exists>new. ran s' = ran s @ new \<and>
      (\<forall>h \<in> set new. h < next_hid s \<longrightarrow> \<not> hcancelled (handles s h))"
  and evolves_wait: "evolves ext msgs s s' \<Longrightarrow> keeps_stop_wait s s'"
  unfolding evolves_def by blast+

lemma evolves_trans:
  assumes ab: "evolves ext msgs a b" and bc: "evolves ext msgs b c"
  shows "evolves ext msgs a c"
proof -
  have h: "handle_frame (handles a h) (handles c h)" if "h < next_hid a" for h
    using handle_frame_trans [OF evolves_handle [OF ab that] evolves_handle [OF bc]]
      that evolves_next [OF ab] by simp
  obtain n1 n2 where "received b @ msgs (queue b) = received a @ msgs (queue a) @ n1"
    "received c @ msgs (queue c) = received b @ msgs (queue b) @ n2"
    using evolves_fifo [OF ab] evolves_fifo [OF bc] by blast
  then have "received c @ msgs (queue c) = received a @ msgs (queue a) @ n1 @ n2" by simp
  moreover obtain r1 r2 where r: "ran b = ran a @ r1" "ran c = ran b @ r2"
    "\<forall>h \<in> set r1. h < next_hid a \<longrightarrow> \<not> hcancelled (handles a h)"
    "\<forall>h \<in> set r2. h < next_hid b \<longrightarrow> \<not> hcancelled (handles b h)"
    using evolves_ran [OF ab] evolves_ran [OF bc] by blast
  moreover have "\<forall>h \<in> set (r1 @ r2). h < next_hid a \<longrightarrow> \<not> hcancelled (handles a h)"
    using r evolves_handle [OF ab] evolves_next [OF ab] by (auto simp: handle_frame_def)
  moreover have "\<exists>new. ran c = ran a @ new \<and>
      (\<forall>h \<in> set new. h < next_hid a \<longrightarrow> \<not> hcancelled (handles a h))"
    using calculation by (intro exI [of _ "r1 @ r2"]) simp
  ultimately show ?thesis
    using h rtranclp_trans [OF evolves_more [OF ab] evolves_more [OF bc]]
      order_trans [OF evolves_next [OF ab] evolves_next [OF bc]]
      order_trans [OF evolves_clock [OF ab] evolves_clock [OF bc]]
      prefix_order.trans [OF evolves_received [OF ab] evolves_received [OF bc]]
      prefix_order.trans [OF evolves_started [OF ab] evolves_started [OF bc]]
      keeps_stop_wait_trans [OF evolves_wait [OF ab] evolves_wait [OF bc]]
    unfolding evolves_def by blast
qed

text \<open>An operation of the interface.\<close>

lemma api_frame_fields:
  assumes "api_frame ext msgs cap s s'"
  shows "timers s' = timers s" "stopped s' = stopped s" "closed_flag s' = closed_flag s"
    "nursery s' = nursery s" "task s' = task s" "clock s' = clock s" "sniffio s' = sniffio s"
    "received s' = received s" "ran s' = ran s" "started_tasks s' = started_tasks s"
    "dispatcher s' = dispatcher s" "asyncgen s' = asyncgen s" "nursery_closed s' = nursery_closed s"
    "transports s' = transports s" "closed_fds s' = closed_fds s"
  using api_frame_core [OF assms] by (auto simp: core_def)

lemma frame_evolves: "api_frame ext msgs cap s s' \<Longrightarrow> evolves ext msgs s s'"
proof -
  assume f: "api_frame ext msgs cap s s'"
  then show ?thesis
    using api_frame_queue [OF f] api_frame_next [OF f] api_frame_handle [OF f] api_frame_more [OF f] api_frame_wait [OF f]
    by (auto simp: evolves_def api_frame_fields [OF f])
qed

lemma handled_mono:
  assumes "handled s h" and "handle_frame (handles s h) (handles s' h)"
    and "set (timers s) \<subseteq> set (timers s')" and "set (ran s) \<subseteq> set (ran s')"
    and "set (started_tasks s) \<subseteq> set (started_tasks s')" and "nursery_closed s \<Longrightarrow> nursery_closed s'"
  shows "handled s' h"
  using assms unfolding handled_def handle_frame_def by (cases "kind (handles s h)") auto

lemma frame_inv:
  assumes f: "api_frame ext msgs cap s s'" and inv: "loop_inv msgs s"
  shows "loop_inv msgs s'"
proof -
  note eqs = api_frame_fields [OF f] and le = api_frame_next [OF f]
  have ids: "\<forall>h \<in> set (received s) \<union> set (ran s) \<union> set (started_tasks s). h < next_hid s"
    using inv by (auto simp: loop_inv_def ids_ok_def)
  have kinds: "kind (handles s' h) = kind (handles s h)" if "h < next_hid s" for h
    using api_frame_handle [OF f that] by (simp add: handle_frame_def)
  have "timers_ok s'"
    using inv eqs(1) le kinds by (fastforce simp: loop_inv_def timers_ok_def)
  moreover have "ids_ok msgs s'"
  proof -
    obtain n1 n2 where "msgs (queue s') = msgs (queue s) @ n1" "\<forall>h \<in> set n1. h < next_hid s'"
      "sync_soon s' = sync_soon s @ n2" "\<forall>h \<in> set n2. h < next_hid s'"
      using api_frame_queue [OF f] api_frame_soon [OF f] by blast
    moreover have "\<forall>h \<in> set (msgs (queue s)) \<union> set (sync_soon s). h < next_hid s"
      using inv by (simp add: loop_inv_def ids_ok_def)
    ultimately show ?thesis
      unfolding ids_ok_def eqs using ids le by (auto simp only: set_append Un_iff intro: less_le_trans)
  qed
  moreover have "on_time s'"
    using inv eqs ids kinds by (auto simp: loop_inv_def on_time_def)
  moreover have "filter (\<lambda>h. \<not> unordered (kind (handles s' h))) (ran s') =
      filter (\<lambda>h. \<not> unordered (kind (handles s h))) (ran s)"
    using eqs ids kinds by (intro filter_cong) auto
  then have "in_order s'" using inv eqs by (simp add: loop_inv_def in_order_def)
  moreover have "handled s' h" if "h \<in> set (received s')" for h
    using that inv ids eqs api_frame_handle [OF f, of h]
    by (intro handled_mono [of s h s']) (auto simp: loop_inv_def)
  moreover have "io_inv s'" using inv api_frame_io [OF f] by (simp add: loop_inv_def io_frame_def)
  moreover have "fut_inv {} s'" using inv fut_frameD [OF api_frame_fut [OF f]] by (simp add: loop_inv_def)
  ultimately show ?thesis using inv eqs by (simp add: loop_inv_def)
qed

section \<open>Single steps\<close>

text \<open>Fields outside the invariant's reach may be written freely.\<close>

lemma loop_inv_cong:
  assumes "timers s' = timers s" "queue s' = queue s" "sync_soon s' = sync_soon s"
    "received s' = received s" "ran s' = ran s" "started_tasks s' = started_tasks s"
    "next_hid s' = next_hid s" "handles s' = handles s" "nursery s' = nursery s"
    "clock s \<le> clock s'" "selector s' = selector s" "io_tasks s' = io_tasks s"
    "nursery_closed s \<longrightarrow> nursery_closed s'" "fut_frame s s'"
  shows "loop_inv msgs s \<Longrightarrow> loop_inv msgs s'"
  using assms io_inv_cong [of s' s] fut_frameD [of s s' "{}"]
  by (auto simp: loop_inv_def timers_ok_def ids_ok_def on_time_def in_order_def handled_def
      intro: order_trans split: hkind.splits)

lemma evolves_cong:
  assumes "queue s' = queue s" "received s' = received s" "ran s' = ran s"
    "started_tasks s' = started_tasks s" "next_hid s' = next_hid s" "handles s' = handles s"
    "clock s \<le> clock s'" "loop.more s' = loop.more s" "stop_wait s' = stop_wait s"
  shows "evolves ext msgs s s'"
  using assms by (simp add: evolves_def)

lemma poll_timers_cases:
  obtains (error) e where "poll_timers s = (s, Inl e)"
  | (idle) t where "poll_timers s = (s, Inr (None, t))"
  | (due) w obj ts t where "poll_timers s = (s\<lparr>timers := ts\<rparr>, Inr (Some obj, t))"
      "heappop fst (timers s) = Some ((w, obj), ts)" "w \<le> clock s" "task s"
proof (cases "timers s")
  case Nil
  then show thesis by (intro idle) (simp add: poll_timers_def)
next
  case (Cons x xs)
  obtain w h where x: "x = (w, h)" by fastforce
  show thesis
  proof (cases "task s")
    case False
    then show thesis
      by (intro error) (simp add: poll_timers_def Cons x py_bind_def loop_time_def)
  next
    case True
    show thesis
    proof (cases "w \<le> clock s")
      case le: True
      obtain y ts where pop: "heappop fst (timers s) = Some (y, ts)"
        using heappop_None [of fst "timers s"] Cons by fastforce
      then have "y = (w, h)" using heappop_root [OF pop] Cons x by simp
      with pop le True show thesis
        by (intro due [of ts h "Some (w - clock s)" w])
          (simp_all add: poll_timers_def Cons x py_bind_def loop_time_def Let_def)
    next
      case False
      then show thesis using True
        by (intro idle) (simp add: poll_timers_def Cons x py_bind_def loop_time_def Let_def)
    qed
  qed
qed

text \<open>Taking a due timer off the heap leaves its handle to be run.\<close>

lemma pop_inv:
  assumes inv: "loop_inv msgs s" and pop: "heappop fst (timers s) = Some ((w, obj), ts)"
  shows "timers_ok (s\<lparr>timers := ts\<rparr>)" and "obj < next_hid s"
    and "kind (handles s obj) = TimerHandle w"
    and "\<forall>h \<in> set (received s). h = obj \<or> handled (s\<lparr>timers := ts\<rparr>) h"
proof -
  have m: "mset (timers s) = add_mset (w, obj) (mset ts)" by (rule mset_heappop [OF pop])
  then have elems: "set (timers s) = insert (w, obj) (set ts)"
    by (metis set_mset_add_mset_insert set_mset_mset)
  show "timers_ok (s\<lparr>timers := ts\<rparr>)"
    using inv hq.pop_invar [OF _ pop] elems by (auto simp: loop_inv_def timers_ok_def)
  show "obj < next_hid s" "kind (handles s obj) = TimerHandle w"
    using inv elems by (auto simp: loop_inv_def timers_ok_def)
  show "\<forall>h \<in> set (received s). h = obj \<or> handled (s\<lparr>timers := ts\<rparr>) h"
    using inv elems by (auto simp: loop_inv_def handled_def split: hkind.splits)
qed

text \<open>Whether a handle may be run: a timer that is due, or the handle just received.\<close>

definition runnable :: "('q, 'z) loop_scheme \<Rightarrow> hid \<Rightarrow> bool" where
  "runnable s h \<longleftrightarrow> h < next_hid s \<and>
     (case kind (handles s h) of
        TimerHandle w \<Rightarrow> w \<le> clock s
      | ScopedHandle \<Rightarrow> True
      | _ \<Rightarrow> \<exists>r. received s = r @ [h] \<and>
              subseq (filter (\<lambda>h. \<not> unordered (kind (handles s h))) (ran s)) r)"

text \<open>The invariant but for the handle \<open>obj\<close>, which is about to be run.\<close>

definition loop_inv_but :: "('q \<Rightarrow> hid list) \<Rightarrow> hid \<Rightarrow> ('q, 'z) loop_scheme \<Rightarrow> bool" where
  "loop_inv_but msgs obj s \<longleftrightarrow> timers_ok s \<and> ids_ok msgs s \<and> nursery s \<and> on_time s \<and> in_order s \<and>
     io_inv s \<and> fut_inv {} s \<and> (\<forall>h \<in> set (received s). h = obj \<or> handled s h)"

context loop_methods
begin

lemma run_plain_inv:
  assumes inv: "loop_inv_but msgs obj s" and run: "runnable s obj"
    and k: "\<forall>f. kind (handles s obj) \<noteq> AsyncHandle f" and live: "\<not> hcancelled (handles s obj)"
    and s0: "s0 = s\<lparr>sniffio := Some ''asyncio'', ran := ran s @ [obj]\<rparr>"
    and r: "handle_run M obj s0 = (s', r)"
  shows "loop_inv msgs (s'\<lparr>sniffio := x\<rparr>) \<and> evolves ext msgs s (s'\<lparr>sniffio := x\<rparr>)"
proof -
  have "handled s0 obj" using k by (auto simp: s0 handled_def split: hkind.split)
  moreover have "handled s0 h" if "handled s h" for h
    using that by (rule handled_mono) (auto simp: s0)
  moreover have "in_order s0"
    using inv run by (auto simp: s0 loop_inv_but_def in_order_def runnable_def split: hkind.splits)
  moreover have "on_time s0" "ids_ok msgs s0" "timers_ok s0"
    using inv run by (auto simp: s0 loop_inv_but_def on_time_def ids_ok_def timers_ok_def runnable_def)
  ultimately have inv0: "loop_inv msgs s0" using inv by (auto simp: s0 loop_inv_def loop_inv_but_def)
  have ev0: "evolves ext msgs s s0" using live by (simp add: s0 evolves_def)
  have f: "api_frame ext msgs cap s0 s'" using handle_run_frame [of s0 obj] r by simp
  show ?thesis
    using loop_inv_cong [OF _ _ _ _ _ _ _ _ _ _ _ _ _ _ frame_inv [OF f inv0], of "s'\<lparr>sniffio := x\<rparr>"]
      evolves_trans [OF evolves_trans [OF ev0 frame_evolves [OF f]] evolves_cong, of "s'\<lparr>sniffio := x\<rparr>"]
    by simp
qed

lemma spawn_inv:
  assumes inv: "loop_inv_but msgs obj s" and run: "runnable s obj"
    and k: "kind (handles s obj) = AsyncHandle f"
    and s0: "s0 = s\<lparr>started_tasks := started_tasks s @ [obj]\<rparr>"
    and f: "api_frame ext msgs cap s0 s'"
  shows "loop_inv msgs s' \<and> evolves ext msgs s s'"
proof -
  have "handled s0 obj" using k by (simp add: s0 handled_def)
  moreover have "handled s0 h" if "handled s h" for h
    using that by (rule handled_mono) (auto simp: s0)
  moreover have "on_time s0" "ids_ok msgs s0" "timers_ok s0" "in_order s0"
    using inv run by (auto simp: s0 loop_inv_but_def on_time_def ids_ok_def timers_ok_def in_order_def runnable_def)
  ultimately have inv0: "loop_inv msgs s0" using inv by (auto simp: s0 loop_inv_def loop_inv_but_def)
  have "evolves ext msgs s s0" by (simp add: s0 evolves_def)
  then show ?thesis using frame_inv [OF f inv0] frame_evolves [OF f] evolves_trans by blast
qed

lemma dispatch_inv:
  assumes inv: "loop_inv_but msgs obj s" and run: "runnable s obj" and d: "dispatch M obj s = (s', r)"
  shows "loop_inv msgs s' \<and> evolves ext msgs s s'"
proof (cases "\<exists>f. kind (handles s obj) = AsyncHandle f")
  case True
  then obtain f where k: "kind (handles s obj) = AsyncHandle f" ..
  let ?s0 = "s\<lparr>started_tasks := started_tasks s @ [obj]\<rparr>"
  obtain s1 q where b: "async_run_begin M obj ?s0 = (s1, q)" by fastforce
  have f1: "api_frame ext msgs cap ?s0 s1" using async_run_begin_frame [of ?s0 obj] b by simp
  show ?thesis
  proof (cases "nursery_closed s")
    case True
    then have "s' = s" "handled s obj"
      using d inv k by (auto simp: dispatch_def loop_inv_but_def handled_def)
    then show ?thesis using inv by (auto simp: loop_inv_def loop_inv_but_def)
  next
    case False
    then have "s' = s1 \<or> (\<exists>es. s' = s1\<lparr>task_errors := es\<rparr>)"
      using d inv b k by (auto simp: dispatch_def loop_inv_but_def split: sum.splits)
    then have "api_frame ext msgs cap ?s0 s'"
      using f1 api_frame_trans [OF f1 frame_task_errors] by auto
    then show ?thesis by (rule spawn_inv [OF inv run k refl])
  qed
next
  case False
  then have k: "\<forall>f. kind (handles s obj) \<noteq> AsyncHandle f" by simp
  show ?thesis
  proof (cases "hcancelled (handles s obj)")
    case True
    then have s': "s' = s" using d k by (auto simp: dispatch_def split: hkind.splits)
    have "handled s obj" using True k by (auto simp: handled_def split: hkind.splits)
    then show ?thesis using inv s' by (auto simp: loop_inv_def loop_inv_but_def)
  next
    case False
    let ?s0 = "s\<lparr>sniffio := Some ''asyncio'', ran := ran s @ [obj]\<rparr>"
    obtain s1 q where b: "handle_run M obj ?s0 = (s1, q)" by fastforce
    then have "s' = s1\<lparr>sniffio := sniffio s\<rparr>"
      using d k False by (auto simp: dispatch_def split: hkind.splits)
    then show ?thesis using run_plain_inv [OF inv run k False refl b] by simp
  qed
qed

text \<open>Receiving, then putting a timer on the heap or running the handle.\<close>

lemma receive_cases:
  assumes "receive C s = Some (h, s1)"
  shows "\<exists>q. s1 = s\<lparr>queue := q, received := received s @ [h]\<rparr> \<and> msgs (queue s) = h # msgs q"
  using assms by (auto simp: receive_def split: option.splits dest: receive_msgs)

lemma accept_inv:
  assumes inv: "loop_inv msgs s" and rc: "receive C s = Some (h, s1)" and a: "accept M h s1 = (s', r)"
  shows "loop_inv msgs s' \<and> evolves ext msgs s s'"
proof -
  obtain q where s1: "s1 = s\<lparr>queue := q, received := received s @ [h]\<rparr>"
    and m: "msgs (queue s) = h # msgs q"
    using receive_cases [OF rc] by auto
  have h: "h < next_hid s" using inv m by (simp add: loop_inv_def ids_ok_def)
  have ev: "evolves ext msgs s s1" by (simp add: s1 evolves_def m)
  have hd: "handled s1 x" if "handled s x" for x
    using that by (rule handled_mono) (auto simp: s1)
  have inv1: "timers_ok s1" "ids_ok msgs s1" "nursery s1" "on_time s1" "in_order s1"
    using inv m by (auto simp: s1 loop_inv_def timers_ok_def ids_ok_def on_time_def in_order_def
        intro: subseq_rev_drop_many)
  show ?thesis
  proof (cases "is_timer (kind (handles s h))")
    case True
    then obtain w where k: "kind (handles s h) = TimerHandle w" by (cases "kind (handles s h)") auto
    then have s': "s' = s1\<lparr>timers := heappush fst (timers s1) (w, h)\<rparr>"
      using a by (auto simp: accept_def s1)
    have elems: "set (timers s') = insert (w, h) (set (timers s1))"
      using arg_cong [OF mset_heappush [of fst "timers s1" "(w, h)"], of set_mset] by (simp add: s')
    have "timers_ok s'"
      using inv1(1) hq.push_invar [of "timers s1" "(w, h)"] elems h k
      by (auto simp: timers_ok_def s' s1)
    moreover have "handled s' h" using k elems by (simp add: handled_def s' s1)
    moreover have "handled s' x" if "handled s x" for x
      using hd [OF that] by (rule handled_mono) (use elems in \<open>auto simp: s' s1\<close>)
    moreover have "ids_ok msgs s'" "nursery s'" "on_time s'" "in_order s'"
      using inv1 by (auto simp: s' ids_ok_def on_time_def in_order_def)
    ultimately have "loop_inv msgs s'" using inv by (auto simp: loop_inv_def s' s1)
    moreover have "evolves ext msgs s s'" using ev by (simp add: evolves_def keeps_stop_wait_def s')
    ultimately show ?thesis by simp
  next
    case False
    then have "dispatch M h s1 = (s', r)"
      using a by (auto simp: accept_def s1 split: hkind.splits)
    moreover have "loop_inv_but msgs h s1"
      using inv inv1 hd by (auto simp: loop_inv_but_def loop_inv_def s1)
    moreover have "runnable s1 h"
      using False h inv by (auto simp: runnable_def s1 loop_inv_def in_order_def split: hkind.split)
    ultimately show ?thesis using dispatch_inv evolves_trans [OF ev] by blast
  qed
qed

lemma poll_dispatch_inv:
  assumes inv: "loop_inv msgs s" and p: "poll_timers s = (s1, Inr (Some obj, t))"
    and d: "dispatch M obj s1 = (s', r)"
  shows "loop_inv msgs s' \<and> evolves ext msgs s s'"
proof -
  from p obtain w ts where s1: "s1 = s\<lparr>timers := ts\<rparr>"
    and pop: "heappop fst (timers s) = Some ((w, obj), ts)" and w: "w \<le> clock s"
    by (cases s rule: poll_timers_cases) auto
  note pi = pop_inv [OF inv pop]
  have "loop_inv_but msgs obj s1"
    using inv pi by (auto simp: s1 loop_inv_but_def loop_inv_def ids_ok_def on_time_def in_order_def)
  moreover have "runnable s1 obj" using pi w by (simp add: s1 runnable_def)
  moreover have "evolves ext msgs s s1" by (simp add: s1 evolves_cong)
  ultimately show ?thesis using dispatch_inv [OF _ _ d] evolves_trans by blast
qed

end

end
