(* ===== verification/Loop_Runs.thy ===== *)
theory Loop_Runs
  imports Loop_Invariants
begin

text \<open>
  Runs of the main loop: the invariant in every reachable state, how long the loop may
  sleep, and that a pending stop callback ends it.
\<close>

section \<open>Reachable states\<close>

text \<open>The loop sleeps until the least deadline on its heap.\<close>

definition root_deadline :: "('q, 'z) loop_scheme \<Rightarrow> instant option" where
  "root_deadline s = (case timers s of [] \<Rightarrow> None | (w, _) # _ \<Rightarrow> Some w)"

fun pc_ok :: "('q, 'z) loop_scheme \<Rightarrow> pc \<Rightarrow> bool" where
  "pc_ok s (Exited _) = stopped s"
| "pc_ok s Top = (\<not> stopped s)"
| "pc_ok s (Waiting d) = (\<not> stopped s \<and> d = root_deadline s)"

definition conf_inv :: "('q \<Rightarrow> hid list) \<Rightarrow> ('q, 'z) loop_scheme \<times> pc \<Rightarrow> bool" where
  "conf_inv msgs c \<longleftrightarrow> loop_inv msgs (fst c) \<and> pc_ok (fst c) (snd c)"

text \<open>The fields that only entering and leaving the loop write.\<close>

definition outer :: "('q, 'z) loop_scheme \<Rightarrow> _" where
  "outer s = (closed_flag s, nursery s, nursery_closed s, task s, token s, asyncgen s, dispatcher s, closed_fds s, program s)"

text \<open>What running one handle leaves as it is.\<close>

definition run_frame :: "('q \<Rightarrow> hid list) \<Rightarrow> ('q, 'z) loop_scheme \<Rightarrow> ('q, 'z) loop_scheme \<Rightarrow> bool" where
  "run_frame msgs s s' \<longleftrightarrow> outer s' = outer s \<and> timers s' = timers s \<and> stopped s' = stopped s \<and> task s' = task s \<and>
     clock s' = clock s \<and> sniffio s' = sniffio s \<and> received s' = received s \<and>
     (\<exists>new. msgs (queue s') = msgs (queue s) @ new)"

lemma api_run_frame: "api_frame ext msgs cap s s' \<Longrightarrow> run_frame msgs s s'"
  using api_frame_queue [of ext msgs cap s s'] api_frame_core [of ext msgs cap s s']
  by (auto simp: run_frame_def api_frame_fields outer_def core_def)

lemma api_outer: "api_frame ext msgs cap s s' \<Longrightarrow> outer s' = outer s"
  by (drule api_run_frame) (simp add: run_frame_def)

lemma io_step_cases:
  assumes "io_step M h wake s pc = (s', pc')"
  obtains (quiet) "s' = s"
  | (failed) e where "io_except M e s = (s', pc')" "pc = IoWaiting" "wake = IoRaise e"
  | (runs) "\<not> hcancelled (handles s h)" "pc = IoWaiting" "wake = IoReady" "io_run M h s = (s', pc')"
proof -
  have "s' = s \<or> (\<exists>e. pc = IoWaiting \<and> wake = IoRaise e \<and> io_except M e s = (s', pc')) \<or>
      pc = IoWaiting \<and> wake = IoReady \<and> \<not> hcancelled (handles s h) \<and> io_run M h s = (s', pc')"
    using assms by (simp add: io_step_def split: io_pc.splits io_wake.splits if_splits)
  then show ?thesis using that by blast
qed

context loop_methods
begin

lemma dispatch_frame:
  assumes "dispatch M obj s = (s', r)"
  shows "run_frame msgs s s'"
proof (cases "\<exists>f. kind (handles s obj) = AsyncHandle f")
  case True
  let ?s0 = "s\<lparr>started_tasks := started_tasks s @ [obj]\<rparr>"
  obtain s1 q where b: "async_run_begin M obj ?s0 = (s1, q)" by fastforce
  have "run_frame msgs ?s0 s1"
    using api_run_frame [OF async_run_begin_frame [of ?s0 obj]] b by simp
  moreover have "s' = s \<or> s' = s1 \<or> (\<exists>es. s' = s1\<lparr>task_errors := es\<rparr>)"
    using assms True b by (auto simp: dispatch_def split: sum.splits if_splits)
  ultimately show ?thesis by (elim disjE exE) (simp_all add: run_frame_def outer_def)
next
  case False
  let ?s0 = "s\<lparr>sniffio := Some ''asyncio'', ran := ran s @ [obj]\<rparr>"
  obtain s1 q where b: "handle_run M obj ?s0 = (s1, q)" by fastforce
  have "run_frame msgs ?s0 s1"
    using api_run_frame [OF handle_run_frame [of ?s0 obj]] b by simp
  moreover have "s' = s \<or> s' = s1\<lparr>sniffio := sniffio s\<rparr>"
    using assms False b by (auto simp: dispatch_def split: hkind.splits if_splits)
  ultimately show ?thesis by (elim disjE exE) (simp_all add: run_frame_def outer_def)
qed

lemma after_one_inv:
  assumes "loop_inv msgs s" and "\<not> stopped s" and "after_one (s, r) = c"
  shows "conf_inv msgs c \<and> evolves ext msgs s (fst c)"
  using assms loop_inv_cong [of "s\<lparr>stopped := True\<rparr>" s msgs] evolves_cong [of "s\<lparr>stopped := True\<rparr>" s ext msgs]
  by (auto simp: after_one_def leave_loop_def conf_inv_def split: sum.splits)

lemma loop_top_inv:
  assumes inv: "loop_inv msgs s" and run: "\<not> stopped s"
  shows "conf_inv msgs (loop_top M s) \<and> evolves ext msgs s (fst (loop_top M s))"
proof (cases s rule: poll_timers_cases)
  case (error e)
  then show ?thesis using after_one_inv [OF inv run, of "Inl e"] run
    by (simp add: loop_top_def after_one_def)
next
  case (idle t)
  have "map_option ((+) (clock s)) t = root_deadline s"
    using idle run by (auto simp: poll_timers_def root_deadline_def py_bind_def loop_time_def Let_def
        split: list.splits if_splits option.splits)
  then show ?thesis using idle inv run by (simp add: loop_top_def conf_inv_def)
next
  case (due w obj ts t)
  let ?s1 = "s\<lparr>timers := ts\<rparr>"
  obtain s2 r where d: "dispatch M obj ?s1 = (s2, r)" by fastforce
  have "loop_inv msgs s2 \<and> evolves ext msgs s s2" by (rule poll_dispatch_inv [OF inv due(1) d])
  moreover have "\<not> stopped s2" using dispatch_frame [OF d] run by (simp add: run_frame_def)
  moreover have eq: "loop_top M s = after_one (s2, r)" using due(1) d run by (simp add: loop_top_def)
  ultimately show ?thesis unfolding eq
    using after_one_inv [of s2 r "after_one (s2, r)"] evolves_trans [of ext msgs s s2] by simp
qed

lemma loop_receive_inv:
  assumes inv: "loop_inv msgs s" and run: "\<not> stopped s" and c: "loop_receive C M s = Some c"
  shows "conf_inv msgs c \<and> evolves ext msgs s (fst c)"
proof -
  obtain h s1 where rc: "receive C s = Some (h, s1)" and c': "c = after_one (accept M h s1)"
    using c by (auto simp: loop_receive_def split: option.splits)
  obtain s2 r where a: "accept M h s1 = (s2, r)" by fastforce
  have "\<not> stopped s1" using receive_cases [OF rc] run by auto
  then have "\<not> stopped s2"
    using a dispatch_frame [of h s1 s2 r] by (auto simp: accept_def run_frame_def split: hkind.splits)
  then show ?thesis
    using accept_inv [OF inv rc a] after_one_inv [of s2 r c] c' a evolves_trans by auto
qed

lemma frame_conf:
  assumes "api_frame ext msgs cap s s'" and "conf_inv msgs (s, p)"
  shows "conf_inv msgs (s', p) \<and> evolves ext msgs s s'"
  using assms frame_inv [OF assms(1)] frame_evolves [OF assms(1)] api_frame_fields [OF assms(1)]
  by (cases p) (auto simp: conf_inv_def root_deadline_def)

lemma soon_inv:
  assumes inv: "loop_inv msgs s" and r: "run_sync_soon_one C s = (s', Inr u)"
  shows "loop_inv msgs s' \<and> evolves ext msgs s s' \<and> stopped s' = stopped s \<and> timers s' = timers s"
proof (cases "sync_soon s")
  case Nil
  then show ?thesis using r inv by (simp add: run_sync_soon_one_def)
next
  case (Cons h hs)
  then obtain q where q: "send_nowait C (queue s) h = Some q" and s': "s' = s\<lparr>sync_soon := hs, queue := q\<rparr>"
    using r by (auto simp: run_sync_soon_one_def Let_def split: option.splits)
  note m = send_msgs [OF q]
  have "loop_inv msgs s'"
    using inv Cons m by (auto simp: loop_inv_def s' timers_ok_def ids_ok_def on_time_def in_order_def
        handled_def split: hkind.splits)
  moreover have "evolves ext msgs s s'" by (simp add: evolves_def s' m)
  ultimately show ?thesis by (simp add: s')
qed

text \<open>The task of a reader or writer goes on: nothing happens, \<open>wait_ready\<close> failed, or the
  handle is run.\<close>

lemma io_except_frame: "api_frame ext msgs cap s (fst (io_except M e s))"
  using call_exception_handler_frame [of s "(Some e, Some ''Exception in callback'')"]
  by (cases "call_exception_handler M (Some e, Some ''Exception in callback'') s")
    (simp add: io_except_def split: sum.split)

lemma io_run_frame: "api_frame ext msgs cap (s\<lparr>ran := ran s @ [h]\<rparr>) (fst (io_run M h s))"
proof -
  let ?f = "py_bind (handle_run M h) (\<lambda>_. synchronize_begin M)" and ?s = "s\<lparr>ran := ran s @ [h]\<rparr>"
  have "api_frame ext msgs cap ?s (fst (?f ?s))"
    by (intro frame_bind handle_run_frame synchronize_begin_frame)
  then show ?thesis
    using api_frame_trans [OF _ io_except_frame] by (cases "?f ?s") (auto simp: io_run_def split: sum.split)
qed

lemma io_ran_inv:
  assumes inv: "loop_inv msgs s" and t: "(fd, h, reading) \<in> set (io_tasks s)" and live: "\<not> hcancelled (handles s h)"
  shows "loop_inv msgs (s\<lparr>ran := ran s @ [h]\<rparr>) \<and> evolves ext msgs s (s\<lparr>ran := ran s @ [h]\<rparr>)"
proof -
  have h: "h < next_hid s" "kind (handles s h) = ScopedHandle"
    using inv t io_inv_task [of s fd h reading] by (simp_all add: loop_inv_def)
  have "handled (s\<lparr>ran := ran s @ [h]\<rparr>) x" if "handled s x" for x
    using that by (rule handled_mono) auto
  then show ?thesis
    using inv h live by (simp add: loop_inv_def timers_ok_def ids_ok_def on_time_def in_order_def evolves_def)
qed

lemma io_step_inv:
  assumes inv: "loop_inv msgs s" and t: "(fd, h, reading) \<in> set (io_tasks s)"
    and st: "io_step M h wake s pc = (s', pc')"
  shows "loop_inv msgs s' \<and> evolves ext msgs s s' \<and> timers s' = timers s \<and> stopped s' = stopped s"
  using st
proof (cases rule: io_step_cases)
  case (failed e)
  then have "api_frame ext msgs cap s s'" using io_except_frame [of s e] by simp
  then show ?thesis using inv by (simp add: frame_inv frame_evolves api_frame_fields)
next
  case runs
  then have f: "api_frame ext msgs cap (s\<lparr>ran := ran s @ [h]\<rparr>) s'" using io_run_frame [of s h] by simp
  from io_ran_inv [OF inv t runs(1)] show ?thesis
    using frame_inv [OF f] frame_evolves [OF f] api_frame_fields [OF f] evolves_trans by auto
qed (use inv in simp)

lemma io_advance_inv:
  assumes inv: "conf_inv msgs (s, p)" and t: "(fd, h, reading) \<in> set (io_tasks s)"
  shows "conf_inv msgs (io_advance M h wake s, p) \<and> evolves ext msgs s (io_advance M h wake s)"
proof -
  obtain s' pc where st: "io_step M h wake s (io_state s h) = (s', pc)" by fastforce
  define s2 where "s2 = io_advance M h wake s"
  have eq: "s2 = s'\<lparr>io_state := io_state s2, task_errors := task_errors s2\<rparr>"
    by (simp add: s2_def io_advance_def st)
  have 1: "loop_inv msgs s'" "evolves ext msgs s s'" "timers s' = timers s" "stopped s' = stopped s"
    using io_step_inv [OF _ t st] inv by (simp_all add: conf_inv_def)
  have "loop_inv msgs s2" by (rule loop_inv_cong [OF _ _ _ _ _ _ _ _ _ _ _ _ _ _ 1(1)]; subst eq) simp_all
  moreover have "evolves ext msgs s' s2" by (rule evolves_cong; subst eq) simp_all
  moreover have "timers s2 = timers s" "stopped s2 = stopped s" using 1(3,4) by (subst eq, simp)+
  ultimately show ?thesis
    using inv evolves_trans [OF 1(2)] unfolding s2_def by (cases p) (auto simp: conf_inv_def root_deadline_def)
qed

lemma loop_step_inv:
  assumes "loop_step C M c c'" and "conf_inv msgs c"
  shows "conf_inv msgs c' \<and> evolves ext msgs (fst c) (fst c')"
  using assms
proof (induction rule: loop_step.induct)
  case (top s)
  then show ?case using loop_top_inv by (simp add: conf_inv_def)
next
  case (message s c d)
  then show ?case using loop_receive_inv [of s c] by (simp add: conf_inv_def)
next
  case (timeout t s)
  then show ?case by (simp add: conf_inv_def)
next
  case (call a s s' r p)
  then show ?case using frame_conf [of s s' p] exec_api_frame [of s a] by simp
next
  case (tick s t p)
  let ?s = "s\<lparr>clock := t\<rparr>"
  have "loop_inv msgs ?s"
    using loop_inv_cong [of ?s s msgs] tick by (simp add: conf_inv_def)
  moreover have "evolves ext msgs s ?s" using tick by (intro evolves_cong) simp_all
  ultimately show ?case using tick by (cases p) (auto simp: conf_inv_def root_deadline_def)
next
  case (soon s s' u p)
  then show ?case using soon_inv [of s s' u] by (cases p) (auto simp: conf_inv_def root_deadline_def)
next
  case (async_end h s b s' r p)
  let ?s = "case r of Inr _ \<Rightarrow> s' | Inl e \<Rightarrow> s'\<lparr>task_errors := task_errors s' @ [e]\<rparr>"
  have "api_frame ext msgs cap s s'" using async_run_end_frame [of s h b] async_end by simp
  then have "api_frame ext msgs cap s ?s"
    by (auto split: sum.split intro: api_frame_trans [OF _ frame_task_errors])
  then show ?case using frame_conf async_end by simp
next
  case (io fd h reading s p wake)
  then show ?case using io_advance_inv by simp
next
  case (transports s p T)
  have "loop_inv msgs (s\<lparr>transports := T\<rparr>)"
    using loop_inv_cong [of "s\<lparr>transports := T\<rparr>" s msgs] transports by (simp add: conf_inv_def)
  moreover have "evolves ext msgs s (s\<lparr>transports := T\<rparr>)" by (intro evolves_cong) simp_all
  ultimately show ?case using transports by (cases p) (auto simp: conf_inv_def root_deadline_def)
qed

lemma loop_steps_inv:
  assumes "loop_steps C M c c'" and "conf_inv msgs c"
  shows "conf_inv msgs c' \<and> evolves ext msgs (fst c) (fst c')"
  using assms
proof (induction rule: rtranclp_induct)
  case (step c1 c2)
  then show ?case using loop_step_inv evolves_trans by blast
qed simp

text \<open>The front of the channel is received before what is behind it.\<close>

lemma received_before:
  assumes ev: "evolves ext msgs s s'" and q: "msgs (queue s) = pre @ h # post"
    and h: "h \<notin> set (received s)" "h \<notin> set pre" "h \<in> set (received s')"
  shows "set pre \<subseteq> set (received s')"
proof -
  obtain new where n: "received s' @ msgs (queue s') = received s @ pre @ h # post @ new"
    using evolves_fifo [OF ev] q by auto
  have "length (received s @ pre) < length (received s')"
  proof (rule ccontr)
    assume "\<not> ?thesis"
    then have "prefix (received s') (received s @ pre)"
      using n prefix_same_cases [of "received s'" "received s' @ msgs (queue s')" "received s @ pre"]
      by (metis append.assoc linorder_not_less prefixI prefix_length_prefix)
    then show False using h set_mono_prefix by fastforce
  qed
  then have "prefix (received s @ pre) (received s')"
    using n by (metis append.assoc less_imp_le prefixI prefix_length_prefix)
  then show ?thesis using set_mono_prefix by fastforce
qed

end

section \<open>A pending stop callback ends the loop\<close>

text \<open>The steps of the loop's own task, as long as a message is there when it waits.\<close>

fun own_step ::
  "'q channel_ops \<Rightarrow> ('q, 'z) loop_scheme methods \<Rightarrow> ('q, 'z) loop_scheme \<times> pc \<Rightarrow>
   ('q, 'z) loop_scheme \<times> pc" where
  "own_step C M (s, Top) = loop_top M s"
| "own_step C M (s, Waiting d) =
     (case loop_receive C M s of Some c \<Rightarrow> c | None \<Rightarrow> (s, Waiting d))"
| "own_step C M (s, Exited e) = (s, Exited e)"

definition stops :: "('q, 'z) loop_scheme methods \<Rightarrow> callback \<Rightarrow> bool" where
  "stops M cb \<longleftrightarrow> (\<forall>s. \<exists>s'. run_callback M cb s = (s', Inl TrioAsyncioExit))"

lemma stops_stop_me: "stops M (StopMe w)"
  by (simp add: stops_def)

definition stop_seen :: "hid \<Rightarrow> ('q, 'z) loop_scheme \<times> pc \<Rightarrow> bool" where
  "stop_seen h c \<longleftrightarrow> (\<exists>e. snd c = Exited e) \<or> hcancelled (handles (fst c) h)"

context loop_methods
begin

lemma own_top:
  assumes "\<not> stopped s" and "loop_top M s = (s', p)" and "msgs (queue s) = pre @ h # post"
  shows "(\<exists>e. p = Exited e) \<or> (\<exists>d. p = Waiting d \<and> s' = s) \<or>
    p = Top \<and> Suc (length (timers s')) = length (timers s) \<and> received s' = received s \<and>
      (\<exists>post'. msgs (queue s') = pre @ h # post')"
proof (cases s rule: poll_timers_cases)
  case (due w obj ts t)
  obtain s2 r where d: "dispatch M obj (s\<lparr>timers := ts\<rparr>) = (s2, r)" by fastforce
  have "length (timers s) = Suc (length ts)"
    using arg_cong [OF mset_heappop [OF due(2)], of size] by simp
  then show ?thesis
    using assms due(1) d dispatch_frame [OF d]
    by (auto simp: loop_top_def after_one_def leave_loop_def run_frame_def split: sum.splits)
qed (use assms in \<open>auto simp: loop_top_def leave_loop_def\<close>)

lemma own_receive:
  assumes "msgs (queue s) = x # rest" and "loop_receive C M s = Some (s', p)"
  shows "(\<exists>e. p = Exited e) \<or>
    p = Top \<and> length (timers s') \<le> Suc (length (timers s)) \<and> set (timers s) \<subseteq> set (timers s') \<and>
      received s' = received s @ [x] \<and>
      (\<exists>new. msgs (queue s') = rest @ new)"
proof -
  obtain q where rc: "receive C s = Some (x, s\<lparr>queue := q, received := received s @ [x]\<rparr>)"
    and q: "msgs q = rest"
    using assms(1) receive_None_iff [of "queue s"] receive_msgs [of "queue s"]
    by (auto simp: receive_def split: option.split)
  let ?s1 = "s\<lparr>queue := q, received := received s @ [x]\<rparr>"
  obtain s2 r where a: "accept M x ?s1 = (s2, r)" by fastforce
  have "length (timers s2) \<le> Suc (length (timers s)) \<and> set (timers s) \<subseteq> set (timers s2) \<and> received s2 = received s @ [x] \<and>
      (\<exists>new. msgs (queue s2) = rest @ new)"
  proof (cases "is_timer (kind (handles s x))")
    case True
    then obtain w where "kind (handles s x) = TimerHandle w" by (cases "kind (handles s x)") auto
    then show ?thesis
      using a q arg_cong [OF mset_heappush [of fst "timers s" "(w, x)"], of size]
        arg_cong [OF mset_heappush [of fst "timers s" "(w, x)"], of set_mset]
      by (auto simp: accept_def)
  next
    case False
    then have "dispatch M x ?s1 = (s2, r)" using a by (auto simp: accept_def split: hkind.splits)
    from dispatch_frame [OF this] show ?thesis by (auto simp: run_frame_def q)
  qed
  then show ?thesis
    using assms(2) rc a by (auto simp: loop_receive_def after_one_def leave_loop_def split: sum.splits)
qed

lemma loop_receive_Some: "msgs (queue s) \<noteq> [] \<Longrightarrow> \<exists>c. loop_receive C M s = Some c"
  using receive_None_iff [of "queue s"] by (auto simp: loop_receive_def receive_def split: option.split)

text \<open>Running a callback that raises \<open>TrioAsyncioExit\<close> leaves the loop.\<close>

lemma run_stop_callback:
  assumes "msgs (queue s) = h # rest" and "kind (handles s h) = PlainHandle"
    and "hcallback (handles s h) = Some cb" and "\<not> hcancelled (handles s h)" and "stops M cb"
  shows "\<exists>s'. loop_receive C M s = Some (s', Exited None)"
proof -
  obtain q where rc: "receive C s = Some (h, s\<lparr>queue := q, received := received s @ [h]\<rparr>)"
    using assms(1) receive_None_iff [of "queue s"] receive_msgs [of "queue s"]
    by (auto simp: receive_def split: option.split)
  let ?s = "s\<lparr>queue := q, received := received s @ [h], sniffio := Some ''asyncio'', ran := ran s @ [h]\<rparr>"
  obtain s' where "run_callback M cb ?s = (s', Inl TrioAsyncioExit)" using assms(5) by (auto simp: stops_def)
  then show ?thesis
    using rc assms(2-4)
    by (simp add: loop_receive_def accept_def dispatch_def handle_run_def after_one_def leave_loop_def)
qed

lemma stop_handle_kept:
  assumes "evolves ext msgs s s'" and "h < next_hid s" and "kind (handles s h) = PlainHandle"
    and "hcallback (handles s h) = Some cb" and "\<not> hcancelled (handles s' h)"
  shows "kind (handles s' h) = PlainHandle \<and> hcallback (handles s' h) = Some cb"
  using evolves_handle [OF assms(1,2)] assms(3-5) by (auto simp: handle_frame_def)

lemma own_steps_stop:
  assumes "conf_inv msgs (s, Top)" and "msgs (queue s) = pre @ h # post"
    and "kind (handles s h) = PlainHandle" and "hcallback (handles s h) = Some cb" and stops: "stops M cb"
  shows "\<exists>n \<le> 2 * (2 * length pre + length (timers s)) + 2. stop_seen h ((own_step C M ^^ n) (s, Top))"
  using assms(1-4)
proof (induction "2 * length pre + length (timers s)" arbitrary: s pre post rule: less_induct)
  case less
  let ?N = "2 * length pre + length (timers s)"
  have inv: "loop_inv msgs s" and run: "\<not> stopped s" using less.prems(1) by (auto simp: conf_inv_def)
  have h: "h < next_hid s" using inv less.prems(2) by (simp add: loop_inv_def ids_ok_def)
  have again: "\<exists>n \<le> 2 * ?N + 2. stop_seen h ((own_step C M ^^ n) (s, Top))"
    if k: "(own_step C M ^^ k) (s, Top) = (s1, Top)" "k \<le> 2" and c: "conf_inv msgs (s1, Top)"
      and ev: "evolves ext msgs s s1" and q: "msgs (queue s1) = pre1 @ h # post1"
      and lt: "2 * length pre1 + length (timers s1) < ?N" for s1 pre1 post1 k
  proof (cases "hcancelled (handles s1 h)")
    case True
    then have "stop_seen h ((own_step C M ^^ k) (s, Top))" by (simp add: k(1) stop_seen_def)
    then show ?thesis using k(2) by (intro exI [of _ k]) simp
  next
    case False
    note kept = stop_handle_kept [OF ev h less.prems(3,4) False]
    obtain n where n: "n \<le> 2 * (2 * length pre1 + length (timers s1)) + 2"
      "stop_seen h ((own_step C M ^^ n) (s1, Top))"
      using less.hyps [OF lt c q] kept by auto
    then have "stop_seen h ((own_step C M ^^ (n + k)) (s, Top))" by (simp add: funpow_add k(1))
    then show ?thesis using n(1) lt k(2) by (intro exI [of _ "n + k"]) simp
  qed
  obtain s1 p1 where t: "loop_top M s = (s1, p1)" by fastforce
  have one: "(own_step C M ^^ 1) (s, Top) = (s1, p1)" by (simp add: t)
  have inv1: "conf_inv msgs (s1, p1)" "evolves ext msgs s s1" using loop_top_inv [OF inv run] t by auto
  from own_top [OF run t less.prems(2)] consider (exit) "\<exists>e. p1 = Exited e"
    | (wait) d where "p1 = Waiting d" "s1 = s"
    | (timer) post' where "p1 = Top" "Suc (length (timers s1)) = length (timers s)"
        "msgs (queue s1) = pre @ h # post'" by blast
  then show ?case
  proof cases
    case exit
    then have "stop_seen h ((own_step C M ^^ 1) (s, Top))" by (simp add: one stop_seen_def del: funpow.simps One_nat_def)
    then show ?thesis by (intro exI [of _ 1]) simp
  next
    case timer
    then show ?thesis using again [of 1 s1 pre post'] one inv1 by (simp del: funpow.simps One_nat_def)
  next
    case wait
    obtain s2 p2 where r: "loop_receive C M s = Some (s2, p2)"
      using loop_receive_Some [of s] less.prems(2) by auto
    have two: "(own_step C M ^^ 2) (s, Top) = (s2, p2)" by (simp add: numeral_2_eq_2 t wait r)
    have inv2: "conf_inv msgs (s2, p2)" "evolves ext msgs s s2" using loop_receive_inv [OF inv run r] by auto
    show ?thesis
    proof (cases pre)
      case Nil
      have "stop_seen h (s2, p2)"
      proof (cases "hcancelled (handles s h)")
        case True
        then show ?thesis using evolves_handle [OF inv2(2) h] by (simp add: stop_seen_def handle_frame_def)
      next
        case False
        from run_stop_callback [OF _ less.prems(3,4) False stops, of post] less.prems(2) Nil r
        show ?thesis by (auto simp: stop_seen_def)
      qed
      then show ?thesis by (intro exI [of _ 2]) (simp add: two del: funpow.simps)
    next
      case (Cons x xs)
      from own_receive [of s x "xs @ h # post" s2 p2] less.prems(2) Cons r
      consider (exit) "\<exists>e. p2 = Exited e"
        | (top) new where "p2 = Top" "length (timers s2) \<le> Suc (length (timers s))"
          "msgs (queue s2) = xs @ h # post @ new" by auto
      then show ?thesis
      proof cases
        case exit
        then have "stop_seen h ((own_step C M ^^ 2) (s, Top))" by (simp add: two stop_seen_def del: funpow.simps One_nat_def)
        then show ?thesis by (intro exI [of _ 2]) simp
      next
        case top
        then show ?thesis using again [of 2 s2 xs "post @ new"] two inv2 Cons by (simp del: funpow.simps One_nat_def)
      qed
    qed
  qed
qed

end

end
