(* ===== verification/Loop_Drain.thy ===== *)
theory Loop_Drain
  imports Loop_Runs
begin

text \<open>
  The drain loop of \<open>_main_loop_exit\<close>: what it has done when it returns, and that it returns
  if the work that callbacks create is bounded, for then every iteration takes more out of the loop
  than it puts in. The measure \<open>work\<close> counts the messages, the timers and the done-callbacks of
  futures, each with the trace of its callback, where \<open>rk n\<close> stands for the function \<open>n\<close>;
  \<open>costs rk k\<close> says that an operation adds at most \<open>k\<close>. A function that schedules itself again has
  no such bound.
\<close>

section \<open>The measure\<close>

fun cb_work :: "(nat \<Rightarrow> nat) \<Rightarrow> callback \<Rightarrow> nat" and api_work :: "(nat \<Rightarrow> nat) \<Rightarrow> api \<Rightarrow> nat" where
  "cb_work rk (UserCallback as r) = sum_list (map (api_work rk) as)"
| "cb_work rk (UserFunction n) = rk n"
| "cb_work rk (SetEvent e) = 0"
| "cb_work rk (StopMe e) = 0"
| "cb_work rk DoStop = 0"
| "cb_work rk (IsDone f n) = 3"
| "cb_work rk (TrioProc n) = 0"
| "api_work rk (CallSoon cb) = 3 + cb_work rk cb"
| "api_work rk (CallLater d cb) = 3 + cb_work rk cb"
| "api_work rk (CallAt t cb) = 3 + cb_work rk cb"
| "api_work rk (CallSoonThreadsafe cb) = 0"
| "api_work rk (TrioAsFuture cb) = 3 + cb_work rk cb"
| "api_work rk (RunTrioTask cb) = 3 + cb_work rk cb"
| "api_work rk (CancelHandle h) = 0"
| "api_work rk (CancelFuture f m) = 0"
| "api_work rk (AddDoneCallback f cb) = 3 + cb_work rk cb"
| "api_work rk CreateFuture = 0"
| "api_work rk (SetResult f r) = 0"
| "api_work rk (SetException f e) = 0"
| "api_work rk (StopLoop w) = 3"
| "api_work rk (AddReader fd cb) = 0"
| "api_work rk (AddWriter fd cb) = 0"
| "api_work rk (RemoveReader fd) = 0"
| "api_work rk (RemoveWriter fd) = 0"
| "api_work rk (Autoclose fd) = 0"
| "api_work rk (NoAutoclose fd) = 0"

definition handle_work :: "(nat \<Rightarrow> nat) \<Rightarrow> handle \<Rightarrow> nat" where
  "handle_work rk x = (case hcallback x of None \<Rightarrow> 0 | Some cb \<Rightarrow> cb_work rk cb)"

definition cbs_work :: "(nat \<Rightarrow> nat) \<Rightarrow> callback list \<Rightarrow> nat" where
  "cbs_work rk cbs = sum_list (map (\<lambda>cb. 3 + cb_work rk cb) cbs)"

definition waiting_futures :: "('q, 'z) loop_scheme \<Rightarrow> fid set" where
  "waiting_futures s = {f. fcallbacks (futures s f) \<noteq> []}"

definition future_work :: "(nat \<Rightarrow> nat) \<Rightarrow> ('q, 'z) loop_scheme \<Rightarrow> nat" where
  "future_work rk s = (\<Sum>f \<in> waiting_futures s. cbs_work rk (fcallbacks (futures s f)))"

definition queue_work :: "(nat \<Rightarrow> nat) \<Rightarrow> hid list \<Rightarrow> ('q, 'z) loop_scheme \<Rightarrow> nat" where
  "queue_work rk hs s = sum_list (map (\<lambda>h. 3 + handle_work rk (handles s h)) hs)"

definition timer_work :: "(nat \<Rightarrow> nat) \<Rightarrow> ('q, 'z) loop_scheme \<Rightarrow> nat" where
  "timer_work rk s = (\<Sum>(w, h) \<in># mset (timers s). 2 + handle_work rk (handles s h))"

definition work :: "(nat \<Rightarrow> nat) \<Rightarrow> ('q \<Rightarrow> hid list) \<Rightarrow> ('q, 'z) loop_scheme \<Rightarrow> nat" where
  "work rk msgs s = queue_work rk (msgs (queue s)) s + timer_work rk s + future_work rk s"

text \<open>Every handle waiting is allocated, and finitely many futures have callbacks.\<close>

definition bounded :: "('q \<Rightarrow> hid list) \<Rightarrow> ('q, 'z) loop_scheme \<Rightarrow> bool" where
  "bounded msgs s \<longleftrightarrow> (\<forall>h \<in> set (msgs (queue s)) \<union> snd ` set (timers s). h < next_hid s) \<and>
     finite (waiting_futures s)"

text \<open>No call of a function makes more work than its bound.\<close>

definition ranked :: "(nat \<Rightarrow> nat) \<Rightarrow> ('q, 'z) loop_scheme \<Rightarrow> bool" where
  "ranked rk s \<longleftrightarrow> (\<forall>n k. sum_list (map (api_work rk) (fst (program s n k))) \<le> rk n)"

definition costs ::
  "(nat \<Rightarrow> nat) \<Rightarrow> ('z \<Rightarrow> 'z \<Rightarrow> bool) \<Rightarrow> ('q \<Rightarrow> hid list) \<Rightarrow> ('q \<Rightarrow> nat option) \<Rightarrow> nat \<Rightarrow>
   ('q, 'z) loop_scheme \<Rightarrow> ('q, 'z) loop_scheme \<Rightarrow> bool" where
  "costs rk ext msgs cap k s s' \<longleftrightarrow> api_frame ext msgs cap s s' \<and>
     (bounded msgs s \<longrightarrow> finite (waiting_futures s') \<and> (ranked rk s \<longrightarrow> work rk msgs s' \<le> work rk msgs s + k))"

lemma ranked_cong: "program s' = program s \<Longrightarrow> ranked rk s' = ranked rk s"
  by (simp add: ranked_def)

lemma frame_ranked: "api_frame ext msgs cap s s' \<Longrightarrow> ranked rk s' = ranked rk s"
  using api_frame_core [of ext msgs cap s s'] by (simp add: ranked_def core_def)

lemma cbs_work_simps [simp]:
  "cbs_work rk [] = 0" "cbs_work rk (cb # cbs) = 3 + cb_work rk cb + cbs_work rk cbs"
  "cbs_work rk (as @ bs) = cbs_work rk as + cbs_work rk bs"
  by (simp_all add: cbs_work_def)

lemma queue_work_simps [simp]:
  "queue_work rk [] s = 0" "queue_work rk (h # hs) s = 3 + handle_work rk (handles s h) + queue_work rk hs s"
  "queue_work rk (as @ bs) s = queue_work rk as s + queue_work rk bs s"
  by (simp_all add: queue_work_def)

lemma frame_bounded: "api_frame ext msgs cap s s' \<Longrightarrow> bounded msgs s \<Longrightarrow> finite (waiting_futures s') \<Longrightarrow> bounded msgs s'"
proof -
  assume f: "api_frame ext msgs cap s s'" and b: "bounded msgs s" and fin: "finite (waiting_futures s')"
  obtain new where "msgs (queue s') = msgs (queue s) @ new" "\<forall>h \<in> set new. h < next_hid s'"
    using api_frame_queue [OF f] by blast
  moreover have "\<forall>h \<in> set (msgs (queue s)) \<union> snd ` set (timers s). h < next_hid s'"
  proof
    fix h assume "h \<in> set (msgs (queue s)) \<union> snd ` set (timers s)"
    then have "h < next_hid s" using b unfolding bounded_def by blast
    then show "h < next_hid s'" using api_frame_next [OF f] by (rule less_le_trans)
  qed
  ultimately show ?thesis using fin by (auto simp: bounded_def api_frame_fields [OF f])
qed

lemma costs_bounded:
  "costs rk ext msgs cap k s s' \<Longrightarrow> bounded msgs s \<Longrightarrow>
   bounded msgs s' \<and> (ranked rk s \<longrightarrow> ranked rk s' \<and> work rk msgs s' \<le> work rk msgs s + k)"
  using frame_bounded [of ext msgs cap s s'] frame_ranked [of ext msgs cap s s' rk] by (auto simp: costs_def)

lemma costs_trans:
  assumes ab: "costs rk ext msgs cap k a b" and bc: "costs rk ext msgs cap l b c"
  shows "costs rk ext msgs cap (k + l) a c"
proof -
  have f: "api_frame ext msgs cap a b" and g: "api_frame ext msgs cap b c"
    using ab bc by (simp_all add: costs_def)
  have "finite (waiting_futures c) \<and> (ranked rk a \<longrightarrow> work rk msgs c \<le> work rk msgs a + (k + l))" if "bounded msgs a"
    using costs_bounded [OF ab that] costs_bounded [OF bc] by (fastforce simp: bounded_def)
  then show ?thesis using api_frame_trans [OF f g] by (simp add: costs_def)
qed

lemma costs_mono: "costs rk ext msgs cap k a b \<Longrightarrow> k \<le> l \<Longrightarrow> costs rk ext msgs cap l a b"
  by (auto simp: costs_def)

lemma costs_ranked:
  "costs rk ext msgs cap k a b \<Longrightarrow> (ranked rk a \<Longrightarrow> k \<le> l) \<Longrightarrow> costs rk ext msgs cap l a b"
  by (auto simp: costs_def)

lemma costs_refl [simp]: "costs rk ext msgs cap k s s"
  by (simp add: costs_def bounded_def)

lemma costs_frame: "costs rk ext msgs cap k s s' \<Longrightarrow> api_frame ext msgs cap s s'"
  by (simp add: costs_def)

lemma costs_bind:
  assumes "costs rk ext msgs cap k s (fst (f s))"
    and "\<And>s' x. f s = (s', Inr x) \<Longrightarrow> costs rk ext msgs cap l s' (fst (g x s'))"
  shows "costs rk ext msgs cap (k + l) s (fst (py_bind f g s))"
proof (cases "f s")
  case (Pair s' r)
  then show ?thesis
    using assms(1) assms(2) [of s'] costs_trans [of rk ext msgs cap k s s' l] costs_mono [of rk ext msgs cap k s s' "k + l"]
    by (cases r) (auto simp: py_bind_eq)
qed

lemma costs_bind0:
  assumes "costs rk ext msgs cap 0 s (fst (f s))"
    and "\<And>s' x. f s = (s', Inr x) \<Longrightarrow> costs rk ext msgs cap l s' (fst (g x s'))"
  shows "costs rk ext msgs cap l s (fst (py_bind f g s))"
  using costs_bind [of rk ext msgs cap 0 s f l g] assms by simp

lemma costs_bind_last:
  assumes "costs rk ext msgs cap k s (fst (f s))"
    and "\<And>s' x. f s = (s', Inr x) \<Longrightarrow> costs rk ext msgs cap 0 s' (fst (g x s'))"
  shows "costs rk ext msgs cap k s (fst (py_bind f g s))"
  using costs_bind [of rk ext msgs cap k s f 0 g] assms by simp

lemma costs_discard: "costs rk ext msgs cap k s (fst (f s)) \<Longrightarrow> costs rk ext msgs cap k s (fst (discard f s))"
  unfolding discard_def by (rule costs_bind_last) simp_all

text \<open>The work in handles only shrinks under a frame.\<close>

lemma handle_frame_work: "handle_frame x y \<Longrightarrow> handle_work rk y \<le> handle_work rk x"
  by (auto simp: handle_frame_def handle_work_def split: option.split)

lemma queue_work_mono:
  "(\<And>h. h \<in> set hs \<Longrightarrow> handle_frame (handles s h) (handles s' h)) \<Longrightarrow> queue_work rk hs s' \<le> queue_work rk hs s"
  unfolding queue_work_def by (intro sum_list_mono add_left_mono handle_frame_work) auto

lemma timer_work_mono:
  assumes "timers s' = timers s"
    and "\<And>w h. (w, h) \<in> set (timers s) \<Longrightarrow> handle_frame (handles s h) (handles s' h)"
  shows "timer_work rk s' \<le> timer_work rk s"
  unfolding timer_work_def assms(1)
  by (intro sum_mset_mono) (auto intro!: handle_frame_work assms(2))

lemma costsI:
  assumes f: "api_frame ext msgs cap s s'" and q: "msgs (queue s') = msgs (queue s)"
    and fut: "finite (waiting_futures s) \<Longrightarrow> finite (waiting_futures s') \<and> future_work rk s' \<le> future_work rk s + k"
  shows "costs rk ext msgs cap k s s'"
proof -
  have "work rk msgs s' \<le> work rk msgs s + k" if b: "bounded msgs s"
  proof -
    have "handle_frame (handles s h) (handles s' h)" if "h \<in> set (msgs (queue s)) \<union> snd ` set (timers s)" for h
      using b that api_frame_handle [OF f] by (simp add: bounded_def)
    then have "queue_work rk (msgs (queue s)) s' \<le> queue_work rk (msgs (queue s)) s" "timer_work rk s' \<le> timer_work rk s"
      by (auto intro!: queue_work_mono timer_work_mono simp: api_frame_fields [OF f] image_iff) force
    then show ?thesis using fut b by (auto simp: work_def q bounded_def)
  qed
  then show ?thesis using f fut by (simp add: costs_def bounded_def)
qed

lemma costs_same:
  "api_frame ext msgs cap s s' \<Longrightarrow> msgs (queue s') = msgs (queue s) \<Longrightarrow> futures s' = futures s \<Longrightarrow>
   costs rk ext msgs cap 0 s s'"
  by (rule costsI) (simp_all add: waiting_futures_def future_work_def)

lemma future_work_superset:
  "finite A \<Longrightarrow> waiting_futures s \<subseteq> A \<Longrightarrow> future_work rk s = (\<Sum>f \<in> A. cbs_work rk (fcallbacks (futures s f)))"
  unfolding future_work_def by (rule sum.mono_neutral_left) (auto simp: waiting_futures_def)

lemma future_work_upd:
  assumes fin: "finite (waiting_futures s)" and eq: "futures s' = (futures s)(f := x)"
  shows "finite (waiting_futures s')"
    and "future_work rk s' + cbs_work rk (fcallbacks (futures s f)) = future_work rk s + cbs_work rk (fcallbacks x)"
proof -
  let ?A = "insert f (waiting_futures s)"
  have sub: "waiting_futures s' \<subseteq> ?A" by (auto simp: waiting_futures_def eq)
  then show "finite (waiting_futures s')" using fin by (simp add: finite_subset)
  have "future_work rk s = (\<Sum>f \<in> ?A. cbs_work rk (fcallbacks (futures s f)))"
    using fin by (intro future_work_superset) auto
  moreover have "future_work rk s' = (\<Sum>f \<in> ?A. cbs_work rk (fcallbacks (futures s' f)))"
    using fin sub by (intro future_work_superset) auto
  moreover have "(\<Sum>f \<in> ?A - {f}. cbs_work rk (fcallbacks (futures s' f))) =
      (\<Sum>f \<in> ?A - {f}. cbs_work rk (fcallbacks (futures s f)))"
    by (intro sum.cong) (auto simp: eq)
  ultimately show "future_work rk s' + cbs_work rk (fcallbacks (futures s f)) =
      future_work rk s + cbs_work rk (fcallbacks x)"
    using fin by (simp add: sum.remove [of ?A f] eq)
qed

lemma costs_upd_future:
  assumes "future_frame (futures s f) (g (futures s f))" and "fwrapped (g (futures s f)) = fwrapped (futures s f)"
    and "cbs_work rk (fcallbacks (g (futures s f))) \<le> cbs_work rk (fcallbacks (futures s f)) + k"
  shows "costs rk ext msgs cap k s (upd_future f g s)"
proof (rule costsI)
  assume fin: "finite (waiting_futures s)"
  have "futures (upd_future f g s) = (futures s)(f := g (futures s f))" by (simp add: upd_future_def)
  from future_work_upd(1) [OF fin this] future_work_upd(2) [where rk = rk, OF fin this] assms(3)
  show "finite (waiting_futures (upd_future f g s)) \<and> future_work rk (upd_future f g s) \<le> future_work rk s + k"
    by linarith
next
  show "api_frame ext msgs cap s (upd_future f g s)" using assms(1,2) by (rule frame_upd_future)
next
  show "msgs (queue (upd_future f g s)) = msgs (queue s)" by (simp add: upd_future_def)
qed

lemma costs_alloc_future: "costs rk ext msgs cap 0 s (fst (alloc_future s))"
proof (rule costsI [OF frame_alloc_future])
  assume fin: "finite (waiting_futures s)"
  have "futures (fst (alloc_future s)) =
      (futures s)(next_fid s := \<lparr>fstate = Pending, fcallbacks = [], fwrapped = None\<rparr>)"
    by (simp add: alloc_future_def)
  from future_work_upd(1) [OF fin this] future_work_upd(2) [where rk = rk, OF fin this]
  show "finite (waiting_futures (fst (alloc_future s))) \<and>
      future_work rk (fst (alloc_future s)) \<le> future_work rk s + 0" by simp
qed (simp add: alloc_future_def)

lemma costs_checks:
  "costs rk ext msgs cap 0 s (fst (check_closed s))" "costs rk ext msgs cap 0 s (fst (check_callback cb s))"
  "costs rk ext msgs cap 0 s (fst (loop_time s))"
  by (simp_all add: check_closed_def check_callback_def loop_time_def)

lemma costs_set_event: "costs rk ext msgs cap 0 s (set_event e s)"
  by (rule costs_same [OF frame_set_event]) (simp_all add: set_event_def)

lemma costs_upd_handle:
  "handle_frame (handles s h) (f (handles s h)) \<Longrightarrow> hfinished (f (handles s h)) = hfinished (handles s h) \<Longrightarrow>
   costs rk ext msgs cap 0 s (upd_handle h f s)"
  by (rule costs_same [OF frame_upd_handle]) (simp_all add: upd_handle_def)

lemma costs_handle_cancel: "costs rk ext msgs cap 0 s (handle_cancel h s)"
  by (simp add: handle_cancel_def costs_upd_handle handle_frame_def)

lemma costs_io_cancel: "costs rk ext msgs cap 0 s (fst (trio_io_cancel h s))"
  by (simp add: trio_io_cancel_def costs_upd_handle handle_frame_def)

lemma costs_alloc_event: "costs rk ext msgs cap 0 s (fst (alloc_event s))"
  by (rule costs_same [OF frame_alloc_event]) (simp_all add: alloc_event_def)

text \<open>Enqueuing a handle that was just made.\<close>

lemma costs_enqueue:
  assumes f: "costs rk ext msgs cap k s s1" and s': "s' = s1\<lparr>queue := q\<rparr>" "msgs q = msgs (queue s1) @ [h]"
      "cap q = cap (queue s1)"
    and h: "next_hid s \<le> h" "h < next_hid s1" and w: "handle_work rk (handles s1 h) \<le> w"
  shows "costs rk ext msgs cap (k + 3 + w) s s'"
proof -
  have f1: "api_frame ext msgs cap s s1" using f by (rule costs_frame)
  have "api_frame ext msgs cap s s'"
    unfolding s'(1) using f1 h s'(2,3) by (rule frame_enqueue)
  moreover have "finite (waiting_futures s') \<and> (ranked rk s \<longrightarrow> work rk msgs s' \<le> work rk msgs s + (k + 3 + w))"
    if b: "bounded msgs s"
  proof -
    have "finite (waiting_futures s1)" "ranked rk s \<longrightarrow> work rk msgs s1 \<le> work rk msgs s + k"
      using f b by (auto simp: costs_def)
    then show ?thesis
      using w
      by (cases "ranked rk s") (simp_all add: work_def s' waiting_futures_def future_work_def timer_work_def queue_work_def)
  qed
  ultimately show ?thesis by (simp add: costs_def)
qed

lemma appends_cost:
  assumes Q: "appends msgs cap Q" and f: "costs rk ext msgs cap k s s1" and h: "next_hid s \<le> h" "h < next_hid s1"
    and w: "handle_work rk (handles s1 h) \<le> w"
  shows "costs rk ext msgs cap (k + 3 + w) s (fst (Q h s1))"
proof (cases "Q h s1")
  case (Pair s' r)
  from Q Pair show ?thesis
  proof (cases rule: appends_cases)
    case (raises e)
    then show ?thesis using Pair f by (auto intro: costs_mono)
  next
    case (appends q)
    then show ?thesis using Pair costs_enqueue [OF f appends(2-4) h w] by simp
  qed
qed

lemma appends_queue_new_cost:
  assumes Q: "appends msgs cap Q" and k: "\<not> linked k"
  shows "costs rk ext msgs cap (3 + cb_work rk cb) s (fst (queue_new Q k cb s))"
proof -
  obtain s1 h where a: "alloc_handle k cb s = (s1, h)" by fastforce
  have "api_frame ext msgs cap s s1" using frame_alloc_handle [OF k, of ext msgs cap s cb] by (simp add: a)
  then have "costs rk ext msgs cap 0 s s1"
    using a by (intro costs_same) (auto simp: alloc_handle_def)
  moreover have "next_hid s \<le> h" "h < next_hid s1" "handle_work rk (handles s1 h) \<le> cb_work rk cb"
    using a by (auto simp: alloc_handle_def new_handle_obj_def handle_work_def)
  ultimately have "costs rk ext msgs cap (0 + 3 + cb_work rk cb) s (fst (Q h s1))"
    by (rule appends_cost [OF Q])
  then show ?thesis
    by (cases "Q h s1") (auto simp: queue_new_def a py_bind_def split: sum.split)
qed

text \<open>Readers and writers add no work to the loop: their handles are run by tasks of their own.\<close>

lemma costs_right:
  assumes "costs rk ext msgs cap k s s1" and "api_frame ext msgs cap s s2" and "queue s2 = queue s1"
    and "timers s2 = timers s1" and "handles s2 = handles s1" and "futures s2 = futures s1"
  shows "costs rk ext msgs cap k s s2"
proof -
  have "work rk msgs s2 = work rk msgs s1"
    using assms(3-6) by (simp add: work_def queue_work_def timer_work_def future_work_def waiting_futures_def)
  moreover have "waiting_futures s2 = waiting_futures s1" using assms(6) by (simp add: waiting_futures_def)
  ultimately show ?thesis using assms(1,2) by (simp add: costs_def)
qed

lemma add_io_handler_cost:
  assumes sh: "adds_slot reading set_handle" and ioc: "cancels ext msgs cap io_cancel"
    and cost: "\<And>h s. costs rk ext msgs cap 0 s (fst (io_cancel h s))"
  shows "costs rk ext msgs cap 0 s (fst (add_io_handler io_cancel set_handle reading fd cb s))"
proof -
  obtain s' r where d: "add_io_handler io_cancel set_handle reading fd cb s = (s', r)" by fastforce
  have f: "api_frame ext msgs cap s s'" using add_io_handler_frame [OF sh ioc, of s fd cb] d by simp
  from sh ioc d have "costs rk ext msgs cap 0 s s'"
  proof (cases rule: add_io_handler_steps)
    case (added v s1)
    have "costs rk ext msgs cap 0 s v" by (rule costs_same [OF added(1)]) (simp_all add: added)
    then have 1: "costs rk ext msgs cap 0 s s1"
      using added(4) costs_trans [of rk ext msgs cap 0 s v 0 s1] cost by auto
    from added(11) show ?thesis
    proof
      assume "start_io_task fd (next_hid s) reading s1 = (s', r)"
      then show ?thesis by (cases rule: start_io_task_cases) (use 1 costs_right [OF 1 f] in simp_all)
    qed (use 1 in simp)
  qed simp
  then show ?thesis by (simp add: d)
qed

lemma add_reader_impl_cost:
  "cancels ext msgs cap io_cancel \<Longrightarrow> (\<And>h s. costs rk ext msgs cap 0 s (fst (io_cancel h s))) \<Longrightarrow>
   costs rk ext msgs cap 0 s (fst (add_reader_impl io_cancel fd cb s))"
  and add_writer_impl_cost:
  "cancels ext msgs cap io_cancel \<Longrightarrow> (\<And>h s. costs rk ext msgs cap 0 s (fst (io_cancel h s))) \<Longrightarrow>
   costs rk ext msgs cap 0 s (fst (add_writer_impl io_cancel fd cb s))"
  by (simp_all add: add_reader_impl_def add_writer_impl_def add_io_handler_cost adds_slot_handlers)

text \<open>Two steps of which only the whole is an operation of the interface.\<close>

lemma costs_after:
  assumes "api_frame ext msgs cap s s2" and "bounded msgs s \<Longrightarrow> bounded msgs s1 \<and> work rk msgs s1 \<le> work rk msgs s"
    and "program s1 = program s"
    and "costs rk ext msgs cap k s1 s2"
  shows "costs rk ext msgs cap k s s2"
  using assms ranked_cong [OF assms(3), of rk] unfolding costs_def by fastforce

lemma upd_handle_work:
  assumes "\<And>x. hcallback (f x) = hcallback x"
  shows "work rk msgs (upd_handle h f s) = work rk msgs s" "bounded msgs (upd_handle h f s) = bounded msgs s"
    "program (upd_handle h f s) = program s"
proof -
  have f: "handle_work rk (handles (upd_handle h f s) k) = handle_work rk (handles s k)" for k
    using assms by (simp add: upd_handle_def handle_work_def)
  have g: "futures (upd_handle h f s) = futures s" "timers (upd_handle h f s) = timers s" "queue (upd_handle h f s) = queue s"
    "next_hid (upd_handle h f s) = next_hid s" "program (upd_handle h f s) = program s"
    by (simp_all add: upd_handle_def)
  show "work rk msgs (upd_handle h f s) = work rk msgs s" "bounded msgs (upd_handle h f s) = bounded msgs s"
    "program (upd_handle h f s) = program s"
    by (simp_all add: work_def queue_work_def timer_work_def future_work_def bounded_def waiting_futures_def f g)
qed

lemmas finish_work = upd_handle_work [where f = "\<lambda>x. x\<lparr>hfinished := True\<rparr>", simplified, folded finish_def]

lemma costs_no_transport: "costs rk ext msgs cap 0 s (fst (ensure_fd_no_transport fd s))"
  by (simp add: ensure_fd_no_transport_def)

lemma costs_autoclose: "costs rk ext msgs cap 0 s (autoclose fd s)" "costs rk ext msgs cap 0 s (fst (no_autoclose fd s))"
  by (rule costs_same [OF frame_autoclose]; simp add: autoclose_def)
    (rule costs_same [OF frame_no_autoclose]; simp add: no_autoclose_def)

section \<open>The contract with costs\<close>

locale loop_methods_cost = loop_methods C msgs cap ext M
  for C :: "'q channel_ops" and msgs :: "'q \<Rightarrow> hid list" and cap :: "'q \<Rightarrow> nat option"
    and ext :: "'z \<Rightarrow> 'z \<Rightarrow> bool" and M :: "('q, 'z) loop_scheme methods" +
  assumes stop_cost: "costs rk ext msgs cap 3 s (fst (m_stop M w s))"
    and do_stop_cost: "costs rk ext msgs cap 0 s (fst (m_do_stop M s))"
    and is_done_cost: "costs rk ext msgs cap 3 s (fst (m_is_done M f n s))"
    and io_cancel_cost: "costs rk ext msgs cap 0 s (fst (m_io_cancel M h s))"
    and add_reader_cost: "costs rk ext msgs cap 0 s (fst (m_add_reader M fd cb s))"
    and add_writer_cost: "costs rk ext msgs cap 0 s (fst (m_add_writer M fd cb s))"
    and handler_cost: "costs rk ext msgs cap 0 s (fst (m_default_exception_handler M ctx s))"
begin

lemmas enqueue_cost = appends_cost [OF queue_appends]
  and queue_new_cost = appends_queue_new_cost [OF queue_appends]

lemma trio_as_future_cost: "costs rk ext msgs cap (3 + cb_work rk proc) s (fst (trio_as_future M proc s))"
proof -
  obtain s1 f where a: "alloc_future s = (s1, f)" by fastforce
  obtain s2 h where b: "alloc_handle (AsyncHandle (Some f)) proc s1 = (s2, h)" by fastforce
  let ?s3 = "upd_future f (\<lambda>x. x\<lparr>fwrapped := Some h\<rparr>) s2"
  have q: "queue ?s3 = queue s" "timers ?s3 = timers s" "next_hid s \<le> h" "h < next_hid ?s3"
    "handle_work rk (handles ?s3 h) \<le> cb_work rk proc" "futures ?s3 = (futures s)(f := futures ?s3 f)"
    "fcallbacks (futures ?s3 f) = []" "\<And>k. k < next_hid s \<Longrightarrow> handles ?s3 k = handles s k" "next_hid ?s3 = Suc (next_hid s)"
    using a b by (auto simp: alloc_handle_def alloc_future_def upd_future_def new_handle_obj_def handle_work_def fun_eq_iff)
  have "costs rk ext msgs cap 0 s ?s3"
  proof (rule costsI)
    show "api_frame ext msgs cap s ?s3" using a b by (rule trio_pair_frame)
    assume fin: "finite (waiting_futures s)"
    show "finite (waiting_futures ?s3) \<and> future_work rk ?s3 \<le> future_work rk s + 0"
      using future_work_upd(1) [OF fin q(6)] future_work_upd(2) [where rk = rk, OF fin q(6)] q(7) by simp
  qed (simp add: q)
  then have "costs rk ext msgs cap (0 + 3 + cb_work rk proc) s (fst (m_queue_handle M h ?s3))"
    using q by (intro enqueue_cost) simp_all
  then show ?thesis
    by (cases "m_queue_handle M h ?s3") (auto simp: trio_as_future_def a b py_bind_def split: sum.split)
qed

lemma call_soon_cost: "costs rk ext msgs cap (3 + cb_work rk cb) s (fst (call_soon M cb s))"
  unfolding call_soon_def by (intro costs_bind0 costs_checks queue_new_cost) simp

lemma call_at_cost: "costs rk ext msgs cap (3 + cb_work rk cb) s (fst (call_at M t cb s))"
  unfolding call_at_def by (intro costs_bind0 costs_checks queue_new_cost) simp

lemma call_later_cost: "costs rk ext msgs cap (3 + cb_work rk cb) s (fst (call_later M d cb s))"
  unfolding call_later_def
  by (intro costs_bind0 costs_checks) (auto intro!: costs_bind0 costs_checks queue_new_cost)

lemma call_soon_threadsafe_cost: "costs rk ext msgs cap 0 s (fst (call_soon_threadsafe cb s))"
  by (rule costs_same [OF frame_call_soon_threadsafe])
    (auto simp: call_soon_threadsafe_def py_bind_def check_callback_def check_closed_def
      alloc_handle_def split: sum.splits)

lemma call_soon_all_cost: "costs rk ext msgs cap (cbs_work rk cbs) s (fst (call_soon_all M cbs s))"
proof (induction cbs arbitrary: s)
  case (Cons cb cbs)
  show ?case unfolding call_soon_all.simps cbs_work_simps
    by (rule costs_bind) (auto intro: call_soon_cost Cons)
qed simp

lemma scoped_cancel_cost: "costs rk ext msgs cap 0 s (fst (scoped_cancel M h s))"
  unfolding scoped_cancel_def scoped_cancel_by_def
  using costs_trans [OF costs_handle_cancel io_cancel_cost] by simp

lemma add_reader_api_cost: "costs rk ext msgs cap 0 s (fst (add_reader M fd cb s))"
  unfolding add_reader_def by (intro costs_bind0 costs_no_transport add_reader_cost)

lemma add_writer_api_cost: "costs rk ext msgs cap 0 s (fst (add_writer M fd cb s))"
  unfolding add_writer_def by (intro costs_bind0 costs_no_transport add_writer_cost)

lemma take_slot_cost:
  assumes f: "api_frame ext msgs cap s (fst (take_slot M sel old s))"
  shows "costs rk ext msgs cap 0 s (fst (take_slot M sel old s))"
proof -
  let ?s1 = "s\<lparr>selector := sel\<rparr>"
  have "costs rk ext msgs cap 0 ?s1 (fst (take_slot M sel old s))"
    by (auto simp: take_slot_def intro: costs_bind0 scoped_cancel_cost split: option.split)
  moreover have "work rk msgs ?s1 = work rk msgs s" "bounded msgs ?s1 = bounded msgs s" "ranked rk ?s1 = ranked rk s"
    by (simp_all add: work_def queue_work_def timer_work_def future_work_def bounded_def waiting_futures_def ranked_def)
  ultimately show ?thesis using f by (simp add: costs_def)
qed

lemma remove_impl_cost:
  "costs rk ext msgs cap 0 s (fst (remove_reader_impl M fd s))" "costs rk ext msgs cap 0 s (fst (remove_writer_impl M fd s))"
  using remove_reader_impl_frame [of s fd] remove_writer_impl_frame [of s fd]
  by (auto simp: remove_reader_impl_def remove_writer_impl_def intro: take_slot_cost split: option.splits)

lemma remove_reader_cost: "costs rk ext msgs cap 0 s (fst (remove_reader M fd s))"
  unfolding remove_reader_def by (intro costs_bind0 costs_no_transport remove_impl_cost)

lemma remove_writer_cost: "costs rk ext msgs cap 0 s (fst (remove_writer M fd s))"
  unfolding remove_writer_def by (intro costs_bind0 costs_no_transport remove_impl_cost)

lemma cancel_handle_cost: "costs rk ext msgs cap 0 s (fst (cancel_handle M h s))"
  by (simp add: cancel_handle_def scoped_cancel_cost costs_handle_cancel split: hkind.split)

text \<open>Resolving a future turns its callbacks into messages, at no cost.\<close>

lemma fut_resolve_cost:
  assumes "\<not> fut_done f s"
  shows "costs rk ext msgs cap 0 s (fst (fut_resolve M f st s))"
proof -
  let ?g = "\<lambda>x. x\<lparr>fstate := st, fcallbacks := []\<rparr>" and ?cbs = "fcallbacks (futures s f)"
  let ?s1 = "upd_future f ?g s" and ?s2 = "fst (fut_resolve M f st s)"
  have c: "costs rk ext msgs cap (cbs_work rk ?cbs) ?s1 ?s2"
    unfolding fut_resolve_def by (rule call_soon_all_cost)
  have f1: "costs rk ext msgs cap 0 s ?s1"
    using assms by (intro costs_upd_future) (auto simp: future_frame_def fut_done_def)
  have "work rk msgs ?s1 + cbs_work rk ?cbs = work rk msgs s" if "bounded msgs s"
  proof -
    have fin: "finite (waiting_futures s)" using that by (simp add: bounded_def)
    have eq: "futures ?s1 = (futures s)(f := ?g (futures s f))" by (simp add: upd_future_def)
    from future_work_upd(2) [where rk = rk, OF fin eq] show ?thesis
      by (simp add: work_def queue_work_def timer_work_def) (simp add: upd_future_def)
  qed
  moreover have "bounded msgs ?s1" if "bounded msgs s"
    using f1 that frame_bounded by (auto simp: costs_def)
  moreover have "ranked rk ?s1 = ranked rk s" by (rule frame_ranked [OF costs_frame [OF f1]])
  ultimately show ?thesis
    using c api_frame_trans [OF costs_frame [OF f1] costs_frame [OF c]]
    by (cases "ranked rk s") (auto simp: costs_def)
qed

lemma fut_orig_cancel_cost: "costs rk ext msgs cap 0 s (fst (fut_orig_cancel M f msg s))"
  by (auto simp: fut_orig_cancel_def intro!: costs_bind0 fut_resolve_cost)

lemma fut_set_result_cost: "costs rk ext msgs cap 0 s (fst (fut_set_result M f r s))"
  by (simp add: fut_set_result_def fut_resolve_cost)

lemma fut_set_exception_cost: "costs rk ext msgs cap 0 s (fst (fut_set_exception M f e s))"
  by (simp add: fut_set_exception_def fut_resolve_cost)

lemma add_done_callback_cost: "costs rk ext msgs cap (3 + cb_work rk cb) s (fst (add_done_callback M f cb s))"
  by (auto simp: add_done_callback_def future_frame_def
      intro!: costs_upd_future costs_bind_last call_soon_cost)

lemma wrapped_cancel_cost: "costs rk ext msgs cap 0 s (fst (wrapped_cancel M h f msg s))"
proof -
  have "costs rk ext msgs cap (0 + 0) s (fst (py_bind (scoped_cancel M h) (\<lambda>_. py_return True)
      (upd_handle h (\<lambda>x. x\<lparr>hcancel_message := m\<rparr>) s)))" for m
    by (rule costs_trans [OF costs_upd_handle costs_bind0])
      (auto simp: handle_frame_def intro: scoped_cancel_cost)
  then show ?thesis by (simp add: wrapped_cancel_def fut_orig_cancel_cost)
qed

lemma fut_cancel_cost: "costs rk ext msgs cap 0 s (fst (fut_cancel M f msg s))"
  by (simp add: fut_cancel_def fut_orig_cancel_cost wrapped_cancel_cost split: option.split)

lemmas op_costs = call_soon_cost call_later_cost call_at_cost call_soon_threadsafe_cost
  trio_as_future_cost queue_new_cost cancel_handle_cost fut_cancel_cost
  add_done_callback_cost stop_cost costs_alloc_future fut_set_result_cost fut_set_exception_cost
  add_reader_api_cost add_writer_api_cost remove_reader_cost remove_writer_cost costs_autoclose

lemma exec_api_cost: "costs rk ext msgs cap (api_work rk a) s (fst (exec_api M a s))"
  by (cases a) (simp_all add: op_costs costs_discard run_trio_task_def del: add_2_eq_Suc' add_2_eq_Suc)

lemma exec_apis_cost: "costs rk ext msgs cap (sum_list (map (api_work rk) as)) s (fst (exec_apis M as s))"
proof (induction as arbitrary: s)
  case (Cons a as)
  show ?case unfolding exec_apis.simps list.map sum_list.Cons
    by (rule costs_bind) (auto intro: exec_api_cost Cons)
qed simp

lemma run_trace_cost: "costs rk ext msgs cap (sum_list (map (api_work rk) (fst t))) s (fst (run_trace M t s))"
  unfolding run_trace_def by (rule costs_bind_last) (auto intro: exec_apis_cost split: option.split)

lemma run_callback_cost: "costs rk ext msgs cap (cb_work rk cb) s (fst (run_callback M cb s))"
proof (cases cb)
  case (UserCallback as r)
  then show ?thesis using run_trace_cost [of rk "(as, r)" s] by simp
next
  case (UserFunction n)
  then show ?thesis using costs_ranked [OF run_trace_cost] by (simp add: ranked_def)
qed (simp_all add: costs_set_event do_stop_cost is_done_cost)

lemma call_exception_handler_cost: "costs rk ext msgs cap 0 s (fst (call_exception_handler M ctx s))"
  using handler_cost [of rk s ctx]
  by (cases "m_default_exception_handler M ctx s") (auto simp: call_exception_handler_def split: sum.split)

lemma handle_run_cost: "costs rk ext msgs cap (handle_work rk (handles s h)) s (fst (handle_run M h s))"
proof -
  obtain s1 r where a: "(case hcallback (handles s h) of None \<Rightarrow> py_raise TypeError s
            | Some cb \<Rightarrow> run_callback M cb s) = (s1, r)" by fastforce
  then have "costs rk ext msgs cap (handle_work rk (handles s h)) s s1"
    using run_callback_cost [of rk _ s] by (auto simp: handle_work_def split: option.splits) (metis fst_conv)
  then show ?thesis
    using costs_trans [OF _ call_exception_handler_cost, of rk "handle_work rk (handles s h)" s s1]
    by (auto simp: handle_run_def a split: sum.split)
qed

lemma async_run_begin_cost: "costs rk ext msgs cap 0 s (fst (async_run_begin M h s))"
proof -
  let ?s1 = "upd_handle h (\<lambda>x. x\<lparr>hstarted := True\<rparr>) s"
  have s1: "costs rk ext msgs cap 0 s ?s1" by (rule costs_upd_handle) (simp_all add: handle_frame_def)
  have "costs rk ext msgs cap 0 s (fst (async_run_begin M h s))" if c: "hcancelled (handles ?s1 h)"
  proof (rule costs_after [of ext msgs cap s _ "finish h ?s1"])
    show "costs rk ext msgs cap 0 (finish h ?s1) (fst (async_run_begin M h s))"
      using c by (auto simp: async_run_begin_def Let_def intro!: costs_bind0 fut_cancel_cost split: option.split)
  qed (use async_run_begin_frame in \<open>simp_all add: finish_work upd_handle_work\<close>)
  then show ?thesis using s1 by (cases "hcancelled (handles ?s1 h)") (simp_all add: async_run_begin_def)
qed

end

section \<open>One iteration of the drain\<close>

lemma work_cong:
  "queue s' = queue s \<Longrightarrow> timers s' = timers s \<Longrightarrow> handles s' = handles s \<Longrightarrow> futures s' = futures s \<Longrightarrow>
   work rk msgs s' = work rk msgs s"
  by (simp add: work_def queue_work_def timer_work_def future_work_def waiting_futures_def)

lemma bounded_cong:
  "queue s' = queue s \<Longrightarrow> timers s' = timers s \<Longrightarrow> next_hid s' = next_hid s \<Longrightarrow> futures s' = futures s \<Longrightarrow>
   bounded msgs s' = bounded msgs s"
  by (simp add: bounded_def waiting_futures_def)

lemma inv_bounded: "loop_inv msgs s \<Longrightarrow> finite (waiting_futures s) \<Longrightarrow> bounded msgs s"
  by (auto simp: loop_inv_def bounded_def ids_ok_def timers_ok_def)

text \<open>A timer leaves the heap; a message leaves the channel.\<close>

lemma pop_work:
  assumes "heappop fst (timers s) = Some ((w, h), ts)"
  shows "work rk msgs s = work rk msgs (s\<lparr>timers := ts\<rparr>) + 2 + handle_work rk (handles s h)"
  using mset_heappop [OF assms]
  by (simp add: work_def queue_work_def timer_work_def future_work_def waiting_futures_def)

lemma push_work:
  "work rk msgs (s\<lparr>timers := heappush fst (timers s) (w, h)\<rparr>) = work rk msgs s + 2 + handle_work rk (handles s h)"
  by (simp add: work_def queue_work_def timer_work_def future_work_def waiting_futures_def mset_heappush)

lemma receive_work:
  assumes "msgs (queue s) = h # msgs q"
  shows "work rk msgs s = work rk msgs (s\<lparr>queue := q, received := r\<rparr>) + 3 + handle_work rk (handles s h)"
  by (simp add: work_def queue_work_def timer_work_def future_work_def waiting_futures_def assms)

lemma call_exception_handler_exit:
  "call_exception_handler M ctx s = (s', Inl e) \<Longrightarrow> is_exit e"
  by (auto simp: call_exception_handler_def split: prod.splits sum.splits if_splits)

lemma handle_run_exit: "handle_run M h s = (s', Inl e) \<Longrightarrow> is_exit e"
  unfolding handle_run_def
  by (auto split: prod.splits sum.splits if_splits dest: call_exception_handler_exit)

lemma dispatch_exit:
  assumes "dispatch M obj s = (s', Inl e)" and "nursery s"
  shows "is_exit e \<or> nursery_closed s \<and> e = nursery_is_closed"
  using assms by (auto simp: dispatch_def split: hkind.splits prod.splits sum.splits if_splits
      dest: handle_run_exit)

context loop_methods_cost
begin

lemma dispatch_work:
  assumes b: "bounded msgs s" and d: "dispatch M obj s = (s', r)"
  shows "bounded msgs s' \<and> (ranked rk s \<longrightarrow> work rk msgs s' \<le> work rk msgs s + handle_work rk (handles s obj))"
proof (cases "\<exists>f. kind (handles s obj) = AsyncHandle f")
  case True
  let ?s0 = "s\<lparr>started_tasks := started_tasks s @ [obj]\<rparr>"
  have b0: "bounded msgs ?s0" "work rk msgs ?s0 = work rk msgs s" "ranked rk ?s0 = ranked rk s"
    using b by (simp_all add: bounded_cong [of ?s0 s] work_cong [of ?s0 s] ranked_def)
  obtain s1 q where a: "async_run_begin M obj ?s0 = (s1, q)" by fastforce
  have 1: "bounded msgs s1 \<and> (ranked rk s \<longrightarrow> work rk msgs s1 \<le> work rk msgs s)"
    using costs_bounded [OF async_run_begin_cost [where rk = rk and h = obj] b0(1)] a b0(2,3) by simp
  have "s' = s \<or> s' = s1 \<or> (\<exists>es. s' = s1\<lparr>task_errors := es\<rparr>)"
    using d True a by (auto simp: dispatch_def split: sum.splits if_splits)
  then show ?thesis
    using 1 b by (auto simp: bounded_cong [of "s1\<lparr>task_errors := _\<rparr>" s1] work_cong [of "s1\<lparr>task_errors := _\<rparr>" s1])
next
  case False
  let ?s0 = "s\<lparr>sniffio := Some ''asyncio'', ran := ran s @ [obj]\<rparr>"
  have b0: "bounded msgs ?s0" "work rk msgs ?s0 = work rk msgs s" "ranked rk ?s0 = ranked rk s"
    using b by (simp_all add: bounded_cong [of ?s0 s] work_cong [of ?s0 s] ranked_def)
  obtain s1 q where a: "handle_run M obj ?s0 = (s1, q)" by fastforce
  have 1: "bounded msgs s1 \<and> (ranked rk s \<longrightarrow> work rk msgs s1 \<le> work rk msgs s + handle_work rk (handles s obj))"
    using costs_bounded [OF handle_run_cost [where rk = rk and h = obj] b0(1)] a b0(2,3) by simp
  have "s' = s \<or> s' = s1\<lparr>sniffio := sniffio s\<rparr>"
    using d False a by (auto simp: dispatch_def split: hkind.splits if_splits)
  then show ?thesis
    using 1 b by (auto simp: bounded_cong [of "s1\<lparr>sniffio := _\<rparr>" s1] work_cong [of "s1\<lparr>sniffio := _\<rparr>" s1])
qed

lemma accept_work:
  assumes b: "bounded msgs s" and rc: "receive C s = Some (h, s1)" and a: "accept M h s1 = (s', r)"
  shows "bounded msgs s' \<and> (ranked rk s \<longrightarrow> work rk msgs s' < work rk msgs s)"
proof -
  obtain q where s1: "s1 = s\<lparr>queue := q, received := received s @ [h]\<rparr>"
    and m: "msgs (queue s) = h # msgs q" using receive_cases [OF rc] by auto
  have w1: "work rk msgs s = work rk msgs s1 + 3 + handle_work rk (handles s1 h)" "ranked rk s1 = ranked rk s"
    using receive_work [OF m, of rk "received s @ [h]"] by (simp_all add: s1 ranked_def)
  have b1: "bounded msgs s1" and h: "h < next_hid s1" using b m by (auto simp: bounded_def s1 waiting_futures_def)
  show ?thesis
  proof (cases "is_timer (kind (handles s1 h))")
    case True
    then obtain w where "kind (handles s1 h) = TimerHandle w" by (cases "kind (handles s1 h)") auto
    then have s': "s' = s1\<lparr>timers := heappush fst (timers s1) (w, h)\<rparr>" using a by (simp add: accept_def)
    have "set (timers s') = insert (w, h) (set (timers s1))"
      using arg_cong [OF mset_heappush [of fst "timers s1" "(w, h)"], of set_mset] by (simp add: s')
    then have "bounded msgs s'" using b1 h by (auto simp: bounded_def s' waiting_futures_def)
    then show ?thesis using w1 push_work [of rk msgs s1 w h] by (simp add: s')
  next
    case False
    then have "dispatch M h s1 = (s', r)" using a by (auto simp: accept_def split: hkind.splits)
    from dispatch_work [OF b1 this, of rk] w1 show ?thesis by auto
  qed
qed

end

text \<open>When the loop would wait, no timer is due.\<close>

definition no_timer_due :: "('q, 'z) loop_scheme \<Rightarrow> bool" where
  "no_timer_due s \<longleftrightarrow> (\<forall>(w, h) \<in> set (timers s). clock s < w)"

lemma poll_timers_idle:
  assumes "timers_ok s" and "task s" and "poll_timers s = (s1, Inr (None, t))"
  shows "no_timer_due s"
proof (cases "timers s")
  case Nil
  then show ?thesis by (simp add: no_timer_due_def)
next
  case (Cons x xs)
  obtain w h where x: "x = (w, h)" by fastforce
  have "clock s < w"
    using assms(2,3) Cons x
    by (auto simp: poll_timers_def py_bind_def loop_time_def Let_def split: if_splits option.splits)
  moreover have "w \<le> w'" if m: "(w', h') \<in> set (timers s)" for w' h'
  proof -
    obtain j where "j < length (timers s)" "timers s ! j = (w', h')" using m by (auto simp: in_set_conv_nth)
    then show ?thesis using assms(1) heap_inv_least [of fst "timers s" j] Cons x by (simp add: timers_ok_def)
  qed
  ultimately show ?thesis by (fastforce simp: no_timer_due_def)
qed

lemma poll_timers_no_error: "task s \<Longrightarrow> poll_timers s \<noteq> (s1, Inl e)"
  by (auto simp: poll_timers_def py_bind_def loop_time_def Let_def heappop_None
      split: list.splits option.splits)

lemma costs_zero_trans: "costs rk ext msgs cap 0 a b \<Longrightarrow> costs rk ext msgs cap k b c \<Longrightarrow> costs rk ext msgs cap k a c"
  using costs_trans [of rk ext msgs cap 0 a b k c] by simp

section \<open>Steps keep what the exit relies on\<close>

context loop_methods_cost
begin

lemma async_propagate_cost: "costs rk ext msgs cap 0 s (fst (async_propagate M h b s))"
  by (simp add: async_propagate_def costs_discard fut_cancel_cost fut_set_result_cost
      split: body.split option.split)

lemma opt_raise_cost: "costs rk ext msgs cap 0 s (fst (opt_raise e s))"
  by (simp add: opt_raise_def split: option.split)

lemma async_except_cost: "costs rk ext msgs cap 0 s (fst (async_except M h e s))"
  by (auto simp: async_except_def handle_raise_def costs_discard fut_cancel_cost fut_set_exception_cost
      call_exception_handler_cost opt_raise_cost intro!: costs_bind0 split: option.split prod.split)

lemma async_run_end_cost: "costs rk ext msgs cap 0 s (fst (async_run_end M h b s))"
proof (rule costs_after [of ext msgs cap s _ "finish h s"])
  obtain s1 r where a: "async_propagate M h b (finish h s) = (s1, r)" by fastforce
  have 2: "costs rk ext msgs cap 0 (finish h s) s1" using async_propagate_cost [of rk "finish h s" h b] a by simp
  show "costs rk ext msgs cap 0 (finish h s) (fst (async_run_end M h b s))"
    using 2 costs_zero_trans [OF 2 async_except_cost] by (simp add: async_run_end_def a split: sum.split)
qed (simp_all add: async_run_end_frame finish_work)

text \<open>What \<open>_main_loop_exit\<close> needs of the state when the loop has stopped.\<close>

lemma waiting_cong: "futures s' = futures s \<Longrightarrow> waiting_futures s' = waiting_futures s"
  by (simp add: waiting_futures_def)

lemma after_one_outer:
  "outer s' = outer s \<Longrightarrow> finite (waiting_futures s') \<Longrightarrow>
   outer (fst (after_one (s', r))) = outer s \<and> finite (waiting_futures (fst (after_one (s', r))))"
  by (simp add: after_one_def leave_loop_def outer_def waiting_futures_def split: sum.split)

lemma loop_top_outer:
  assumes inv: "loop_inv msgs s" and fin: "finite (waiting_futures s)"
  shows "outer (fst (loop_top M s)) = outer s \<and> finite (waiting_futures (fst (loop_top M s)))"
proof (cases s rule: poll_timers_cases)
  case (due w obj ts t)
  let ?s1 = "s\<lparr>timers := ts\<rparr>"
  obtain s2 r where d: "dispatch M obj ?s1 = (s2, r)" by fastforce
  have "set ts \<subseteq> set (timers s)"
    using arg_cong [OF mset_heappop [OF due(2)], of set_mset] by auto
  then have "bounded msgs ?s1" using inv_bounded [OF inv fin] by (auto simp: bounded_def waiting_futures_def)
  then have "finite (waiting_futures s2)" using dispatch_work [OF _ d] by (simp add: bounded_def)
  moreover have "outer s2 = outer s" using dispatch_frame [OF d] by (simp add: run_frame_def outer_def)
  ultimately have "outer (fst (after_one (s2, r))) = outer s \<and> finite (waiting_futures (fst (after_one (s2, r))))"
    by (intro after_one_outer)
  then show ?thesis using due(1) d fin
    by (simp add: loop_top_def) (simp add: leave_loop_def outer_def waiting_futures_def)
next
  case (error e)
  then show ?thesis using fin by (simp add: loop_top_def leave_loop_def outer_def waiting_futures_def)
next
  case (idle t)
  then show ?thesis using fin by (simp add: loop_top_def leave_loop_def outer_def waiting_futures_def)
qed

lemma loop_receive_outer:
  assumes inv: "loop_inv msgs s" and fin: "finite (waiting_futures s)" and c: "loop_receive C M s = Some c"
  shows "outer (fst c) = outer s \<and> finite (waiting_futures (fst c))"
proof -
  obtain h s1 where rc: "receive C s = Some (h, s1)" and c': "c = after_one (accept M h s1)"
    using c by (auto simp: loop_receive_def split: option.splits)
  obtain s2 r where a: "accept M h s1 = (s2, r)" by fastforce
  have "finite (waiting_futures s2)"
    using accept_work [OF inv_bounded [OF inv fin] rc a] by (simp add: bounded_def)
  moreover have o1: "outer s1 = outer s" using receive_cases [OF rc] by (auto simp: outer_def)
  have "outer s2 = outer s1"
  proof (cases "is_timer (kind (handles s1 h))")
    case True
    then show ?thesis using a by (cases "kind (handles s1 h)") (auto simp: accept_def outer_def)
  next
    case False
    then have "dispatch M h s1 = (s2, r)" using a by (auto simp: accept_def split: hkind.splits)
    then show ?thesis using dispatch_frame by (simp add: run_frame_def)
  qed
  ultimately show ?thesis using after_one_outer [of s2 s r] a c' o1 by simp
qed

text \<open>A reader or writer's task goes on.\<close>

lemma synchronize_begin_cost: "costs rk ext msgs cap 3 s (fst (synchronize_begin M s))"
proof -
  obtain s1 w where a: "alloc_event s = (s1, w)" by fastforce
  have "costs rk ext msgs cap 0 s s1" using costs_alloc_event [of rk ext msgs cap s] a by simp
  moreover have "costs rk ext msgs cap 3 s1 (fst (queue_new (m_queue_handle M) PlainHandle (SetEvent w) s1))"
    using queue_new_cost [where cb = "SetEvent w" and s = s1 and k = PlainHandle] by simp
  ultimately have "costs rk ext msgs cap 3 s (fst (queue_new (m_queue_handle M) PlainHandle (SetEvent w) s1))"
    by (rule costs_zero_trans)
  then show ?thesis by (auto simp: synchronize_begin_def a py_bind_def split: prod.split sum.split)
qed

lemma io_except_cost: "costs rk ext msgs cap 0 s (fst (io_except M e s))"
  using call_exception_handler_cost [of rk s "(Some e, Some ''Exception in callback'')"]
  by (cases "call_exception_handler M (Some e, Some ''Exception in callback'') s")
    (simp add: io_except_def split: sum.split)

lemma io_run_cost:
  "costs rk ext msgs cap (handle_work rk (handles s h) + 3) (s\<lparr>ran := ran s @ [h]\<rparr>) (fst (io_run M h s))"
proof -
  let ?f = "py_bind (handle_run M h) (\<lambda>_. synchronize_begin M)" and ?s = "s\<lparr>ran := ran s @ [h]\<rparr>"
  have "costs rk ext msgs cap (handle_work rk (handles ?s h) + 3) ?s (fst (?f ?s))"
    by (intro costs_bind handle_run_cost synchronize_begin_cost)
  then show ?thesis
    using costs_trans [OF _ io_except_cost, of rk "handle_work rk (handles s h) + 3" ?s]
    by (cases "?f ?s") (auto simp: io_run_def split: sum.split)
qed

lemma io_advance_outer:
  assumes "loop_inv msgs s" and fin: "finite (waiting_futures s)"
  shows "outer (io_advance M h wake s) = outer s \<and> finite (waiting_futures (io_advance M h wake s))"
proof -
  obtain s' pc where st: "io_step M h wake s (io_state s h) = (s', pc)" by fastforce
  have b: "bounded msgs s" "bounded msgs (s\<lparr>ran := r\<rparr>)" for r
    using inv_bounded [OF assms] by (simp_all add: bounded_def waiting_futures_def)
  from st have "outer s' = outer s \<and> finite (waiting_futures s')"
  proof (cases rule: io_step_cases)
    case (failed e)
    then have "costs rk ext msgs cap 0 s s'" using io_except_cost [of rk s e] by simp
    then show ?thesis using costs_bounded [OF _ b(1)] api_outer [OF costs_frame] by (auto simp: bounded_def)
  next
    case runs
    then have "costs rk ext msgs cap (handle_work rk (handles s h) + 3) (s\<lparr>ran := ran s @ [h]\<rparr>) s'"
      using io_run_cost [of rk s h] by simp
    from costs_bounded [OF this b(2)] api_outer [OF costs_frame [OF this]] show ?thesis
      by (auto simp: bounded_def outer_def)
  qed (use fin in simp)
  then show ?thesis by (simp add: io_advance_def st outer_def waiting_futures_def)
qed

lemma loop_step_outer:
  assumes "loop_step C M c c'" and "conf_inv msgs c" and "finite (waiting_futures (fst c))"
  shows "outer (fst c') = outer (fst c) \<and> finite (waiting_futures (fst c'))"
  using assms
proof (induction rule: loop_step.induct)
  case (top s)
  then show ?case using loop_top_outer by (simp add: conf_inv_def)
next
  case (message s c d)
  then show ?case using loop_receive_outer [of s c] by (simp add: conf_inv_def)
next
  case (call a s s' r p)
  have "costs rk ext msgs cap (api_work rk a) s s'" using exec_api_cost [of rk a s] call by simp
  then show ?case using call costs_bounded [of rk ext msgs cap _ s s'] inv_bounded [of msgs s] api_outer [OF costs_frame]
    by (auto simp: conf_inv_def bounded_def)
next
  case (soon s s' u p)
  then have "outer s' = outer s \<and> futures s' = futures s"
    by (auto simp: run_sync_soon_one_def Let_def outer_def split: list.splits option.splits)
  then show ?case using soon waiting_cong [of s' s] by simp
next
  case (async_end h s b s' r p)
  have c: "costs rk ext msgs cap 0 s s'" using async_run_end_cost [of rk s h b] async_end by simp
  have "finite (waiting_futures s')"
    using c async_end costs_bounded [OF c] inv_bounded [of msgs s] by (auto simp: conf_inv_def bounded_def)
  then show ?case using api_outer [OF costs_frame [OF c]]
    by (simp add: outer_def waiting_futures_def split: sum.split)
next
  case (io fd h reading s p wake)
  then show ?case using io_advance_outer by (simp add: conf_inv_def)
qed (simp_all add: outer_def waiting_futures_def)

lemma loop_steps_outer:
  assumes "loop_steps C M c c'" and "conf_inv msgs c" and "finite (waiting_futures (fst c))"
  shows "conf_inv msgs c' \<and> outer (fst c') = outer (fst c) \<and> finite (waiting_futures (fst c'))"
  using assms
proof (induction rule: rtranclp_induct)
  case (step c1 c2)
  then show ?case using loop_step_outer loop_step_inv by metis
qed simp

end

section \<open>The drain\<close>

text \<open>How the drain ends: with nothing left to do, by an exit, or by a Trio function that it
  cannot start any more.\<close>

definition drained :: "('q \<Rightarrow> hid list) \<Rightarrow> ('q, 'z) loop_scheme \<Rightarrow> exn + unit \<Rightarrow> bool" where
  "drained msgs s r \<longleftrightarrow> (case r of
     Inr _ \<Rightarrow> msgs (queue s) = [] \<and> no_timer_due s
   | Inl e \<Rightarrow> is_exit e \<and> e \<noteq> TrioAsyncioExit \<or> nursery_closed s \<and> e = nursery_is_closed)"

text \<open>The state of the drain, and what it has done since \<open>t\<close>.\<close>

definition draining ::
  "('z \<Rightarrow> 'z \<Rightarrow> bool) \<Rightarrow> ('q \<Rightarrow> hid list) \<Rightarrow> ('q, 'z) loop_scheme \<Rightarrow> ('q, 'z) loop_scheme \<Rightarrow> bool" where
  "draining ext msgs t s \<longleftrightarrow> loop_inv msgs s \<and> finite (waiting_futures s) \<and> task s \<and> evolves ext msgs t s \<and>
     outer s = outer t \<and> stopped s = stopped t"

text \<open>The others give the loop no more work from some iteration on.\<close>

definition adds_no_work ::
  "('q \<Rightarrow> hid list) \<Rightarrow> (nat \<Rightarrow> nat) \<Rightarrow> (nat \<Rightarrow> ('q, 'z) loop_scheme \<Rightarrow> ('q, 'z) loop_scheme) \<Rightarrow> nat \<Rightarrow> bool" where
  "adds_no_work msgs rk others N \<longleftrightarrow> (\<forall>i \<ge> N. \<forall>t. work rk msgs (others i t) \<le> work rk msgs t)"

lemma drain_go:
  "main_loop_one_nowait C M s = (s', r) \<Longrightarrow> r = Inr () \<or> r = Inl TrioAsyncioExit \<Longrightarrow>
   drain C M others i s = drain C M others (Suc i) (others i s')"
  by (subst drain.simps) auto

lemma drain_stop:
  "main_loop_one_nowait C M s = (s', Inl e) \<Longrightarrow> e \<noteq> TrioAsyncioExit \<Longrightarrow>
   drain C M others i s = Some (s', if e = WouldBlock then Inr () else Inl e)"
  by (subst drain.simps) simp

text \<open>What every iteration keeps holds when the drain returns.\<close>

lemma drain_induct:
  assumes d: "drain C M others i s = Some x"
    and stop: "\<And>s s' e. P s \<Longrightarrow> main_loop_one_nowait C M s = (s', Inl e) \<Longrightarrow> e \<noteq> TrioAsyncioExit \<Longrightarrow>
      Q s (s', if e = WouldBlock then Inr () else Inl e)"
    and go: "\<And>i s s' r. P s \<Longrightarrow> main_loop_one_nowait C M s = (s', r) \<Longrightarrow> r = Inr () \<or> r = Inl TrioAsyncioExit \<Longrightarrow>
      P (others i s') \<and> (\<forall>x. Q (others i s') x \<longrightarrow> Q s x)"
    and start: "P s"
  shows "Q s x"
proof -
  have "C' = C \<longrightarrow> M' = M \<longrightarrow> os = others \<longrightarrow> P s \<longrightarrow> Q s x" if "drain C' M' os i s = Some x" for C' M' os i s x
  proof (rule drain.raw_induct [OF _ that])
    fix drain' C' M' os i s x
    assume IH: "\<And>C' M' os i s x. drain' C' M' os i s = Some x \<Longrightarrow> C' = C \<longrightarrow> M' = M \<longrightarrow> os = others \<longrightarrow> P s \<longrightarrow> Q s x"
      and body: "(case main_loop_one_nowait C' M' s of (s', Inl e) \<Rightarrow>
          if e = WouldBlock then Some (s', Inr ()) else if e = TrioAsyncioExit then drain' C' M' os (Suc i) (os i s')
          else Some (s', Inl e)
        | (s', Inr _) \<Rightarrow> drain' C' M' os (Suc i) (os i s')) = Some x"
    obtain s1 r where one: "main_loop_one_nowait C' M' s = (s1, r)" by fastforce
    have "Q s x" if q: "C' = C" "M' = M" "os = others" "P s"
    proof (cases "r = Inr () \<or> r = Inl TrioAsyncioExit")
      case True
      have "drain' C' M' os (Suc i) (os i s1) = Some x" using True body one by auto
      from IH [OF this] go [of s s1 r i] one True q show ?thesis by blast
    next
      case False
      then obtain e where "r = Inl e" "e \<noteq> TrioAsyncioExit" by (cases r) auto
      then show ?thesis using stop [of s s1 e] one q body by (auto split: if_splits)
    qed
    then show "C' = C \<longrightarrow> M' = M \<longrightarrow> os = others \<longrightarrow> P s \<longrightarrow> Q s x" by blast
  qed
  then show ?thesis using d start by blast
qed

text \<open>What happens around a loop that waits.\<close>

lemma other_step_steps:
  "other_step C M c c' \<Longrightarrow> snd c' = snd c \<and> loop_step C M (fst c, p) (fst c', p)"
  by (induction rule: other_step.induct) (auto intro: loop_step.intros)

lemma meanwhile_steps:
  assumes "meanwhile C M s s'"
  shows "loop_steps C M (s, p) (s', p)"
proof -
  have "loop_steps C M (fst c, p) (fst c', p)" if "(other_step C M)\<^sup>*\<^sup>* c c'" for c c'
    using that
  proof (induction rule: rtranclp_induct)
    case (step c1 c2)
    then show ?case using other_step_steps [OF step.hyps(2), of p] by auto
  qed simp
  then show ?thesis using assms by (fastforce simp: meanwhile_def)
qed

lemma meanwhile_refl [simp]: "meanwhile C M s s"
  by (simp add: meanwhile_def)

context loop_methods_cost
begin

lemma one_nowait:
  assumes inv: "loop_inv msgs s" and fin: "finite (waiting_futures s)" and task: "task s"
    and one: "main_loop_one_nowait C M s = (s', r)"
  shows "s' = s \<and> r = Inl WouldBlock \<and> msgs (queue s) = [] \<and> no_timer_due s \<or>
    loop_inv msgs s' \<and> evolves ext msgs s s' \<and> finite (waiting_futures s') \<and> outer s' = outer s \<and>
      stopped s' = stopped s \<and> (ranked rk s \<longrightarrow> work rk msgs s' < work rk msgs s) \<and>
      (\<forall>e. r = Inl e \<longrightarrow> is_exit e \<or> nursery_closed s \<and> e = nursery_is_closed)"
proof (cases s rule: poll_timers_cases)
  case (error e)
  then show ?thesis using poll_timers_no_error [OF task] by blast
next
  case (idle t)
  have due: "no_timer_due s"
    using inv by (intro poll_timers_idle [OF _ task idle]) (simp add: loop_inv_def)
  show ?thesis
  proof (cases "receive C s")
    case None
    then have "msgs (queue s) = []"
      using receive_None_iff by (auto simp: receive_def split: option.splits)
    then show ?thesis using one idle None due by (simp add: main_loop_one_nowait_def py_bind_def)
  next
    case (Some p)
    obtain h s1 where rc: "receive C s = Some (h, s1)" using Some by (cases p) auto
    have a: "accept M h s1 = (s', r)"
      using one idle rc by (simp add: main_loop_one_nowait_def py_bind_def)
    note inv' = accept_inv [OF inv rc a] and w = accept_work [OF inv_bounded [OF inv fin] rc a, of rk]
    have s1: "outer s1 = outer s" "nursery s1" "stopped s1 = stopped s" "nursery_closed s1 = nursery_closed s" using receive_cases [OF rc] inv by (auto simp: loop_inv_def outer_def)
    have "outer s' = outer s \<and> stopped s' = stopped s \<and>
        (\<forall>e. r = Inl e \<longrightarrow> is_exit e \<or> nursery_closed s \<and> e = nursery_is_closed)"
    proof (cases "is_timer (kind (handles s1 h))")
      case True
      then obtain w where "kind (handles s1 h) = TimerHandle w" by (cases "kind (handles s1 h)") auto
      then have s': "s' = s1\<lparr>timers := heappush fst (timers s1) (w, h)\<rparr>" "r = Inr ()"
        using a by (simp_all add: accept_def)
      have "outer s' = outer s1" unfolding s' outer_def by simp
      then show ?thesis using s1(1,3) s' by simp
    next
      case False
      then have "dispatch M h s1 = (s', r)" using a by (auto simp: accept_def split: hkind.splits)
      then show ?thesis
        using dispatch_frame [of h s1 s' r] dispatch_exit [of M h s1 s'] s1 by (simp add: run_frame_def)
    qed
    then show ?thesis using inv' w by (simp add: bounded_def)
  qed
next
  case (due w obj ts t)
  let ?s1 = "s\<lparr>timers := ts\<rparr>"
  have d: "dispatch M obj ?s1 = (s', r)"
    using one due(1) by (simp add: main_loop_one_nowait_def py_bind_def)
  have "mset (timers s) = add_mset (w, obj) (mset ts)" using mset_heappop [OF due(2)] by simp
  then have sub: "set ts \<subseteq> set (timers s)" by (metis set_mset_add_mset_insert set_mset_mset subset_insertI)
  have b: "bounded msgs ?s1" using inv_bounded [OF inv fin] sub by (auto simp: bounded_def waiting_futures_def)
  have "bounded msgs s' \<and> (ranked rk s \<longrightarrow> work rk msgs s' < work rk msgs s)"
    using dispatch_work [OF b d, of rk] pop_work [OF due(2), of rk msgs] by (auto simp: ranked_def)
  moreover have "outer s' = outer s" "stopped s' = stopped s"
    using dispatch_frame [OF d] by (simp_all add: run_frame_def outer_def)
  moreover have "\<forall>e. r = Inl e \<longrightarrow> is_exit e \<or> nursery_closed s \<and> e = nursery_is_closed"
    using dispatch_exit [of M obj ?s1 s'] d inv by (auto simp: loop_inv_def)
  ultimately show ?thesis using poll_dispatch_inv [OF inv due(1) d] by (simp add: bounded_def)
qed

lemma meanwhile_keeps:
  assumes "meanwhile C M s s'" and "loop_inv msgs s" and "finite (waiting_futures s)"
  shows "loop_inv msgs s' \<and> evolves ext msgs s s' \<and> finite (waiting_futures s') \<and> outer s' = outer s \<and> stopped s' = stopped s"
proof -
  define p where "p = (if stopped s then Exited None else Top)"
  have inv: "conf_inv msgs (s, p)" using assms(2) by (simp add: conf_inv_def p_def)
  note st = meanwhile_steps [OF assms(1), of p]
  note 1 = loop_steps_inv [OF st inv] and 2 = loop_steps_outer [OF st inv]
  then show ?thesis using assms(3) by (simp add: conf_inv_def p_def split: if_splits)
qed

lemma draining_one:
  assumes "draining ext msgs t s" and "main_loop_one_nowait C M s = (s', r)" and "meanwhile C M s' s''"
  shows "draining ext msgs t s'" and "draining ext msgs t s''"
proof -
  have s: "loop_inv msgs s" "finite (waiting_futures s)" "task s" "evolves ext msgs t s" "outer s = outer t" "stopped s = stopped t"
    using assms(1) by (simp_all add: draining_def)
  have o: "loop_inv msgs s'" "finite (waiting_futures s')" "outer s' = outer s" "stopped s' = stopped s" "evolves ext msgs s s'"
    using one_nowait [where rk = "\<lambda>_. 0", OF s(1-3) assms(2)] s(1,2) by auto
  moreover have "task s'" using o(3) s(3) by (simp add: outer_def)
  ultimately show d: "draining ext msgs t s'"
    using s(5,6) evolves_trans [OF s(4)] by (simp add: draining_def)
  have m: "loop_inv msgs s''" "finite (waiting_futures s'')" "outer s'' = outer s'" "stopped s'' = stopped s'" "evolves ext msgs s' s''"
    using meanwhile_keeps [OF assms(3) o(1,2)] by simp_all
  moreover have "task s''" using m(3) \<open>task s'\<close> by (simp add: outer_def)
  ultimately show "draining ext msgs t s''"
    using o s(5,6) evolves_trans [OF evolves_trans [OF s(4) o(5)] m(5)] by (simp add: draining_def)
qed

lemma drain_result:
  assumes d: "drain C M others i s = Some (s', r)" and w: "\<And>i t. meanwhile C M t (others i t)"
    and s: "loop_inv msgs s" "finite (waiting_futures s)" "task s"
  shows "loop_inv msgs s' \<and> evolves ext msgs s s' \<and> drained msgs s' r \<and> outer s' = outer s \<and> stopped s' = stopped s"
proof -
  have "draining ext msgs s (fst (s', r)) \<and> drained msgs (fst (s', r)) (snd (s', r))"
  proof (rule drain_induct [OF d, where P = "draining ext msgs s" and Q = "\<lambda>_ x. draining ext msgs s (fst x) \<and> drained msgs (fst x) (snd x)"])
    fix u u' e
    assume u: "draining ext msgs s u" and one: "main_loop_one_nowait C M u = (u', Inl e)" and e: "e \<noteq> TrioAsyncioExit"
    have d': "draining ext msgs s u'" using draining_one(1) [OF u one meanwhile_refl] .
    then have "nursery_closed u' = nursery_closed u" using u by (simp add: draining_def outer_def)
    then show "draining ext msgs s (fst (u', if e = WouldBlock then Inr () else Inl e)) \<and>
        drained msgs (fst (u', if e = WouldBlock then Inr () else Inl e)) (snd (u', if e = WouldBlock then Inr () else Inl e))"
      using one_nowait [OF _ _ _ one] u d' e by (auto simp: draining_def drained_def)
  next
    fix j u u' q
    assume "draining ext msgs s u" "main_loop_one_nowait C M u = (u', q)"
    from draining_one(2) [OF this w] show "draining ext msgs s (others j u') \<and>
        (\<forall>x. draining ext msgs s (fst x) \<and> drained msgs (fst x) (snd x) \<longrightarrow> draining ext msgs s (fst x) \<and> drained msgs (fst x) (snd x))"
      by blast
  qed (use s in \<open>simp add: draining_def\<close>)
  then show ?thesis by (simp add: draining_def)
qed

lemma drain_returns:
  assumes "ranked rk s" and "adds_no_work msgs rk others N" and w: "\<And>i t. meanwhile C M t (others i t)"
    and "loop_inv msgs s" and "finite (waiting_futures s)" and "task s"
  shows "\<exists>x. drain C M others i s = Some x"
proof -
  have wf: "wf (less_than <*lex*> less_than)" by auto
  have "\<exists>x. drain C M others i t = Some x" if "draining ext msgs s t" for i t
    using that
  proof (induction "(N - i, if N \<le> i then work rk msgs t else 0)" arbitrary: i t rule: wf_induct_rule [OF wf])
    case (1 i t)
    obtain t1 r where one: "main_loop_one_nowait C M t = (t1, r)" by fastforce
    show ?case
    proof (cases "r = Inr () \<or> r = Inl TrioAsyncioExit")
      case True
      let ?t2 = "others i t1"
      have "ranked rk t" using 1(2) assms(1) by (simp add: draining_def outer_def ranked_def)
      then have "work rk msgs t1 < work rk msgs t"
        using one_nowait [OF _ _ _ one] 1(2) True by (auto simp: draining_def)
      moreover have "work rk msgs ?t2 \<le> work rk msgs t1" if "N \<le> i" using assms(2) that by (simp add: adds_no_work_def)
      ultimately have "((N - Suc i, if N \<le> Suc i then work rk msgs ?t2 else 0), (N - i, if N \<le> i then work rk msgs t else 0))
          \<in> less_than <*lex*> less_than"
        by (cases "N \<le> i") auto
      from 1(1) [OF this draining_one(2) [OF 1(2) one w]] show ?thesis
        using drain_go [OF one True, of others i] by simp
    next
      case False
      then obtain e where "r = Inl e" "e \<noteq> TrioAsyncioExit" by (cases r) auto
      then show ?thesis using drain_stop [of C M t t1 e others i] one by auto
    qed
  qed
  moreover have "draining ext msgs s s" using assms(4-6) by (simp add: draining_def)
  ultimately show ?thesis by blast
qed

end

end
