(* ===== verification/Loop_Exit.thy ===== *)
theory Loop_Exit
  imports Loop_Drain
begin

text \<open>
  Leaving the loop: the asynchronous loop meets the cost contract, so its drain returns when the work is
  bounded; which step leaves the main loop, and why; \<open>exit_cleanup\<close> cancels every timer and every I/O task, closes the marked descriptors
  and gives the async-generator hooks back.
\<close>

section \<open>The asynchronous loop meets the cost contract\<close>

lemma costs_events: "costs rk ext msgs cap 0 s (s\<lparr>events := ev\<rparr>)"
  by (rule costs_same [OF frame_events]) simp_all

lemma costs_stop_wait: "stop_wait s = None \<Longrightarrow> costs rk ext msgs cap 0 s (s\<lparr>stop_wait := w\<rparr>)"
  by (rule costs_same [OF frame_stop_wait]) simp_all

lemma costs_task_errors: "costs rk ext msgs cap 0 s (s\<lparr>task_errors := es\<rparr>)"
  by (rule costs_same [OF frame_task_errors]) simp_all

context memory_channel
begin

lemma stop_with_cost: "costs rk ext msgs cap 3 s (fst (stop_with C w s))"
  using appends_queue_new_cost [OF queue_handle_async_appends, of PlainHandle rk ext "StopMe w" s] costs_mono [OF costs_set_event, of 3]
  by (auto simp: stop_with_def intro!: costs_bind_last)

lemma stop_async_cost: "costs rk ext msgs cap 3 s (fst (stop_async C w s))"
proof -
  obtain s1 e where a: "alloc_event s = (s1, e)" by fastforce
  have c: "costs rk ext msgs cap 0 s s1" using costs_alloc_event [of rk ext msgs cap s] by (simp add: a)
  have w: "stop_wait s1 = stop_wait s" using a by (auto simp: alloc_event_def)
  have "costs rk ext msgs cap 3 s (fst (stop_with C e (s1\<lparr>stop_wait := Some e\<rparr>)))" if "stop_wait s = None"
    by (rule costs_zero_trans [OF c costs_zero_trans [OF costs_stop_wait stop_with_cost]]) (simp add: w that)
  moreover have "costs rk ext msgs cap 3 s (fst (stop_with C w (if events s w then s\<lparr>events := ev\<rparr> else s)))" for w ev
    by (auto intro: stop_with_cost costs_zero_trans [OF costs_events stop_with_cost])
  ultimately show ?thesis by (auto simp: stop_async_def a split: option.split)
qed

lemma async_cost_contract: "loop_methods_cost C msgs cap (=) (async_methods C)"
proof (intro loop_methods_cost.intro async_contract loop_methods_cost_axioms.intro)
  fix rk w and s :: "('q, 'z) loop_scheme"
  show "costs rk (=) msgs cap 3 s (fst (m_stop (async_methods C) w s))"
    by (simp add: costs_discard stop_async_cost)
next
  fix rk and s :: "('q, 'z) loop_scheme"
  show "costs rk (=) msgs cap 0 s (fst (m_do_stop (async_methods C) s))" by simp
next
  fix rk f n and s :: "('q, 'z) loop_scheme"
  show "costs rk (=) msgs cap 3 s (fst (m_is_done (async_methods C) f n s))" by simp
next
  fix rk h and s :: "('q, 'z) loop_scheme"
  show "costs rk (=) msgs cap 0 s (fst (m_io_cancel (async_methods C) h s))" by (simp add: costs_io_cancel)
next
  fix rk fd cb and s :: "('q, 'z) loop_scheme"
  show "costs rk (=) msgs cap 0 s (fst (m_add_reader (async_methods C) fd cb s))"
    by (simp add: add_reader_impl_cost cancels_io_cancel costs_io_cancel)
next
  fix rk fd cb and s :: "('q, 'z) loop_scheme"
  show "costs rk (=) msgs cap 0 s (fst (m_add_writer (async_methods C) fd cb s))"
    by (simp add: add_writer_impl_cost cancels_io_cancel costs_io_cancel)
next
  fix rk ctx and s :: "('q, 'z) loop_scheme"
  show "costs rk (=) msgs cap 0 s (fst (m_default_exception_handler (async_methods C) ctx s))"
    by (simp add: default_exception_handler_def Let_def costs_task_errors)
qed

end

interpretation fifo_async: loop_methods_cost fifo_ops fst snd "(=)" "async_methods fifo_ops"
  by (rule fifo.async_cost_contract)

sublocale memory_channel \<subseteq> async: loop_methods_cost C msgs cap "(=)" "async_methods C"
  by (rule async_cost_contract)

lemmas loop_methods_cost_async = memory_channel.async_cost_contract

section \<open>What ends the loop\<close>

fun exit_reason_ok :: "bool \<Rightarrow> pc \<Rightarrow> bool" where
  "exit_reason_ok shut (Exited (Some e)) =
     (is_exit e \<and> e \<noteq> TrioAsyncioExit \<or> shut \<and> e = nursery_is_closed)"
| "exit_reason_ok shut _ = True"

lemma after_one_reason:
  "(\<And>e. r = Inl e \<Longrightarrow> is_exit e \<or> shut \<and> e = nursery_is_closed) \<Longrightarrow>
   exit_reason_ok shut (snd (after_one (s, r)))"
  by (cases r) (auto simp: after_one_def leave_loop_def)

context loop_methods_cost
begin

lemma loop_top_reason:
  assumes "task s" and "nursery s"
  shows "exit_reason_ok (nursery_closed s) (snd (loop_top M s))"
proof (cases s rule: poll_timers_cases)
  case (error e)
  then show ?thesis using poll_timers_no_error [OF assms(1)] by blast
next
  case (idle t)
  then show ?thesis by (simp add: loop_top_def leave_loop_def)
next
  case (due w obj ts t)
  obtain s2 r where d: "dispatch M obj (s\<lparr>timers := ts\<rparr>) = (s2, r)" by fastforce
  have "exit_reason_ok (nursery_closed s) (snd (after_one (s2, r)))"
    by (rule after_one_reason) (use dispatch_exit [of M obj "s\<lparr>timers := ts\<rparr>" s2] d assms(2) in auto)
  then show ?thesis using due(1) d by (simp add: loop_top_def leave_loop_def)
qed

lemma loop_receive_reason:
  assumes "nursery s" and c: "loop_receive C M s = Some c"
  shows "exit_reason_ok (nursery_closed s) (snd c)"
proof -
  obtain h s1 where rc: "receive C s = Some (h, s1)" and c': "c = after_one (accept M h s1)"
    using c by (auto simp: loop_receive_def split: option.splits)
  obtain s2 r where a: "accept M h s1 = (s2, r)" by fastforce
  have n: "nursery s1" "nursery_closed s1 = nursery_closed s" using receive_cases [OF rc] assms(1) by auto
  have "is_exit e \<or> nursery_closed s \<and> e = nursery_is_closed" if "r = Inl e" for e
    using a that dispatch_exit [of M h s1 s2 e] n by (auto simp: accept_def split: hkind.splits)
  then show ?thesis using after_one_reason [of r "nursery_closed s" s2] a c' by simp
qed

lemma loop_step_reason:
  assumes "loop_step C M c c'" and "conf_inv msgs c" and "task (fst c)" and "exit_reason_ok (nursery_closed (fst c)) (snd c)"
  shows "exit_reason_ok (nursery_closed (fst c)) (snd c')"
  using assms
proof (induction rule: loop_step.induct)
  case (top s)
  then show ?case using loop_top_reason by (simp add: conf_inv_def loop_inv_def)
next
  case (message s c d)
  then show ?case using loop_receive_reason [of s c] by (simp add: conf_inv_def loop_inv_def)
qed simp_all

lemma loop_steps_reason:
  assumes "loop_steps C M c c'" and "conf_inv msgs c" and "finite (waiting_futures (fst c))"
    and "task (fst c)" and "exit_reason_ok (nursery_closed (fst c)) (snd c)"
  shows "exit_reason_ok (nursery_closed (fst c)) (snd c')"
proof -
  have "conf_inv msgs c' \<and> finite (waiting_futures (fst c')) \<and> task (fst c') \<and>
      nursery_closed (fst c') = nursery_closed (fst c) \<and> exit_reason_ok (nursery_closed (fst c)) (snd c')"
    using assms
  proof (induction rule: rtranclp_induct)
    case (step c1 c2)
    then have "outer (fst c2) = outer (fst c1) \<and> finite (waiting_futures (fst c2))"
      using loop_step_outer by blast
    then show ?case
      using step loop_step_inv [of c1 c2] loop_step_reason [of c1 c2] by (simp add: outer_def)
  qed simp
  then show ?thesis by simp
qed

end

section \<open>The step that leaves the loop\<close>

lemma exited_stays: "loop_step C M (s, Exited e) c \<Longrightarrow> snd c = Exited e"
  by (cases rule: loop_step.cases) auto

lemma loop_steps_leave:
  assumes "loop_steps C M (s, p) (s', Exited e)" and "\<forall>x. p \<noteq> Exited x"
  shows "\<exists>t q t'. loop_steps C M (s, p) (t, q) \<and> (\<forall>x. q \<noteq> Exited x) \<and>
    loop_step C M (t, q) (t', Exited e) \<and> loop_steps C M (t', Exited e) (s', Exited e)"
  using assms
proof (induction "(s', Exited e)" arbitrary: s' rule: rtranclp_induct)
  case (step c)
  obtain t q where c: "c = (t, q)" by fastforce
  show ?case
  proof (cases "\<exists>x. q = Exited x")
    case True
    then have "q = Exited e" using step.hyps(2) exited_stays [of C M t] by (fastforce simp: c)
    from step.hyps(3) [OF c [unfolded this] step.prems] step.hyps(2) show ?thesis
      unfolding c \<open>q = Exited e\<close> by (meson rtranclp.rtrancl_into_rtrancl)
  next
    case False
    then show ?thesis using step.hyps(1,2) unfolding c by blast
  qed
qed simp

text \<open>What makes the loop's task leave: the callback it runs raises an exit, which only
  \<open>stop_me\<close> and the application's callbacks do, or it cannot start a Trio function any more.\<close>

fun may_raise_exit :: "callback \<Rightarrow> exn \<Rightarrow> bool" where
  "may_raise_exit (StopMe w) x = (x = TrioAsyncioExit)"
| "may_raise_exit (UserCallback as r) x = True"
| "may_raise_exit (UserFunction n) x = True"
| "may_raise_exit cb x = False"

definition left_by ::
  "('q, 'z) loop_scheme methods \<Rightarrow> ('q, 'z) loop_scheme \<Rightarrow> ('q, 'z) loop_scheme \<Rightarrow> exn option \<Rightarrow> bool" where
  "left_by M t t' e \<longleftrightarrow> nursery_closed t \<and> e = Some nursery_is_closed \<or>
     (\<exists>h cb u u' x. ran t' = ran t @ [h] \<and> \<not> hcancelled (handles t h) \<and> hcallback (handles t h) = Some cb \<and>
        handles u = handles t \<and> run_callback M cb u = (u', Inl x) \<and> is_exit x \<and> may_raise_exit cb x \<and>
        e = (if x = TrioAsyncioExit then None else Some x))"

lemma run_callback_async_exit:
  "run_callback (async_methods C) cb u = (u', Inl x) \<Longrightarrow> may_raise_exit cb x"
  by (cases cb) auto

lemma handle_run_async_exit:
  assumes "handle_run (async_methods C) h s = (s', Inl x)"
  shows "is_exit x \<and> (\<exists>cb. hcallback (handles s h) = Some cb \<and> run_callback (async_methods C) cb s = (s', Inl x))"
proof -
  have no: "call_exception_handler (async_methods C) (a, b) t \<noteq> (t', Inl y)" for a b t t' y
    by (auto simp: call_exception_handler_def default_exception_handler_def Let_def)
  then show ?thesis using assms
    by (auto simp: handle_run_def no split: option.splits sum.splits prod.splits if_splits)
qed

lemma dispatch_left_by:
  assumes d: "dispatch (async_methods C) h s = (s', Inl x)" and "nursery s" and "memory_channel C msgs cap"
    and t: "handles s = handles t" "ran s = ran t" "nursery_closed s = nursery_closed t"
  shows "left_by (async_methods C) t s' (if x = TrioAsyncioExit then None else Some x)"
proof (cases "\<exists>f. kind (handles s h) = AsyncHandle f")
  case True
  then show ?thesis using d assms(2) t by (auto simp: dispatch_def left_by_def split: if_splits sum.splits prod.splits)
next
  case False
  let ?s = "s\<lparr>sniffio := Some ''asyncio'', ran := ran s @ [h]\<rparr>"
  obtain s1 where live: "\<not> hcancelled (handles s h)" and r: "handle_run (async_methods C) h ?s = (s1, Inl x)"
    and s': "s' = s1\<lparr>sniffio := sniffio s\<rparr>"
    using d False by (auto simp: dispatch_def split: hkind.splits if_splits prod.splits)
  have "ran s1 = ran ?s"
    using api_frame_fields [OF loop_methods.handle_run_frame [OF loop_methods_async [OF assms(3)], of ?s h]] r by simp
  then have "ran s' = ran t @ [h]" using t(2) by (simp add: s')
  moreover have "handles ?s = handles t" using t(1) by simp
  moreover obtain cb where "hcallback (handles t h) = Some cb" "run_callback (async_methods C) cb ?s = (s1, Inl x)" "is_exit x"
    using handle_run_async_exit [OF r] t(1) by auto
  ultimately show ?thesis
    using live t(1) run_callback_async_exit unfolding left_by_def by (metis (no_types))
qed

lemma loop_step_left_by:
  assumes C: "memory_channel C msgs cap" and inv: "conf_inv msgs (t, q)" and "task t" and "\<forall>x. q \<noteq> Exited x"
    and "loop_step C (async_methods C) (t, q) (t', Exited e)"
  shows "left_by (async_methods C) t t' e"
proof -
  have left: "left_by (async_methods C) t t' e" if a: "after_one (u', r) = (t', Exited e)"
    and d: "dispatch (async_methods C) h u = (u', r)" and u: "nursery u" "handles u = handles t" "ran u = ran t" "nursery_closed u = nursery_closed t"
    for h u u' r
  proof -
    obtain x where r: "r = Inl x" "t' = u'\<lparr>stopped := True\<rparr>" "e = (if x = TrioAsyncioExit then None else Some x)"
      using a by (auto simp: after_one_def leave_loop_def split: sum.splits if_splits)
    have "left_by (async_methods C) t u' e"
      using dispatch_left_by [OF d [unfolded r(1)] u(1) C u(2-4)] r(3) by simp
    then show ?thesis by (simp add: left_by_def r(2))
  qed
  have n: "nursery t" using inv by (simp add: conf_inv_def loop_inv_def)
  from assms(5) show ?thesis
  proof (cases rule: loop_step.cases)
    case top
    then have run: "\<not> stopped t" using inv by (simp add: conf_inv_def)
    show ?thesis
    proof (cases t rule: poll_timers_cases)
      case (error x)
      then show ?thesis using poll_timers_no_error [OF assms(3)] by blast
    next
      case (idle x)
      then show ?thesis using top run by (simp add: loop_top_def)
    next
      case (due w obj ts x)
      obtain u' r where d: "dispatch (async_methods C) obj (t\<lparr>timers := ts\<rparr>) = (u', r)" by fastforce
      have "after_one (u', r) = (t', Exited e)" using top run due(1) d by (simp add: loop_top_def)
      from left [OF this d] n show ?thesis by simp
    qed
  next
    case (message d)
    then obtain h s1 where rc: "receive C t = Some (h, s1)" and c: "after_one (accept (async_methods C) h s1) = (t', Exited e)"
      by (auto simp: loop_receive_def split: option.splits)
    have s1: "nursery s1" "handles s1 = handles t" "ran s1 = ran t" "nursery_closed s1 = nursery_closed t"
      using rc n by (auto simp: receive_def split: option.splits)
    obtain u' r where d: "accept (async_methods C) h s1 = (u', r)" by fastforce
    show ?thesis
    proof (cases "dispatch (async_methods C) h s1 = (u', r)")
      case True
      from left [OF _ True s1] c d show ?thesis by simp
    next
      case False
      then have "r = Inr ()" using d by (auto simp: accept_def split: hkind.splits)
      then show ?thesis using c d by (simp add: after_one_def)
    qed
  qed (use assms(4) in auto)
qed

section \<open>The cleanup\<close>

text \<open>\<open>_cancel_timers\<close> cancels every handle on the heap and empties it.\<close>

definition cancelled_handle :: "handle \<Rightarrow> handle" where
  "cancelled_handle x = (if hcancelled x then x else x\<lparr>hcancelled := True, hcallback := None\<rparr>)"

definition cancel_set :: "hid set \<Rightarrow> (hid \<Rightarrow> handle) \<Rightarrow> hid \<Rightarrow> handle" where
  "cancel_set A hs h = (if h \<in> A then cancelled_handle (hs h) else hs h)"

lemma handle_cancel_set: "handle_cancel h s = s\<lparr>handles := cancel_set {h} (handles s)\<rparr>"
  by (auto simp: handle_cancel_def upd_handle_def cancel_set_def cancelled_handle_def fun_eq_iff
      intro!: loop.equality)

lemma cancel_set_compose: "cancel_set A (cancel_set B hs) = cancel_set (A \<union> B) hs"
  by (auto simp: cancel_set_def cancelled_handle_def fun_eq_iff)

lemma fold_handle_cancel:
  "fold (\<lambda>(_, h). handle_cancel h) ts s = s\<lparr>handles := cancel_set (snd ` set ts) (handles s)\<rparr>"
proof (induction ts arbitrary: s)
  case Nil
  have "cancel_set {} (handles s) = handles s" by (simp add: cancel_set_def fun_eq_iff)
  then show ?case by simp
next
  case (Cons t ts)
  have "snd ` set ts \<union> {snd t} = snd ` set (t # ts)" by auto
  then show ?case using Cons by (simp add: case_prod_beta handle_cancel_set cancel_set_compose)
qed

lemma cancel_timers_effect:
  "cancel_timers s = s\<lparr>handles := cancel_set (snd ` set (timers s)) (handles s), timers := []\<rparr>"
  by (simp add: cancel_timers_def fold_handle_cancel)

text \<open>The state \<open>exit_cleanup\<close> may start from: \<open>k\<close> other loops of the thread use the
  dispatcher \<open>d\<close>, installed over the hooks \<open>orig\<close>.\<close>

definition exit_ready :: "hooks \<Rightarrow> nat \<Rightarrow> did \<Rightarrow> ('q, 'z) loop_scheme \<Rightarrow> bool" where
  "exit_ready orig k d s \<longleftrightarrow> dispatcher s = Some d \<and> hooks_inv orig (Suc k) d (asyncgen s)"

text \<open>Every task of a reader or writer will end: its handle or the scope it runs in is
  cancelled.\<close>

definition io_cancelled :: "('q, 'z) loop_scheme \<Rightarrow> bool" where
  "io_cancelled s \<longleftrightarrow>
     (\<forall>(fd, h, reading) \<in> set (io_tasks s). hcancelled (handles s h) \<or> hscope_cancelled (handles s h))"

definition cleaned :: "hooks \<Rightarrow> nat \<Rightarrow> did \<Rightarrow> ('q, 'z) loop_scheme \<Rightarrow> ('q, 'z) loop_scheme \<Rightarrow> bool" where
  "cleaned orig k d s s' \<longleftrightarrow>
     \<not> nursery s' \<and> \<not> task s' \<and> \<not> token s' \<and> dispatcher s' = None \<and> timers s' = [] \<and>
     hooks_inv orig k d (asyncgen s') \<and>
     handles s' = cancel_set (snd ` set (timers s)) (cancel_scopes (io_handles (selector s)) (handles s)) \<and>
     io_tasks s' = io_tasks s \<and> io_cancelled s' \<and>
     closed_fds s' = closed_fds s @ filter (\<lambda>fd. fd \<in> close_files s) (map fst (selector s)) \<and>
     queue s' = queue s \<and> received s' = received s \<and> ran s' = ran s \<and> loop.more s' = loop.more s \<and>
     closed_flag s' = closed_flag s \<and> stopped s' = stopped s"

lemma slot_io_handle: "slot sel fd reading = Some h \<Longrightarrow> h \<in> io_handles sel"
  by (force simp: slot_def io_handles_def split: option.splits if_splits dest: map_of_SomeD)

lemma io_cancelled_cleaned:
  assumes "io_inv s"
  shows "io_cancelled (s\<lparr>handles := cancel_set A (cancel_scopes (io_handles (selector s)) (handles s))\<rparr>)"
proof -
  let ?hs = "cancel_set A (cancel_scopes (io_handles (selector s)) (handles s))"
  have "hcancelled (?hs h) \<or> hscope_cancelled (?hs h)" if "(fd, h, reading) \<in> set (io_tasks s)" for fd h reading
  proof -
    have "hcancelled (handles s h) \<or> h \<in> io_handles (selector s)"
      using io_inv_task [OF assms that] slot_io_handle by blast
    then show ?thesis by (simp add: cancel_set_def cancel_scopes_def cancelled_handle_def) blast
  qed
  then show ?thesis by (auto simp: io_cancelled_def)
qed

lemma exit_cleanup_effect:
  assumes "exit_ready orig k d s" and "io_inv s"
  shows "\<exists>s'. exit_cleanup s = (s', Inr ()) \<and> cleaned orig k d s s'"
proof -
  obtain a where u: "uninstall d (asyncgen s) = (a, Inr ())" and h: "hooks_inv orig k d a"
    using assms uninstall_inv [of orig k d "asyncgen s"] by (auto simp: exit_ready_def)
  have "\<forall>(fd, k) \<in> set (selector s). key_ok k" 
    using io_inv_selector [OF assms(2)] by (simp add: selector_ok_def)
  note io = cancel_fd_list_effect [OF this, of "s\<lparr>asyncgen := a, dispatcher := None\<rparr>"]
  show ?thesis
    using assms(1) u h io io_cancelled_cleaned [OF assms(2), of "snd ` set (timers s)"]
    by (simp add: io_cancelled_def exit_cleanup_def exit_ready_def cancel_fds_def py_bind_def cancel_timers_effect cleaned_def)
qed

context loop_methods_cost
begin

text \<open>The whole of \<open>_main_loop_exit\<close>, when it returns, and when it does. While it waits, the loop's task and everything
  else take steps until the task is gone, which is what \<open>await_stopped\<close> stands for.\<close>

lemma await_stopped_drain:
  assumes inv: "conf_inv msgs (s, p)" and fin: "finite (waiting_futures s)" and task: "task s"
    and stop: "m_stop M None s = (s1, Inr u)" and wait: "loop_steps C M (s1, p) (t, Exited e)"
  shows "loop_inv msgs t \<and> finite (waiting_futures t) \<and> task t \<and> evolves ext msgs s t \<and> outer t = outer s \<and> stopped t"
proof -
  have c1: "costs (\<lambda>_. 0) ext msgs cap 3 s s1" using stop_cost [of "\<lambda>_. 0" s None] stop by simp
  have conf1: "conf_inv msgs (s1, p)" and ev1: "evolves ext msgs s s1"
    using frame_conf [OF costs_frame [OF c1] inv] by auto
  have fin1: "finite (waiting_futures s1)"
    using costs_bounded [OF c1 inv_bounded [OF _ fin]] inv by (simp add: conf_inv_def) (simp add: bounded_def)
  have o: "conf_inv msgs (t, Exited e)" "outer t = outer s1" "finite (waiting_futures t)"
    using loop_steps_outer [OF wait conf1] fin1 by auto
  have out: "outer t = outer s" using o(2) api_outer [OF costs_frame [OF c1]] by simp
  then have "task t" using task by (simp add: outer_def)
  moreover have "evolves ext msgs s t" using evolves_trans [OF ev1] loop_steps_inv [OF wait conf1] by simp
  ultimately show ?thesis using o out by (simp add: conf_inv_def)
qed

lemma main_loop_exit_effect:
  assumes open': "\<not> closed_flag s" and inv: "conf_inv msgs (s, p)" and fin: "finite (waiting_futures s)"
    and task: "task s" and ready: "exit_ready orig k d s"
    and stop: "m_stop M None s = (s1, Inr u)"
    and wait: "loop_steps C M (s1, p) (await_stopped s1, Exited e)" and w: "\<And>i t. meanwhile C M t (others i t)"
    and x: "main_loop_exit C M await_stopped others s = Some (s', r)"
  shows "\<exists>s2 r2. loop_inv msgs s2 \<and> evolves ext msgs s s2 \<and> drained msgs s2 r2 \<and> outer s2 = outer s \<and> stopped s2 \<and>
    (case r2 of Inr _ \<Rightarrow> r = Inr () \<and> cleaned orig k d s2 s' | Inl e \<Rightarrow> r = Inl e \<and> s' = s2)"
proof -
  let ?t = "await_stopped s1"
  note t = await_stopped_drain [OF inv fin task stop wait]
  obtain s2 r2 where dr: "drain C M others 0 ?t = Some (s2, r2)"
    using x open' stop by (auto simp: main_loop_exit_def split: option.splits)
  have d: "loop_inv msgs s2" "evolves ext msgs ?t s2" "drained msgs s2 r2" "outer s2 = outer ?t" "stopped s2 = stopped ?t"
    using drain_result [OF dr w] t by auto
  have ev2: "evolves ext msgs s s2" using evolves_trans [OF _ d(2)] t by blast
  have "exit_ready orig k d s2" using ready d(4) t by (simp add: exit_ready_def outer_def)
  moreover have "io_inv s2" using d(1) by (simp add: loop_inv_def)
  ultimately obtain s'' where c: "exit_cleanup s2 = (s'', Inr ())" "cleaned orig k d s2 s''"
    using exit_cleanup_effect by blast
  have "(s', r) = (case r2 of Inr _ \<Rightarrow> (s'', Inr ()) | Inl e \<Rightarrow> (s2, Inl e))"
    using x dr c(1) open' stop by (cases r2) (auto simp: main_loop_exit_def)
  then show ?thesis using d ev2 t c(2) by (intro exI [of _ s2] exI [of _ r2]) (auto split: sum.splits)
qed

lemma main_loop_exit_returns:
  assumes "\<not> closed_flag s" and "conf_inv msgs (s, p)" and "finite (waiting_futures s)" and "task s"
    and stop: "m_stop M None s = (s1, Inr u)"
    and wait: "loop_steps C M (s1, p) (await_stopped s1, Exited e)" and w: "\<And>i t. meanwhile C M t (others i t)"
    and rk: "ranked rk s" "adds_no_work msgs rk others N"
  shows "\<exists>x. main_loop_exit C M await_stopped others s = Some x"
proof -
  note t = await_stopped_drain [OF assms(2-4) stop wait]
  have "ranked rk (await_stopped s1)" using rk(1) t by (simp add: outer_def ranked_def)
  from drain_returns [OF this rk(2) w, of 0] t
  obtain y where "drain C M others 0 (await_stopped s1) = Some y" by blast
  then show ?thesis using assms(1) stop by (cases y) (auto simp: main_loop_exit_def split: sum.split)
qed

end

end
