(* ===== verification/Loop_Start.thy ===== *)
theory Loop_Start
  imports Loop_Exit
begin

text \<open>
  The constructor of \<open>BaseTrioEventLoop\<close> and the way to the first state of
  \<open>_main_loop\<close>, where the invariant of the loop holds.
\<close>

section \<open>The constructor\<close>

text \<open>
  \<open>__init__\<close>: \<open>prog\<close> is the code of the application, the channel \<open>q\<close> is the one \<open>open_memory_channel\<close> returned, the clock,
  the hooks and the sniffio library are the thread's. asyncio's constructor, which it calls,
  registers the read end \<open>ssock\<close> of its self-pipe by \<open>_add_reader\<close>; there is no task
  yet, so nothing waits for it.
\<close>

definition read_from_self :: callback where
  "read_from_self = UserCallback [] None"

definition no_program :: "nat \<Rightarrow> nat \<Rightarrow> trace" where
  "no_program n k = ([], None)"

definition bare_loop :: "(nat \<Rightarrow> nat \<Rightarrow> trace) \<Rightarrow> 'q \<Rightarrow> instant \<Rightarrow> string option \<Rightarrow> hooks_state \<Rightarrow> 'q loop" where
  "bare_loop prog q now library hooks =
     \<lparr>queue = q, timers = [], closed_flag = False, stopped = True, stop_wait = None,
      nursery = False, nursery_closed = False, task = False, token = False,
      handles = (\<lambda>_. new_handle_obj PlainHandle read_from_self), next_hid = 0,
      futures = (\<lambda>_. \<lparr>fstate = Pending, fcallbacks = [], fwrapped = None\<rparr>), next_fid = 0,
      events = (\<lambda>_. False), next_eid = 0,
      clock = now, sniffio = library, asyncgen = hooks, dispatcher = None,
      selector = [], close_files = {}, closed_fds = [], io_tasks = [],
      io_state = (\<lambda>_. IoTop), transports = {},
      started_tasks = [], task_errors = [], sync_soon = [], received = [], ran = [], program = prog\<rparr>"

definition loop_init ::
  "(nat \<Rightarrow> nat \<Rightarrow> trace) \<Rightarrow> 'q loop methods \<Rightarrow> 'q \<Rightarrow> fd \<Rightarrow> instant \<Rightarrow> string option \<Rightarrow> hooks_state \<Rightarrow> 'q loop" where
  "loop_init prog M q ssock now library hooks =
     fst (m_add_reader M ssock read_from_self (bare_loop prog q now library hooks))"

text \<open>The first state of \<open>_main_loop\<close>, after \<open>_main_loop_init\<close>.\<close>

definition enter_loop :: "('q, 'z) loop_scheme \<Rightarrow> (('q, 'z) loop_scheme \<times> pc) \<times> (exn + unit)" where
  "enter_loop s =
     (case main_loop_init s of
        (s', Inr _) \<Rightarrow> (main_loop_start s', Inr ())
      | (s', Inl e) \<Rightarrow> ((s', Exited (Some e)), Inl e))"

text \<open>A loop that has not been entered: nothing was run, the channel may hold messages of
  allocated handles.\<close>

definition new_state :: "('q \<Rightarrow> hid list) \<Rightarrow> ('q, 'z) loop_scheme \<Rightarrow> bool" where
  "new_state msgs s \<longleftrightarrow> stopped s \<and> \<not> nursery s \<and> timers s = [] \<and> received s = [] \<and> ran s = [] \<and>
     started_tasks s = [] \<and> io_inv s \<and> fut_inv {} s \<and> (\<forall>h \<in> set (msgs (queue s)) \<union> set (sync_soon s). h < next_hid s)"

lemma new_state_frame:
  assumes f: "api_frame ext msgs cap s s'" and n: "new_state msgs s"
  shows "new_state msgs s'"
proof -
  obtain n1 n2 where "msgs (queue s') = msgs (queue s) @ n1" "\<forall>h \<in> set n1. h < next_hid s'"
    "sync_soon s' = sync_soon s @ n2" "\<forall>h \<in> set n2. h < next_hid s'"
    using api_frame_queue [OF f] api_frame_soon [OF f] by blast
  moreover have "\<forall>h \<in> set (msgs (queue s)) \<union> set (sync_soon s). h < next_hid s'"
    using n less_le_trans [OF _ api_frame_next [OF f]] unfolding new_state_def by blast
  moreover have "io_inv s'" using n api_frame_io [OF f] by (simp add: new_state_def io_frame_def)
  moreover have "fut_inv {} s'" using n fut_frameD [OF api_frame_fut [OF f]] by (simp add: new_state_def)
  moreover have "\<not> nursery s'" using n api_frame_core [OF f] by (simp add: new_state_def core_def)
  ultimately show ?thesis
    using n api_frame_fields [OF f] unfolding new_state_def by (simp only: set_append) blast
qed

lemma loop_init_new:
  assumes "msgs q = []"
  shows "new_state msgs (loop_init prog (async_methods C) q ssock now library hooks)"
    and "asyncgen (loop_init prog (async_methods C) q ssock now library hooks) = hooks"
    and "waiting_futures (loop_init prog (async_methods C) q ssock now library hooks) = {}"
    and "\<not> closed_flag (loop_init prog (async_methods C) q ssock now library hooks)"
  using assms
  by (simp_all add: loop_init_def add_reader_impl_def add_io_handler_def start_io_task_def py_bind_def check_closed_def
      alloc_handle_def set_read_handle_def sel_get_key_def sel_register_def bare_loop_def
      new_state_def io_inv_def fut_inv_def new_handle_obj_def slot_def selector_ok_def key_ok_def waiting_futures_def)

lemma enter_loop_inv:
  assumes "new_state msgs s" and "foreign orig" and "hooks_inv orig k d (asyncgen s)"
  shows "\<exists>s' d'. enter_loop s = ((s', Top), Inr ()) \<and> conf_inv msgs (s', Top) \<and>
    exit_ready orig k d' s' \<and> task s' \<and> queue s' = queue s \<and> futures s' = futures s \<and>
    closed_flag s' = closed_flag s"
proof -
  obtain a d' where a: "install (asyncgen s) = (a, Inr d')" "hooks_inv orig (Suc k) d' a"
    using assms(3) install_first [of orig d "asyncgen s"] install_again [of orig "k - 1" d "asyncgen s"]
    by (cases k) auto
  let ?s = "s\<lparr>nursery := True, task := True, token := True, asyncgen := a, dispatcher := Some d', stopped := False\<rparr>"
  have "enter_loop s = ((?s, Top), Inr ())"
    using assms(1) a by (simp add: enter_loop_def main_loop_init_def main_loop_start_def new_state_def)
  moreover have "conf_inv msgs (?s, Top)"
    using assms(1) by (simp add: conf_inv_def loop_inv_def timers_ok_def ids_ok_def on_time_def
        in_order_def new_state_def heap_inv_def)
  ultimately show ?thesis using a by (simp add: exit_ready_def)
qed

end
