(* ===== verification/Loop_Properties.thy ===== *)
theory Loop_Properties
  imports Loop_Start
begin

text \<open>
  The correctness properties of the asynchronous loop: what its users rely on when they
  schedule callbacks, set timers, cancel, stop and leave the loop. Every property is about
  an arbitrary channel with Trio's laws, and is applied to a running loop at the end of its
  paragraph.
\<close>

section \<open>A running loop\<close>

text \<open>The loop the properties are applied to: a channel of capacity \<open>c\<close>, the hooks of
  an enclosing Trio run, entered at time 0.\<close>

abbreviation aio :: "(hid list \<times> nat option) loop methods" where
  "aio \<equiv> async_methods fifo_ops"

definition running_loop :: "nat option \<Rightarrow> (hid list \<times> nat option) loop" where
  "running_loop c = fst (fst (enter_loop (loop_init no_program aio ([], c) 5 0 None trio_hooks)))"

definition after_calls :: "nat option \<Rightarrow> api list \<Rightarrow> (hid list \<times> nat option) loop" where
  "after_calls c as = fst (exec_apis aio as (running_loop c))"

lemmas running_eval = after_calls_def running_loop_def enter_loop_def loop_init_def add_reader_impl_def
  add_io_handler_def start_io_task_def py_bind_def check_closed_def check_callback_def alloc_handle_def alloc_future_def
  set_read_handle_def sel_get_key_def sel_register_def bare_loop_def main_loop_init_def
  main_loop_start_def install_def trio_hooks_def matches_def dispatcher_hooks_def
  discard_def call_soon_def call_at_def call_later_def loop_time_def queue_new_def queue_handle_async_def
  fifo_ops_def stop_async_def stop_with_def alloc_event_def new_handle_obj_def Let_def

lemma running_loop_ok:
  "conf_inv fst (running_loop c, Top)" "task (running_loop c)" "token (running_loop c)"
  "\<not> closed_flag (running_loop c)" "\<not> stopped (running_loop c)" "timers (running_loop c) = []"
  "waiting_futures (running_loop c) = {}" "received (running_loop c) = []" "ran (running_loop c) = []"
  "queue (running_loop c) = ([], c)" "next_hid (running_loop c) = Suc 0" "stop_wait (running_loop c) = None"
  "sync_soon (running_loop c) = []" "clock (running_loop c) = 0" "started_tasks (running_loop c) = []"
  "exit_ready (current_hooks trio_hooks) 0 0 (running_loop c)"
  by (simp_all add: running_eval conf_inv_def loop_inv_def timers_ok_def ids_ok_def on_time_def
      in_order_def heap_inv_def waiting_futures_def exit_ready_def hooks_inv_def foreign_def
      io_inv_def fut_inv_def slot_def selector_ok_def key_ok_def)

lemma after_calls_ok:
  "conf_inv fst (after_calls c as, Top)" "finite (waiting_futures (after_calls c as))"
  "outer (after_calls c as) = outer (running_loop c)"
proof -
  have c: "costs (\<lambda>_. 0) (=) fst snd (sum_list (map (api_work (\<lambda>_. 0)) as)) (running_loop c) (after_calls c as)"
    unfolding after_calls_def by (rule fifo_async.exec_apis_cost)
  note ok = running_loop_ok(1) [of c] running_loop_ok(7) [of c]
  show "conf_inv fst (after_calls c as, Top)"
    using fifo_async.frame_conf [OF costs_frame [OF c] ok(1)] by simp
  have "bounded fst (running_loop c)" using ok by (intro inv_bounded) (simp_all add: conf_inv_def)
  then show "finite (waiting_futures (after_calls c as))"
    using costs_bounded [OF c] by (simp add: bounded_def)
  show "outer (after_calls c as) = outer (running_loop c)"
    using c by (intro api_outer) (rule costs_frame)
qed

lemma steps_inv_async:
  assumes "memory_channel C msgs cap" and "conf_inv msgs c"
    and "loop_steps C (async_methods C) c c'"
  shows "conf_inv msgs c' \<and> evolves (=) msgs (fst c) (fst c')"
  by (rule loop_methods.loop_steps_inv [OF loop_methods_async [OF assms(1)] assms(3,2)])

text \<open>The loop's own steps are steps; \<open>run_own n c as\<close> makes \<open>n\<close> of them after the
  operations \<open>as\<close>.\<close>

definition run_own :: "nat \<Rightarrow> nat option \<Rightarrow> api list \<Rightarrow> (hid list \<times> nat option) loop \<times> pc" where
  "run_own n c as = (own_step fifo_ops aio ^^ n) (after_calls c as, Top)"

lemma own_step_steps: "loop_steps C M c (own_step C M c)"
proof (cases "(C, M, c)" rule: own_step.cases)
  case (1 C M s)
  then show ?thesis by (auto intro: loop_step.top)
next
  case (2 C M s d)
  then show ?thesis by (auto split: option.split intro: loop_step.message)
next
  case (3 C M s e)
  then show ?thesis by simp
qed

lemma own_steps_steps: "loop_steps C M c ((own_step C M ^^ n) c)"
proof (induction n)
  case (Suc n)
  then show ?case using own_step_steps [of C M "(own_step C M ^^ n) c"] by simp
qed simp

lemma run_own_steps:
  "loop_steps fifo_ops aio (after_calls c as, Top) (fst (run_own n c as), snd (run_own n c as))"
  unfolding run_own_def prod.collapse by (rule own_steps_steps)

definition noop :: callback where
  "noop = UserCallback [] None"

section \<open>Order\<close>

text \<open>C1: stopping loses nothing: whatever was scheduled before a message \<open>h\<close> of the
  channel (for \<open>stop()\<close>, its callback \<open>stop_me\<close>) has been run, was cancelled, was
  started (unless Trio has closed the nursery), or is on the timer heap when the loop has
  taken \<open>h\<close>.\<close>

theorem before_stop_handled:
  assumes "memory_channel C msgs cap" and "conf_inv msgs (s, p)"
    and "msgs (queue s) = pre @ h # post" and "h \<notin> set (received s)" and "h \<notin> set pre"
    and "loop_steps C (async_methods C) (s, p) (s', p')" and "h \<in> set (received s')"
  shows "\<forall>x \<in> set pre. handled s' x"
proof -
  note inv = steps_inv_async [OF assms(1,2,6)]
  have "set pre \<subseteq> set (received s')"
    using loop_methods.received_before [OF loop_methods_async [OF assms(1)] _ assms(3-5,7)] inv by simp
  then show ?thesis using inv by (auto simp: conf_inv_def loop_inv_def)
qed

theorem before_stop_handled_witness:
  "handled (fst (run_own 6 None [CallLater 1 noop, CallSoon noop, StopLoop None])) 2"
proof -
  let ?as = "[CallLater 1 noop, CallSoon noop, StopLoop None]"
  have q: "fst (queue (after_calls None ?as)) = [1, 2] @ 3 # []" "received (after_calls None ?as) = []"
    by (code_simp, code_simp)
  have "3 \<in> set (received (fst (run_own 6 None ?as)))" by code_simp
  from before_stop_handled [OF fifo.memory_channel_axioms after_calls_ok(1) q(1) _ _ run_own_steps this] q(2)
  show ?thesis by simp
qed

text \<open>C2: callbacks run in the order they were scheduled, and none is lost. Handles are taken
  from the channel in the order in which they were put in; the handles that ran, timers
  and those of readers and writers aside, are in the order in which they were taken; and every
  handle taken was run, was cancelled, was started or refused by the closed nursery, or is a timer
  on the heap.\<close>

theorem callbacks_in_order:
  assumes "memory_channel C msgs cap" and "conf_inv msgs (s, p)"
    and "loop_steps C (async_methods C) (s, p) (s', p')"
  shows "subseq (filter (\<lambda>h. \<not> unordered (kind (handles s' h))) (ran s')) (received s') \<and>
    (\<exists>new. received s' @ msgs (queue s') = received s @ msgs (queue s) @ new) \<and>
    (\<forall>h \<in> set (received s'). handled s' h)"
  using steps_inv_async [OF assms] evolves_fifo [of "(=)" msgs s s']
  by (simp add: conf_inv_def loop_inv_def in_order_def)

theorem callbacks_in_order_witness:
  "(\<exists>new. received (fst (run_own 4 None [CallSoon noop, CallSoon noop])) @
     fst (queue (fst (run_own 4 None [CallSoon noop, CallSoon noop]))) =
     received (after_calls None [CallSoon noop, CallSoon noop]) @
     fst (queue (after_calls None [CallSoon noop, CallSoon noop])) @ new) \<and>
   handled (fst (run_own 4 None [CallSoon noop, CallSoon noop])) 1"
proof -
  let ?as = "[CallSoon noop, CallSoon noop]"
  have "1 \<in> set (received (fst (run_own 4 None ?as)))" by code_simp
  then show ?thesis
    using callbacks_in_order [OF fifo.memory_channel_axioms after_calls_ok(1) run_own_steps [where n = 4 and c = None and as = ?as]]
    by blast
qed

text \<open>C3: a timer never runs early: in every state the loop reaches, that just after a
  timer's callback was run included, every timer that has run has a deadline the clock has
  reached.\<close>

theorem timers_not_early:
  assumes "memory_channel C msgs cap" and "conf_inv msgs (s, p)"
    and "loop_steps C (async_methods C) (s, p) (s', p')"
    and "h \<in> set (ran s')" and "kind (handles s' h) = TimerHandle w"
  shows "w \<le> clock s'"
  using steps_inv_async [OF assms(1-3)] assms(4,5) by (auto simp: conf_inv_def loop_inv_def on_time_def)

theorem timers_not_early_witness:
  "0 \<le> clock (fst (run_own 3 None [CallLater 0 noop, CallSoon noop]))"
proof -
  let ?as = "[CallLater 0 noop, CallSoon noop]"
  have "1 \<in> set (ran (fst (run_own 3 None ?as)))"
    "kind (handles (fst (run_own 3 None ?as)) 1) = TimerHandle 0"
    by (code_simp, code_simp)
  from timers_not_early [OF fifo.memory_channel_axioms after_calls_ok(1) run_own_steps this]
  show ?thesis .
qed

text \<open>C4: a cancelled handle never runs: once \<open>cancel()\<close> was called on a handle, no later
  step of the loop runs it, wherever it is at the time (in the channel, on the timer heap).\<close>

theorem cancelled_never_runs:
  assumes "memory_channel C msgs cap" and "conf_inv msgs (s, p)"
    and "h < next_hid s" and "hcancelled (handles s h)"
    and "loop_steps C (async_methods C) (s, p) (s', p')"
  shows "\<exists>new. ran s' = ran s @ new \<and> h \<notin> set new"
  using evolves_ran [of "(=)" msgs s s'] steps_inv_async [OF assms(1,2,5)] assms(3,4) by auto

theorem cancelled_never_runs_witness:
  "\<exists>new. ran (fst (run_own 4 None [CallSoon noop, CallSoon noop, CancelHandle 1])) =
     ran (after_calls None [CallSoon noop, CallSoon noop, CancelHandle 1]) @ new \<and> 1 \<notin> set new"
proof -
  let ?as = "[CallSoon noop, CallSoon noop, CancelHandle 1]"
  have "1 < next_hid (after_calls None ?as)" "hcancelled (handles (after_calls None ?as) 1)"
    by (code_simp, code_simp)
  from cancelled_never_runs [OF fifo.memory_channel_axioms after_calls_ok(1) this run_own_steps]
  show ?thesis .
qed

text \<open>The loop never oversleeps: whenever it waits for a message, it does so until the
  least deadline of the timers on its heap, and without limit only if there is none.\<close>

theorem waits_for_least_deadline:
  assumes "memory_channel C msgs cap" and "conf_inv msgs (s, p)"
    and "loop_steps C (async_methods C) (s, p) (s', Waiting d)"
  shows "(case d of
      None \<Rightarrow> timers s' = []
    | Some t \<Rightarrow> (\<exists>h. (t, h) \<in> set (timers s')) \<and> (\<forall>(w, h) \<in> set (timers s'). t \<le> w))"
proof -
  have inv: "timers_ok s'" "d = root_deadline s'"
    using steps_inv_async [OF assms] by (auto simp: conf_inv_def loop_inv_def)
  show ?thesis
  proof (cases "timers s'")
    case (Cons x xs)
    obtain t h where x: "x = (t, h)" by fastforce
    have "\<forall>y \<in> set (timers s'). t \<le> fst y"
    proof
      fix y assume y: "y \<in> set (timers s')"
      obtain j where "j < length (timers s')" "timers s' ! j = y" using y by (auto simp: in_set_conv_nth)
      then show "t \<le> fst y"
        using inv(1) heap_inv_least [of fst "timers s'" j] Cons x by (simp add: timers_ok_def)
    qed
    then show ?thesis using inv(2) Cons x by (auto simp: root_deadline_def)
  qed (use inv(2) in \<open>simp add: root_deadline_def\<close>)
qed

theorem waits_for_least_deadline_witness:
  "\<exists>h. (1, h) \<in> set (timers (fst (run_own 5 None [CallLater 2 noop, CallLater 1 noop])))"
proof -
  let ?as = "[CallLater 2 noop, CallLater 1 noop]"
  have "snd (run_own 5 None ?as) = Waiting (Some 1)" by code_simp
  then have "loop_steps fifo_ops aio (after_calls None ?as, Top) (fst (run_own 5 None ?as), Waiting (Some 1))"
    using run_own_steps [where n = 5 and c = None and as = ?as] by simp
  from waits_for_least_deadline [OF fifo.memory_channel_axioms after_calls_ok(1) this]
  show ?thesis by simp
qed

text \<open>At the head of each iteration the loop takes a due timer with the least deadline
  off the heap and nothing else; if none is due it leaves the heap alone and reports the time
  left to the least deadline.\<close>

theorem poll_takes_least_timer:
  assumes "timers_ok s" and "task s" and "poll_timers s = (s', r)"
  shows "(\<exists>w h t. r = Inr (Some h, t) \<and> w \<le> clock s \<and> mset (timers s) = add_mset (w, h) (mset (timers s')) \<and>
      (\<forall>(w', h') \<in> set (timers s). w \<le> w') \<and> timers_ok s' \<and> s' = s\<lparr>timers := timers s'\<rparr>) \<or>
    (s' = s \<and> no_timer_due s \<and> (\<exists>t. r = Inr (None, t) \<and>
      (case t of None \<Rightarrow> timers s = [] | Some d \<Rightarrow> 0 < d \<and> root_deadline s = Some (clock s + d))))"
proof (cases s rule: poll_timers_cases)
  case (error e)
  then show ?thesis using poll_timers_no_error [OF assms(2)] by blast
next
  case (idle t)
  have "case t of None \<Rightarrow> timers s = [] | Some d \<Rightarrow> 0 < d \<and> root_deadline s = Some (clock s + d)"
    using idle by (auto simp: poll_timers_def root_deadline_def py_bind_def loop_time_def Let_def
        split: list.splits if_splits option.splits)
  then show ?thesis using idle assms(3) poll_timers_idle [OF assms(1,2) idle] by simp
next
  case (due w obj ts t)
  have m: "mset (timers s) = add_mset (w, obj) (mset ts)" by (rule mset_heappop [OF due(2)])
  then have "set (timers s) = insert (w, obj) (set ts)"
    by (metis set_mset_add_mset_insert set_mset_mset)
  moreover have "heap_inv fst ts"
    using hq.pop_invar [OF _ due(2)] assms(1) by (simp add: timers_ok_def)
  ultimately have "timers_ok (s\<lparr>timers := ts\<rparr>)" using assms(1) by (simp add: timers_ok_def)
  moreover have "\<forall>y \<in> set (timers s). w \<le> fst y"
    using heappop_least [OF _ due(2)] assms(1) by (auto simp: timers_ok_def)
  ultimately show ?thesis using due(1,3) assms(3) m by (intro disjI1 exI [of _ w] exI [of _ obj] exI [of _ t]) auto
qed

theorem poll_takes_least_timer_witness:
  "snd (poll_timers (fst (run_own 5 None [CallLater 0 noop, CallAt 5 noop]))) = Inr (None, Some 5)"
proof -
  let ?s = "fst (run_own 5 None [CallLater 0 noop, CallAt 5 noop])"
  have "conf_inv fst (?s, snd (run_own 5 None [CallLater 0 noop, CallAt 5 noop]))"
    using steps_inv_async [OF fifo.memory_channel_axioms after_calls_ok(1) run_own_steps] by blast
  then have ok: "timers_ok ?s" by (simp add: conf_inv_def loop_inv_def)
  have e: "task ?s" "timers ?s = [(5, 2)]" "clock ?s = 0" by (code_simp, code_simp, code_simp)
  obtain s' r where p: "poll_timers ?s = (s', r)" by fastforce
  from poll_takes_least_timer [OF ok e(1) p] e show ?thesis
    by (auto simp: p root_deadline_def split: option.splits)
qed

section \<open>Entering\<close>

text \<open>A loop that was just constructed can be entered: \<open>_main_loop_init\<close> succeeds,
  the invariant of the loop holds at the first test of the \<open>while\<close>, and the dispatcher of
  the async-generator hooks counts one loop more.\<close>

theorem new_loop_enters:
  assumes "msgs q = []" and "hooks_inv orig k d hooks"
  shows "\<exists>s' d'. enter_loop (loop_init prog (async_methods C) q ssock now library hooks) = ((s', Top), Inr ()) \<and>
    conf_inv msgs (s', Top) \<and> exit_ready orig k d' s' \<and> task s' \<and> waiting_futures s' = {} \<and>
    \<not> closed_flag s'"
proof -
  note new = loop_init_new [of msgs q prog C ssock now library hooks, OF assms(1)]
  have "foreign orig" "hooks_inv orig k d (asyncgen (loop_init prog (async_methods C) q ssock now library hooks))"
    using assms(2) new(2) by (simp_all add: hooks_inv_def)
  from enter_loop_inv [OF new(1) this] new(3,4) show ?thesis
    by (auto simp: waiting_futures_def)
qed

theorem new_loop_enters_witness:
  "\<exists>s' d'. enter_loop (loop_init no_program aio ([], Some 3) 5 0 None trio_hooks) = ((s', Top), Inr ()) \<and>
    conf_inv fst (s', Top) \<and> exit_ready (current_hooks trio_hooks) 0 d' s' \<and> task s' \<and>
    waiting_futures s' = {} \<and> \<not> closed_flag s'"
proof -
  have "hooks_inv (current_hooks trio_hooks) 0 0 trio_hooks"
    by (simp add: hooks_inv_def trio_hooks_def foreign_def)
  from new_loop_enters [of fst "([], Some 3)", OF _ this] show ?thesis by simp
qed

section \<open>Stopping\<close>

text \<open>\<open>stop()\<close> on an open, running loop whose channel has room.\<close>

lemma stop_async_queues:
  assumes "memory_channel C msgs cap" and "\<not> closed_flag s" and "\<not> stopped s" and "stop_wait s = None"
    and "\<forall>n. cap (queue s) = Some n \<longrightarrow> length (msgs (queue s)) < n"
  shows "\<exists>s'. stop_async C None s = (s', Inr (next_eid s)) \<and>
    msgs (queue s') = msgs (queue s) @ [next_hid s] \<and> timers s' = timers s \<and>
    handles s' (next_hid s) = new_handle_obj PlainHandle (StopMe (next_eid s))"
proof -
  obtain q where q: "send_nowait C (queue s) (next_hid s) = Some q"
    using memory_channel.send_None_iff [OF assms(1), of "queue s" "next_hid s"] assms(5)
    by (cases "send_nowait C (queue s) (next_hid s)") auto
  show ?thesis
    using assms(2-4) q memory_channel.send_msgs [OF assms(1) q]
    by (simp add: stop_async_def alloc_event_def stop_with_def queue_new_def alloc_handle_def
        queue_handle_async_def py_bind_def check_closed_def)
qed

text \<open>\<open>stop()\<close> ends the loop: after \<open>stop()\<close> on a running loop with \<open>m\<close>
  messages and \<open>t\<close> timers, no matter what the callbacks do, the loop's task leaves its
  \<open>while\<close> within \<open>4 * m + 2 * t + 2\<close> steps, unless the stop callback itself was
  cancelled.\<close>

theorem stop_ends_loop:
  assumes "memory_channel C msgs cap" and "conf_inv msgs (s, Top)" and "\<not> closed_flag s"
    and "stop_wait s = None" and "\<forall>n. cap (queue s) = Some n \<longrightarrow> length (msgs (queue s)) < n"
  shows "\<exists>s' w. stop_async C None s = (s', Inr w) \<and>
    (\<exists>n \<le> 4 * length (msgs (queue s)) + 2 * length (timers s) + 2.
       stop_seen (next_hid s) ((own_step C (async_methods C) ^^ n) (s', Top)))"
proof -
  note lm = loop_methods_async [OF assms(1)]
  obtain s' where st: "stop_async C None s = (s', Inr (next_eid s))"
    and q: "msgs (queue s') = msgs (queue s) @ next_hid s # []" and t: "timers s' = timers s"
    and h: "handles s' (next_hid s) = new_handle_obj PlainHandle (StopMe (next_eid s))"
    using stop_async_queues [OF assms(1,3) _ assms(4,5)] assms(2) by (auto simp: conf_inv_def)
  have "conf_inv msgs (s', Top)"
    using loop_methods.frame_conf [OF lm _ assms(2)] memory_channel.stop_async_frame [OF assms(1), of "(=)" s None]
    by (simp add: st)
  from loop_methods.own_steps_stop [OF lm this q _ _ stops_stop_me] h st t show ?thesis
    by (simp add: new_handle_obj_def)
qed

theorem stop_ends_loop_witness:
  "\<exists>s' w. stop_async fifo_ops None (after_calls None [CallSoon noop, CallLater 1 noop]) = (s', Inr w) \<and>
    (\<exists>n \<le> 10. stop_seen 3 ((own_step fifo_ops aio ^^ n) (s', Top)))"
proof -
  let ?s = "after_calls None [CallSoon noop, CallLater 1 noop]"
  have e: "\<not> closed_flag ?s" "stop_wait ?s = None" "snd (queue ?s) = None" "fst (queue ?s) = [1, 2]"
    "timers ?s = []" "next_hid ?s = 3" by (code_simp, code_simp, code_simp, code_simp, code_simp, code_simp)
  from stop_ends_loop [OF fifo.memory_channel_axioms after_calls_ok(1) e(1,2)] e(3-6) show ?thesis by simp
qed

text \<open>C9: the loop's task is left by nothing but \<open>stop()\<close>, process exits and, once Trio has
  closed the nursery, a Trio function that cannot be started any more. When the task is gone, there
  is the step that left the loop, and in it the loop ran a callback that raised an exit
  (\<open>stop_me\<close>, the callback of \<open>stop()\<close>, or one of the application's), or was refused by
  the closed nursery; the loop ends without an exception exactly if that exit is
  \<open>TrioAsyncioExit\<close>, otherwise with what was raised. \<open>_stopped\<close> is set.\<close>

theorem loop_left_by_exit_only:
  assumes "memory_channel C msgs cap" and "conf_inv msgs (s, Top)" and "finite (waiting_futures s)"
    and "task s" and "loop_steps C (async_methods C) (s, Top) (s', Exited e)"
  shows "stopped s' \<and>
    (\<exists>t q t'. loop_steps C (async_methods C) (s, Top) (t, q) \<and> (\<forall>x. q \<noteq> Exited x) \<and>
       loop_step C (async_methods C) (t, q) (t', Exited e) \<and>
       loop_steps C (async_methods C) (t', Exited e) (s', Exited e) \<and> left_by (async_methods C) t t' e)"
proof -
  obtain t q t' where l: "loop_steps C (async_methods C) (s, Top) (t, q)" "\<forall>x. q \<noteq> Exited x"
    "loop_step C (async_methods C) (t, q) (t', Exited e)" "loop_steps C (async_methods C) (t', Exited e) (s', Exited e)"
    using loop_steps_leave [OF assms(5)] by auto
  have "conf_inv msgs (t, q) \<and> outer t = outer s"
    using loop_methods_cost.loop_steps_outer [OF loop_methods_cost_async [OF assms(1)] l(1) assms(2)] assms(3) by simp
  then have "left_by (async_methods C) t t' e"
    using loop_step_left_by [OF assms(1) _ _ l(2,3)] assms(4) by (simp add: outer_def)
  moreover have "stopped s'" using steps_inv_async [OF assms(1,2,5)] by (simp add: conf_inv_def)
  ultimately show ?thesis using l by blast
qed

theorem loop_left_by_exit_only_witness:
  "stopped (fst (run_own 2 None [CallSoon (UserCallback [] (Some SystemExit))])) \<and>
   (\<exists>t t'. left_by aio t t' (Some SystemExit))"
proof -
  let ?as = "[CallSoon (UserCallback [] (Some SystemExit))]"
  have "snd (run_own 2 None ?as) = Exited (Some SystemExit)" by code_simp
  then have st: "loop_steps fifo_ops aio (after_calls None ?as, Top) (fst (run_own 2 None ?as), Exited (Some SystemExit))"
    using run_own_steps [where n = 2 and c = None and as = ?as] by simp
  have "task (after_calls None ?as)" by code_simp
  from loop_left_by_exit_only [OF fifo.memory_channel_axioms after_calls_ok(1,2) this st]
  show ?thesis by blast
qed

text \<open>C23: \<open>stop()\<close> may wedge the loop: if the bounded channel is full, \<open>stop()\<close> raises
  \<open>WouldBlock\<close> after it has stored its event in \<open>_stop_wait\<close>, with no message queued that
  would set it. From then on, whatever the loop and its callers do, every \<open>stop()\<close> without a waiter
  of its own, that of \<open>_main_loop_exit\<close> included, returns that event and does nothing.\<close>

theorem stop_after_failed_stop:
  assumes "memory_channel C msgs cap" and "\<not> closed_flag s" and "conf_inv msgs (s, p)" and "\<not> stopped s"
    and "stop_wait s = None" and "cap (queue s) = Some n" and "n \<le> length (msgs (queue s))"
  shows "\<exists>s1 w. stop_async C None s = (s1, Inl WouldBlock) \<and> queue s1 = queue s \<and> \<not> stopped s1 \<and>
    \<not> events s1 w \<and>
    (\<forall>s' p'. loop_steps C (async_methods C) (s1, p) (s', p') \<longrightarrow> stop_async C None s' = (s', Inr w))"
proof -
  have "send_nowait C (queue s) (next_hid s) = None"
    using memory_channel.send_None_iff [OF assms(1)] assms(6,7) by blast
  then obtain s1 where s1: "stop_async C None s = (s1, Inl WouldBlock)" "queue s1 = queue s" "\<not> stopped s1"
    "\<not> events s1 (next_eid s)" "stop_wait s1 = Some (next_eid s)"
    using assms(2,4,5)
    by (simp add: stop_async_def alloc_event_def stop_with_def queue_new_def alloc_handle_def
        queue_handle_async_def py_bind_def check_closed_def)
  have "conf_inv msgs (s1, p)"
    using loop_methods.frame_conf [OF loop_methods_async [OF assms(1)] _ assms(3)]
      memory_channel.stop_async_frame [OF assms(1), of "(=)" s None] s1(1) by simp
  then have "stop_wait s' = Some (next_eid s)" if "loop_steps C (async_methods C) (s1, p) (s', p')" for s' p'
    using steps_inv_async [OF assms(1) _ that] evolves_wait [of "(=)" msgs s1 s'] s1(5) by (simp add: keeps_stop_wait_def)
  then show ?thesis using s1 by (intro exI [of _ s1] exI [of _ "next_eid s"]) (simp add: stop_async_def)
qed

theorem stop_after_failed_stop_witness:
  "\<exists>s1 w. stop_async fifo_ops None (after_calls (Some 1) [CallSoon noop]) = (s1, Inl WouldBlock) \<and>
    queue s1 = queue (after_calls (Some 1) [CallSoon noop]) \<and> \<not> stopped s1 \<and> \<not> events s1 w \<and>
    (\<forall>s' p'. loop_steps fifo_ops aio (s1, Top) (s', p') \<longrightarrow> stop_async fifo_ops None s' = (s', Inr w))"
proof -
  let ?s = "after_calls (Some 1) [CallSoon noop]"
  have e: "\<not> stopped ?s" "stop_wait ?s = None" "snd (queue ?s) = Some 1" "1 \<le> length (fst (queue ?s))"
    by (code_simp, code_simp, code_simp, code_simp)
  have "\<not> closed_flag ?s" by code_simp
  from stop_after_failed_stop [OF fifo.memory_channel_axioms this after_calls_ok(1) e] show ?thesis .
qed

section \<open>Leaving\<close>

text \<open>C10: draining ends if the callbacks leave it a chance: the \<open>while True\<close> of \<open>_main_loop_exit\<close>
  returns from every reachable state, whatever happens around the loop between its iterations, if no call
  of a function \<open>n\<close> of the application makes more than \<open>rk n\<close> work and the other tasks and threads
  make none from some iteration on. Either the channel is empty then, no timer is due, and everything that
  was in the channel is accounted for; or a \<open>SystemExit\<close> or
  \<open>KeyboardInterrupt\<close>, or a Trio function that cannot be started in the closed nursery, has cut it short.\<close>

theorem drain_terminates:
  assumes "memory_channel C msgs cap" and "loop_inv msgs s" and "finite (waiting_futures s)" and "task s"
    and "ranked rk s" and "adds_no_work msgs rk others N" and "\<And>i t. meanwhile C (async_methods C) t (others i t)"
  shows "\<exists>s' r. drain C (async_methods C) others i s = Some (s', r) \<and>
    (case r of Inr _ \<Rightarrow> msgs (queue s') = [] \<and> no_timer_due s' \<and>
         (\<forall>h \<in> set (msgs (queue s)). handled s' h)
     | Inl e \<Rightarrow> is_exit e \<and> e \<noteq> TrioAsyncioExit \<or> nursery_closed s \<and> e = nursery_is_closed)"
proof -
  note lm = loop_methods_cost_async [OF assms(1)]
  obtain s' r where x: "drain C (async_methods C) others i s = Some (s', r)"
    using loop_methods_cost.drain_returns [OF lm assms(5-7,2-4)] by fastforce
  have d: "loop_inv msgs s'" "evolves (=) msgs s s'" "drained msgs s' r" "nursery_closed s' = nursery_closed s"
    using loop_methods_cost.drain_result [OF lm x assms(7,2-4)] by (auto simp: outer_def)
  obtain new where "received s' @ msgs (queue s') = received s @ msgs (queue s) @ new"
    using evolves_fifo [OF d(2)] by blast
  then have "h \<in> set (received s')" if "msgs (queue s') = []" "h \<in> set (msgs (queue s))" for h
    using that by (metis Un_iff append_Nil2 set_append)
  then have "\<forall>h \<in> set (msgs (queue s)). handled s' h" if "msgs (queue s') = []"
    using that d(1) by (simp add: loop_inv_def)
  then show ?thesis using x d(3,4)
    by (intro exI [of _ s'] exI [of _ r]) (simp add: drained_def split: sum.splits)
qed

lemma adds_no_work_time: "adds_no_work msgs rk (\<lambda>i t. t\<lparr>clock := f i t\<rparr>) 0"
  by (simp add: adds_no_work_def work_def queue_work_def timer_work_def future_work_def waiting_futures_def)

lemma meanwhile_time: "clock t \<le> c \<Longrightarrow> meanwhile C M t (t\<lparr>clock := c\<rparr>)"
  unfolding meanwhile_def by (rule r_into_rtranclp) (rule other_step.tick)

lemma meanwhile_tick: "meanwhile C M t (t\<lparr>clock := clock t + 1\<rparr>)"
  by (rule meanwhile_time) simp

lemma after_calls_ranked: "ranked (\<lambda>_. 0) (after_calls c as)"
  using after_calls_ok(3) [of c as] by (simp add: outer_def ranked_def running_eval no_program_def)

theorem drain_terminates_witness:
  "\<exists>s' r. drain fifo_ops aio (\<lambda>i t. t\<lparr>clock := clock t + 1\<rparr>) 0
      (after_calls None [CallSoon (UserCallback [CallSoon noop] None), StopLoop None]) = Some (s', r)"
proof -
  let ?s = "after_calls None [CallSoon (UserCallback [CallSoon noop] None), StopLoop None]"
  have e: "task ?s" by code_simp
  have "loop_inv fst ?s" using after_calls_ok(1) by (simp add: conf_inv_def)
  from drain_terminates [OF fifo.memory_channel_axioms this after_calls_ok(2) e after_calls_ranked adds_no_work_time meanwhile_tick]
  show ?thesis by blast
qed







text \<open>C11: leaving the loop: \<open>_main_loop_exit\<close>, with the loop taking any steps until it
  stops, returns under the conditions under which the drain does. If nothing cuts the drain short, everything in the channel
  was handled, all remaining timers are cancelled and the heap is empty, every task of a reader or writer has a
  cancelled handle or scope, the marked descriptors are closed, the async-generator hooks count one loop
  less, and the nursery, task and token are gone. If an exit or a Trio function refused by the closed
  nursery cuts it short, that exception is raised and nothing is cleaned up.\<close>

theorem main_loop_exit_cleans_up:
  assumes "memory_channel C msgs cap" and "\<not> closed_flag s" and "conf_inv msgs (s, p)"
    and "finite (waiting_futures s)" and "task s" and "exit_ready orig k d s"
    and "m_stop (async_methods C) None s = (s1, Inr u)"
    and "loop_steps C (async_methods C) (s1, p) (await_stopped s1, Exited e)"
    and "ranked rk s" and "adds_no_work msgs rk others N" and "\<And>i t. meanwhile C (async_methods C) t (others i t)"
  shows "\<exists>s2 r2 s' r. main_loop_exit C (async_methods C) await_stopped others s = Some (s', r) \<and>
    loop_inv msgs s2 \<and> evolves (=) msgs s s2 \<and> drained msgs s2 r2 \<and> outer s2 = outer s \<and> stopped s2 \<and>
    (case r2 of Inr _ \<Rightarrow> r = Inr () \<and> cleaned orig k d s2 s' | Inl x \<Rightarrow> r = Inl x \<and> s' = s2)"
proof -
  note lm = loop_methods_cost_async [OF assms(1)]
  obtain s' r where x: "main_loop_exit C (async_methods C) await_stopped others s = Some (s', r)"
    using loop_methods_cost.main_loop_exit_returns [where await_stopped = await_stopped, OF lm assms(2-5,7,8,11,9,10)]
    by fastforce
  from loop_methods_cost.main_loop_exit_effect [where await_stopped = await_stopped, OF lm assms(2-8,11) x] x
  show ?thesis by blast
qed

theorem main_loop_exit_cleans_up_witness:
  "\<exists>s2 r2 s' r. main_loop_exit fifo_ops aio (\<lambda>s. fst ((own_step fifo_ops aio ^^ 4) (s, Top))) (\<lambda>i t. t\<lparr>clock := clock t + 1\<rparr>)
      (after_calls None [CallSoon noop]) = Some (s', r) \<and>
    loop_inv fst s2 \<and> evolves (=) fst (after_calls None [CallSoon noop]) s2 \<and> drained fst s2 r2 \<and>
    outer s2 = outer (after_calls None [CallSoon noop]) \<and> stopped s2 \<and>
    (case r2 of Inr _ \<Rightarrow> r = Inr () \<and> cleaned (current_hooks trio_hooks) 0 0 s2 s'
     | Inl x \<Rightarrow> r = Inl x \<and> s' = s2)"
proof -
  let ?s = "after_calls None [CallSoon noop]" and ?w = "\<lambda>s. fst ((own_step fifo_ops aio ^^ 4) (s, Top))"
  obtain s1 r where st: "m_stop aio None ?s = (s1, r)" by fastforce
  have "snd (m_stop aio None ?s) = Inr ()" by code_simp
  then have r: "r = Inr ()" by (simp add: st del: async_methods_simps)
  have "snd ((own_step fifo_ops aio ^^ 4) (fst (m_stop aio None ?s), Top)) = Exited None" by code_simp
  then have x: "snd ((own_step fifo_ops aio ^^ 4) (s1, Top)) = Exited None"
    by (simp only: st fst_conv)
  have w: "loop_steps fifo_ops aio (s1, Top) (?w s1, Exited None)"
    using own_steps_steps [of fifo_ops aio "(s1, Top)" 4] x by (metis prod.collapse)
  have e: "\<not> closed_flag ?s" "task ?s" by (code_simp, code_simp)
  have "exit_ready (current_hooks trio_hooks) 0 0 ?s"
    using running_loop_ok(16) after_calls_ok(3) by (simp add: exit_ready_def outer_def)
  from main_loop_exit_cleans_up [where await_stopped = ?w, OF fifo.memory_channel_axioms e(1) after_calls_ok(1,2) e(2) this
      st [unfolded r] w after_calls_ranked adds_no_work_time meanwhile_tick] show ?thesis .
qed

end
