(* ===== verification/Async_Properties.thy ===== *)
theory Async_Properties
  imports Loop_Properties
begin

text \<open>
  The properties of single operations of the asynchronous loop: scheduling, \<open>synchronize\<close>,
  running a handle, and the Trio task behind an \<open>AsyncHandle\<close> with its future.
\<close>

section \<open>Scheduling\<close>

text \<open>Scheduling a handle: on a closed loop it raises \<open>RuntimeError\<close>, with a full
  bounded channel \<open>WouldBlock\<close>, and the channel keeps its messages; otherwise the new,
  live handle is returned and is the last message.\<close>

theorem schedule_outcome:
  assumes "memory_channel C msgs cap" and "queue_new (queue_handle_async C) k cb s = (s', r)"
  shows "if closed_flag s then r = Inl (RuntimeError ''Event loop is closed'') \<and> queue s' = queue s
    else if \<exists>n. cap (queue s) = Some n \<and> n \<le> length (msgs (queue s))
      then r = Inl WouldBlock \<and> queue s' = queue s
    else r = Inr (next_hid s) \<and> msgs (queue s') = msgs (queue s) @ [next_hid s] \<and>
      handles s' (next_hid s) = new_handle_obj k cb \<and> next_hid s' = Suc (next_hid s)"
  using assms(2) memory_channel.send_None_iff [OF assms(1), of "queue s" "next_hid s"]
    memory_channel.send_msgs [OF assms(1), of "queue s" "next_hid s"]
  by (auto simp: queue_new_def alloc_handle_def queue_handle_async_def py_bind_def check_closed_def
      split: option.splits if_splits)

theorem schedule_outcome_witness:
  "snd (queue_new (queue_handle_async fifo_ops) PlainHandle noop (after_calls (Some 1) [CallSoon noop])) =
     Inl WouldBlock"
proof -
  let ?s = "after_calls (Some 1) [CallSoon noop]"
  obtain s' r where q: "queue_new (queue_handle_async fifo_ops) PlainHandle noop ?s = (s', r)" by fastforce
  have "\<not> closed_flag ?s" "queue ?s = ([1], Some 1)" by (code_simp, code_simp)
  with schedule_outcome [OF fifo.memory_channel_axioms q] have "r = Inl WouldBlock" by simp
  then show ?thesis by (simp only: q snd_conv)
qed

text \<open>The operations that ask the loop to run something.\<close>

fun schedules :: "api \<Rightarrow> bool" where
  "schedules (CallSoon cb) = (\<not> is_coroutine_function cb)"
| "schedules (CallLater d cb) = (\<not> is_coroutine_function cb \<and> 0 \<le> d)"
| "schedules (CallAt t cb) = (\<not> is_coroutine_function cb)"
| "schedules (CallSoonThreadsafe cb) = (\<not> is_coroutine_function cb)"
| "schedules (TrioAsFuture cb) = True"
| "schedules (RunTrioTask cb) = True"
| "schedules (AddReader fd cb) = True"
| "schedules (AddWriter fd cb) = True"
| "schedules _ = False"

text \<open>Nothing can be scheduled on a closed loop: every operation that asks the loop to
  run something raises \<open>RuntimeError\<close> and leaves the channel, the functions passed to
  Trio from other threads, the timers and everything else the loop works from unchanged.\<close>

theorem closed_loop_rejects:
  assumes "closed_flag s" and "schedules a"
  shows "\<exists>s' m. exec_api (async_methods C) a s = (s', Inl (RuntimeError m)) \<and>
    queue s' = queue s \<and> sync_soon s' = sync_soon s \<and> core s' = core s"
  using assms
  by (cases a) (auto simp: core_def call_soon_def call_later_def call_at_def call_soon_threadsafe_def
      trio_as_future_def run_trio_task_def add_reader_def add_writer_def add_reader_impl_def add_writer_impl_def
      add_io_handler_def ensure_fd_no_transport_def queue_new_def queue_handle_async_def check_closed_def
      check_callback_def loop_time_def py_bind_def alloc_handle_def alloc_future_def upd_future_def discard_def)

theorem closed_loop_rejects_witness:
  "\<exists>s' m. exec_api aio (CallLater 1 noop) (running_loop None\<lparr>closed_flag := True\<rparr>) = (s', Inl (RuntimeError m)) \<and>
    queue s' = ([], None) \<and> sync_soon s' = [] \<and> core s' = core (running_loop None\<lparr>closed_flag := True\<rparr>)"
  using closed_loop_rejects [of "running_loop None\<lparr>closed_flag := True\<rparr>" "CallLater 1 noop" fifo_ops]
  by (simp add: running_loop_ok noop_def)

text \<open>\<open>synchronize()\<close>: when the handle it queues is reached, every callback that was
  in the channel before the call has been handled; running that handle sets the event it
  waits for.\<close>

theorem synchronize_waits_for_earlier:
  assumes "memory_channel C msgs cap" and "conf_inv msgs (s, p)"
    and "synchronize_begin (async_methods C) s = (s1, Inr w)"
  shows "msgs (queue s1) = msgs (queue s) @ [next_hid s] \<and> \<not> events s1 w \<and>
    (\<forall>s2. handle_run (async_methods C) (next_hid s) (s1\<lparr>sniffio := l, ran := rs\<rparr>) = (s2, Inr ()) \<longrightarrow> events s2 w) \<and>
    (\<forall>s' p'. loop_steps C (async_methods C) (s1, p) (s', p') \<longrightarrow> next_hid s \<in> set (received s') \<longrightarrow>
       (\<forall>x \<in> set (msgs (queue s)). handled s' x))"
proof -
  note lm = loop_methods_async [OF assms(1)]
  have "api_frame (=) msgs cap s s1"
    using loop_methods.synchronize_begin_frame [OF lm, of s] by (simp add: assms(3))
  from loop_methods.frame_conf [OF lm this assms(2)] have conf: "conf_inv msgs (s1, p)" ..
  have ids: "\<forall>h \<in> set (msgs (queue s)) \<union> set (received s). h < next_hid s"
    using assms(2) unfolding conf_inv_def loop_inv_def ids_ok_def fst_conv by blast
  have "\<not> closed_flag s"
    using assms(3) by (auto simp: synchronize_begin_def alloc_event_def queue_new_def alloc_handle_def
        py_bind_def queue_handle_async_def check_closed_def)
  moreover obtain q where sent: "send_nowait C (queue s) (next_hid s) = Some q"
    using assms(3) calculation
    by (cases "send_nowait C (queue s) (next_hid s)") (auto simp: synchronize_begin_def alloc_event_def
        queue_new_def alloc_handle_def py_bind_def queue_handle_async_def check_closed_def)
  ultimately have s1: "s1 = s\<lparr>events := (events s)(next_eid s := False), next_eid := Suc (next_eid s),
      handles := (handles s)(next_hid s := new_handle_obj PlainHandle (SetEvent (next_eid s))),
      next_hid := Suc (next_hid s), queue := q\<rparr>" and w: "w = next_eid s"
    using assms(3) by (auto simp: synchronize_begin_def alloc_event_def queue_new_def alloc_handle_def
        py_bind_def queue_handle_async_def check_closed_def)
  have q: "msgs q = msgs (queue s) @ [next_hid s]" using memory_channel.send_msgs [OF assms(1) sent] .
  have "\<forall>x \<in> set (msgs (queue s)). handled s' x"
    if "loop_steps C (async_methods C) (s1, p) (s', p')" and "next_hid s \<in> set (received s')" for s' p'
  proof -
    have "set (msgs (queue s)) \<subseteq> set (received s')"
      using loop_methods.received_before [OF lm, of s1 s' "msgs (queue s)" "next_hid s" "[]"]
        steps_inv_async [OF assms(1) conf that(1)] that(2) ids by (simp add: s1 q) blast
    then show ?thesis
      using steps_inv_async [OF assms(1) conf that(1)] by (auto simp: conf_inv_def loop_inv_def)
  qed
  moreover have "events s2 w"
    if "handle_run (async_methods C) (next_hid s) (s1\<lparr>sniffio := l, ran := rs\<rparr>) = (s2, Inr ())" for s2
    using that by (auto simp: s1 w handle_run_def new_handle_obj_def set_event_def)
  moreover have "msgs (queue s1) = msgs (queue s) @ [next_hid s]" "\<not> events s1 w" by (simp_all add: s1 w q)
  ultimately show ?thesis by blast
qed

theorem synchronize_waits_for_earlier_witness:
  "\<exists>w. snd (synchronize_begin aio (after_calls None [CallSoon noop])) = Inr w \<and>
    fst (queue (fst (synchronize_begin aio (after_calls None [CallSoon noop])))) = [1, 2]"
proof -
  let ?s = "after_calls None [CallSoon noop]"
  obtain s1 r where q: "synchronize_begin aio ?s = (s1, r)" by fastforce
  have "snd (synchronize_begin aio ?s) = Inr 0" by code_simp
  then have r: "r = Inr 0" by (simp add: q)
  have "fst (queue ?s) = [1]" "next_hid ?s = 2" by (code_simp, code_simp)
  with synchronize_waits_for_earlier [OF fifo.memory_channel_axioms after_calls_ok(1) q [unfolded r]]
  show ?thesis by (simp add: q r)
qed

text \<open>Running a handle is contained: whatever the callback of a handle does, only a
  process exit leaves \<open>_main_loop_one\<close>, or the error of a nursery that has been closed; and the sniffio library, which is "asyncio" for
  the callback, is what it was before.\<close>

theorem dispatch_contains_errors:
  assumes "memory_channel C msgs cap" and "nursery s" and "dispatch (async_methods C) obj s = (s', r)"
  shows "sniffio s' = sniffio s \<and> (\<forall>e. r = Inl e \<longrightarrow> is_exit e \<or> nursery_closed s \<and> e = nursery_is_closed)"
  using loop_methods.dispatch_frame [OF loop_methods_async [OF assms(1)] assms(3)]
    dispatch_exit [of "async_methods C" obj s s'] assms(2,3) by (simp add: run_frame_def)

theorem dispatch_contains_errors_witness:
  "sniffio (fst (dispatch aio 1 (after_calls None [CallSoon (UserCallback [] (Some ValueError))]))) = None"
proof -
  let ?s = "after_calls None [CallSoon (UserCallback [] (Some ValueError))]"
  obtain s' r where d: "dispatch aio 1 ?s = (s', r)" by fastforce
  have "nursery ?s" "sniffio ?s = None" by (code_simp, code_simp)
  with dispatch_contains_errors [OF fifo.memory_channel_axioms _ d] have "sniffio s' = None" by simp
  then show ?thesis by (simp only: d fst_conv)
qed

end
