(* ===== verification/Future_Properties.thy ===== *)
theory Future_Properties
  imports Async_Properties
begin

text \<open>
  The Trio task behind an \<open>AsyncHandle\<close> and the asyncio future linked to it
  (\<open>_handles.py\<close>): how the future is resolved, what leaves the task, and cancellation
  before the task starts and while it runs.
\<close>

section \<open>Resolving\<close>

text \<open>C12: a future given to Trio code never stays pending. Whatever happens around the main loop of
  either class: the handle of a Trio function and its future know each other; when the function
  ends, however it ends (with a result, cancelled, or by any exception) and even if scheduling
  the future's callbacks fails, the future is resolved; and so it is when the function was
  cancelled before it started, and ever after.\<close>

theorem future_always_resolved:
  assumes "loop_methods C msgs cap ext M" and "conf_inv msgs c" and "loop_steps C M c (s, p)"
    and "h < next_hid s" and "handle_future h s = Some f"
  shows "f < next_fid s \<and> fwrapped (futures s f) = Some h \<and>
    fut_done f (fst (async_run_end M h b s)) \<and>
    (hcancelled (handles s h) \<longrightarrow> fut_done f (fst (async_run_begin M h s))) \<and>
    (hfinished (handles s h) \<longrightarrow> fut_done f s)"
proof -
  have "fut_inv {} s"
    using loop_methods.loop_steps_inv [OF assms(1,3,2)] by (simp add: conf_inv_def loop_inv_def)
  moreover have "kind (handles s h) = AsyncHandle (Some f)"
    using assms(5) by (simp add: handle_future_def split: hkind.splits)
  ultimately have 1: "f < next_fid s" "fwrapped (futures s f) = Some h" "hfinished (handles s h) \<longrightarrow> fut_done f s"
    using fut_inv_handle [of "{}" s h f] assms(4) by (simp_all add: fut_done_def)
  have "fut_done f (fst (async_run_begin M h s))" if "hcancelled (handles s h)"
    using loop_methods.async_run_begin_done [OF assms(1,5) 1(1,2) that] .
  then show ?thesis using 1 loop_methods.async_run_end_done [OF assms(1,5) 1(1,2)] by blast
qed

theorem future_always_resolved_witness:
  "\<exists>s. hfinished (handles s 1) \<and> fut_done 0 s \<and>
     loop_steps fifo_ops aio (after_calls None [TrioAsFuture (TrioProc 0)], Top) (s, Waiting None)"
proof -
  let ?as = "[TrioAsFuture (TrioProc 0)]" and ?b = "Raised (ExcGroup True [Cancelled, ValueError])"
  let ?s = "fst (run_own 3 None ?as)" and ?e = "\<lambda>s. fst (async_run_end aio 1 (Raised (ExcGroup True [Cancelled, ValueError])) s)"
  have f: "snd (run_own 3 None ?as) = Waiting None" "1 \<in> set (started_tasks ?s)" "\<not> hfinished (handles ?s 1)"
    "hfinished (handles (?e ?s) 1)" "1 < next_hid (?e ?s)" "handle_future 1 (?e ?s) = Some 0"
    by (code_simp, code_simp, code_simp, code_simp, code_simp, code_simp)
  obtain s' r where e: "async_run_end aio 1 ?b ?s = (s', r)" by fastforce
  define t where "t = (case r of Inr _ \<Rightarrow> s' | Inl e \<Rightarrow> s'\<lparr>task_errors := task_errors s' @ [e]\<rparr>)"
  have t: "handles t = handles s'" "next_hid t = next_hid s'" by (simp_all add: t_def split: sum.split)
  have "loop_step fifo_ops aio (?s, Waiting None) (t, Waiting None)"
    unfolding t_def by (rule loop_step.async_end [OF f(2,3) e])
  then have st: "loop_steps fifo_ops aio (after_calls None ?as, Top) (t, Waiting None)"
    using run_own_steps [of None ?as 3] f(1) by simp
  have "hfinished (handles t 1)" "1 < next_hid t" "handle_future 1 t = Some 0"
    using f(4-6) unfolding e fst_conv by (simp_all only: t handle_future_def)
  with future_always_resolved [OF fifo.async_contract after_calls_ok(1) st, of 1 0] st show ?thesis by blast
qed

section \<open>The outcome\<close>

text \<open>On an open loop with an unbounded channel, scheduling callbacks never fails.\<close>

definition can_schedule :: "('q \<Rightarrow> nat option) \<Rightarrow> ('q, 'z) loop_scheme \<Rightarrow> bool" where
  "can_schedule cap s \<longleftrightarrow> \<not> closed_flag s \<and> cap (queue s) = None"

context memory_channel
begin

lemma call_soon_ok:
  assumes "can_schedule cap s" and "\<not> is_coroutine_function cb"
  shows "\<exists>s' h. call_soon (async_methods C) cb s = (s', Inr h) \<and> can_schedule cap s'"
proof -
  obtain q where q: "send_nowait C (queue s) (next_hid s) = Some q"
    using send_None_iff [of "queue s" "next_hid s"] assms(1)
    by (cases "send_nowait C (queue s) (next_hid s)") (auto simp: can_schedule_def)
  then show ?thesis using assms send_cap [OF q]
    by (simp add: call_soon_def check_callback_def py_bind_def queue_new_def alloc_handle_def
        queue_handle_async_def check_closed_def can_schedule_def)
qed

lemma call_soon_all_ok:
  "can_schedule cap s \<Longrightarrow> list_all (\<lambda>cb. \<not> is_coroutine_function cb) cbs \<Longrightarrow>
   \<exists>s'. call_soon_all (async_methods C) cbs s = (s', Inr ())"
proof (induction cbs arbitrary: s)
  case (Cons cb cbs)
  then obtain s1 h where "call_soon (async_methods C) cb s = (s1, Inr h)" "can_schedule cap s1"
    using call_soon_ok [of s cb] by auto
  then show ?case using Cons by (simp add: py_bind_def)
qed simp

lemma fut_resolve_ok:
  assumes "can_schedule cap s" and "list_all (\<lambda>cb. \<not> is_coroutine_function cb) (fcallbacks (futures s f))"
    and "f < next_fid s" and "st \<noteq> Pending"
  shows "\<exists>s'. fut_resolve (async_methods C) f st s = (s', Inr ()) \<and> fstate (futures s' f) = st"
proof -
  have "can_schedule cap (upd_future f g s)" for g
    using assms(1) by (simp add: can_schedule_def upd_future_def)
  from call_soon_all_ok [OF this assms(2)] obtain s' where "fut_resolve (async_methods C) f st s = (s', Inr ())"
    by (auto simp: fut_resolve_def)
  then show ?thesis using async.fut_resolve_state [OF assms(3,4)] by fastforce
qed

end

text \<open>The task \<open>h\<close> of the pending future \<open>f\<close>, ready to be resolved.\<close>

definition awaits ::
  "('q \<Rightarrow> nat option) \<Rightarrow> hid \<Rightarrow> fid \<Rightarrow> ('q, 'z) loop_scheme \<Rightarrow> bool" where
  "awaits cap h f s \<longleftrightarrow> can_schedule cap s \<and> handle_future h s = Some f \<and> f < next_fid s \<and>
     fwrapped (futures s f) = Some h \<and> \<not> fut_done f s \<and>
     list_all (\<lambda>cb. \<not> is_coroutine_function cb) (fcallbacks (futures s f))"

lemma awaits_finish: "awaits cap h f s \<Longrightarrow> awaits cap h f (finish k s)"
  by (simp add: awaits_def finish_facts fut_done_def can_schedule_def) (simp add: finish_def upd_handle_def)

lemma fut_cancel_finished:
  "fwrapped (futures s f) = Some h \<Longrightarrow> hfinished (handles s h) \<Longrightarrow>
   fut_cancel M f None s = fut_orig_cancel M f (hcancel_message (handles s h)) s"
  by (simp add: fut_cancel_def wrapped_cancel_def)

context memory_channel
begin

lemma resolve_finished:
  assumes "awaits cap h f s"
  shows "\<exists>s'. fut_cancel (async_methods C) f None (finish h s) = (s', Inr True) \<and>
      fstate (futures s' f) = FCancelled (hcancel_message (handles s h))"
    and "\<exists>s'. fut_set_result (async_methods C) f v (finish h s) = (s', Inr ()) \<and>
      fstate (futures s' f) = FResult v"
    and "\<exists>s'. fut_set_exception (async_methods C) f e (finish h s) = (s', Inr ()) \<and>
      fstate (futures s' f) = FException e"
proof -
  have a: "awaits cap h f (finish h s)" using assms by (rule awaits_finish)
  then have nd: "\<not> fut_done f (finish h s)" by (simp add: awaits_def)
  have R: "\<exists>s'. fut_resolve (async_methods C) f st (finish h s) = (s', Inr ()) \<and> fstate (futures s' f) = st"
    if "st \<noteq> Pending" for st
    using a that by (intro fut_resolve_ok) (simp_all add: awaits_def)
  have "fut_cancel (async_methods C) f None (finish h s) =
      fut_orig_cancel (async_methods C) f (hcancel_message (handles s h)) (finish h s)"
    using a fut_cancel_finished [of "finish h s" f h] by (simp add: awaits_def finish_facts)
  then show "\<exists>s'. fut_cancel (async_methods C) f None (finish h s) = (s', Inr True) \<and>
      fstate (futures s' f) = FCancelled (hcancel_message (handles s h))"
    using nd R [of "FCancelled (hcancel_message (handles s h))"]
    by (auto simp: fut_orig_cancel_def py_bind_def)
  show "\<exists>s'. fut_set_result (async_methods C) f v (finish h s) = (s', Inr ()) \<and>
      fstate (futures s' f) = FResult v"
    using nd R [of "FResult v"] by (simp add: fut_set_result_def)
  show "\<exists>s'. fut_set_exception (async_methods C) f e (finish h s) = (s', Inr ()) \<and>
      fstate (futures s' f) = FException e"
    using nd R [of "FException e"] by (simp add: fut_set_exception_def)
qed

end

text \<open>C20: what becomes of the result of a Trio function run for a future: a result is the
  future's result; a cancellation of its own scope cancels the future, with the message given
  to \<open>cancel()\<close>; of an exception, the \<open>Cancelled\<close> parts leave the task and everything
  else, \<open>BaseException\<close>s like \<open>SystemExit\<close> included, becomes the future's exception; if
  nothing else is there, the future is cancelled.\<close>

theorem async_handle_outcome:
  assumes "memory_channel C msgs cap" and "awaits cap h f s"
    and "async_run_end (async_methods C) h b s = (s', r)"
  shows "case b of
      Returned v \<Rightarrow> fstate (futures s' f) = FResult v \<and> r = Inr ()
    | ScopeCaught \<Rightarrow> fstate (futures s' f) = FCancelled (hcancel_message (handles s h)) \<and> r = Inr ()
    | Raised e \<Rightarrow>
        (case collapse_aware_exception_split e is_Cancelled of (cancelled, rest) \<Rightarrow>
           fstate (futures s' f) = (case rest of Some x \<Rightarrow> FException x
             | None \<Rightarrow> FCancelled (hcancel_message (handles s h))) \<and>
           r = (case cancelled of Some c \<Rightarrow> Inl c | None \<Rightarrow> Inr ()))"
proof -
  note res = memory_channel.resolve_finished [OF assms(1,2)]
  have hf: "handle_future h (finish h s) = Some f" "\<not> fut_cancelled f (finish h s)"
    using assms(2) by (auto simp: awaits_def finish_facts fut_done_def fut_cancelled_def)
  show ?thesis
  proof (cases b)
    case (Returned v)
    then show ?thesis using res(2) [of v] hf assms(3)
      by (auto simp: async_run_end_def async_propagate_def)
  next
    case ScopeCaught
    then show ?thesis using res(1) hf assms(3)
      by (auto simp: async_run_end_def async_propagate_def discard_def py_bind_def)
  next
    case (Raised e)
    obtain c rest where sp: "collapse_aware_exception_split e is_Cancelled = (c, rest)" by fastforce
    have r: "async_except (async_methods C) h e (finish h s) = (s', r)"
      using assms(3) Raised by (simp add: async_run_end_def async_propagate_def)
    show ?thesis
      using r res(1) res(3) [of "the rest"] hf
      by (cases rest; cases c) (auto simp: Raised sp async_except_def opt_raise_def discard_def py_bind_def)
  qed
qed

theorem async_handle_outcome_witness:
  "fstate (futures (fst (async_run_end aio 1 (Raised (ExcGroup True [Cancelled, SystemExit]))
     (after_calls None [TrioAsFuture (TrioProc 0)]))) 0) = FException SystemExit"
proof -
  let ?s = "after_calls None [TrioAsFuture (TrioProc 0)]" and ?e = "ExcGroup True [Cancelled, SystemExit]"
  obtain s' r where e: "async_run_end aio 1 (Raised ?e) ?s = (s', r)" by fastforce
  have "awaits snd 1 0 ?s" by code_simp
  moreover have "collapse_aware_exception_split ?e is_Cancelled = (Some Cancelled, Some SystemExit)" by code_simp
  ultimately have "fstate (futures s' 0) = FException SystemExit"
    using async_handle_outcome [OF fifo.memory_channel_axioms _ e] by simp
  then show ?thesis by (simp only: e fst_conv)
qed

section \<open>Cancelling\<close>

text \<open>Cancelling the future before its task starts: \<open>cancel(msg)\<close> returns \<open>True\<close> and
  leaves the future pending; when the loop reaches the handle, the Trio function is not
  called, and the future is cancelled with that message.\<close>

theorem cancel_before_start:
  assumes "memory_channel C msgs cap" and "can_schedule cap s"
    and "trio_as_future (async_methods C) proc s = (s1, Inr f)"
    and "fut_cancel (async_methods C) f msg s1 = (s2, r2)"
    and "async_run_begin (async_methods C) (next_hid s) s2 = (s3, r3)"
  shows "r2 = Inr True \<and> \<not> fut_done f s2 \<and> r3 = Inr False \<and> fstate (futures s3 f) = FCancelled msg"
proof -
  obtain q where q: "send_nowait C (queue s) (next_hid s) = Some q"
    using memory_channel.send_None_iff [OF assms(1), of "queue s" "next_hid s"] assms(2)
    by (cases "send_nowait C (queue s) (next_hid s)") (auto simp: can_schedule_def)
  then have s1: "s1 = s\<lparr>futures := (futures s)(next_fid s :=
        \<lparr>fstate = Pending, fcallbacks = [], fwrapped = Some (next_hid s)\<rparr>), next_fid := Suc (next_fid s),
      handles := (handles s)(next_hid s := new_handle_obj (AsyncHandle (Some (next_fid s))) proc),
      next_hid := Suc (next_hid s), queue := q\<rparr>" and f: "f = next_fid s"
    using assms(2,3) by (auto simp: trio_as_future_def alloc_future_def alloc_handle_def upd_future_def
        py_bind_def queue_handle_async_def check_closed_def can_schedule_def)
  let ?h = "(new_handle_obj (AsyncHandle (Some f)) proc)\<lparr>hcancel_message := msg, hcancelled := True,
      hcallback := None, hscope_cancelled := True\<rparr>"
  have s2: "s2 = s1\<lparr>handles := (handles s1)(next_hid s := ?h)\<rparr>" "r2 = Inr True"
    using assms(4) by (auto simp: fut_cancel_def wrapped_cancel_def scoped_cancel_def scoped_cancel_by_def handle_cancel_def
        trio_io_cancel_def upd_handle_def py_bind_def fut_done_def new_handle_obj_def s1 f)
  have "r3 = Inr False \<and> fstate (futures s3 f) = FCancelled msg"
    using assms(5) by (auto simp: s2 s1 f async_run_begin_def upd_handle_def Let_def finish_def
        handle_future_def fut_done_def fut_cancel_def wrapped_cancel_def fut_orig_cancel_def
        fut_resolve_def upd_future_def py_bind_def new_handle_obj_def split: if_splits)
  then show ?thesis by (simp add: s2 s1 f fut_done_def)
qed

theorem cancel_before_start_witness:
  "fstate (futures (fst (async_run_begin aio 1 (fst (fut_cancel aio 0 (Some ''bye'')
     (fst (trio_as_future aio (TrioProc 0) (running_loop None))))))) 0) = FCancelled (Some ''bye'')"
proof -
  obtain s1 r1 where 1: "trio_as_future aio (TrioProc 0) (running_loop None) = (s1, r1)" by fastforce
  obtain s2 r2 where 2: "fut_cancel aio 0 (Some ''bye'') s1 = (s2, r2)" by fastforce
  obtain s3 r3 where 3: "async_run_begin aio 1 s2 = (s3, r3)" by fastforce
  have "snd (trio_as_future aio (TrioProc 0) (running_loop None)) = Inr 0" by code_simp
  then have r1: "r1 = Inr 0" by (simp add: 1)
  have "can_schedule snd (running_loop None)" by (simp add: can_schedule_def running_loop_ok)
  moreover have "async_run_begin aio (next_hid (running_loop None)) s2 = (s3, r3)"
    using 3 by (simp add: running_loop_ok)
  ultimately have "fstate (futures s3 0) = FCancelled (Some ''bye'')"
    using cancel_before_start [OF fifo.memory_channel_axioms _ 1 [unfolded r1] 2] by blast
  then show ?thesis by (simp only: 1 2 3 fst_conv)
qed

text \<open>C21: cancelling the future while its Trio function runs: \<open>cancel(msg)\<close> returns
  \<open>True\<close>, cancels the function's scope and leaves the future pending; when the function
  ends because of that cancellation, the future is cancelled with that message, but if it
  returns a result all the same, the future gets the result.\<close>

theorem cancel_while_running:
  assumes "memory_channel C msgs cap" and "awaits cap h f s" and "\<not> hfinished (handles s h)"
    and "fut_cancel (async_methods C) f msg s = (s1, r)"
  shows "r = Inr True \<and> hscope_cancelled (handles s1 h) \<and> \<not> fut_done f s1 \<and>
    fstate (futures (fst (async_run_end (async_methods C) h ScopeCaught s1)) f) = FCancelled msg \<and>
    fstate (futures (fst (async_run_end (async_methods C) h (Returned v) s1)) f) = FResult v"
proof -
  have eq: "fut_cancel (async_methods C) f msg s =
      py_bind (scoped_cancel (async_methods C) h) (\<lambda>_. py_return True)
        (upd_handle h (\<lambda>x. x\<lparr>hcancel_message := msg\<rparr>) s)"
    using assms(2,3) by (simp add: fut_cancel_def wrapped_cancel_def awaits_def)
  have s1: "r = Inr True" "futures s1 = futures s" "next_fid s1 = next_fid s" "queue s1 = queue s"
    "closed_flag s1 = closed_flag s" "hscope_cancelled (handles s1 h)"
    "hcancel_message (handles s1 h) = msg" "kind (handles s1 h) = kind (handles s h)"
    using assms(4) unfolding eq
    by (cases "hcancelled (handles s h)";
        auto simp: py_bind_def scoped_cancel_def scoped_cancel_by_def trio_io_cancel_def handle_cancel_def upd_handle_def)+
  then have "awaits cap h f s1"
    using assms(2) by (simp add: awaits_def can_schedule_def handle_future_def fut_done_def)
  note out = async_handle_outcome [OF assms(1) this]
  have "fstate (futures (fst (async_run_end (async_methods C) h ScopeCaught s1)) f) = FCancelled msg"
    using out [of ScopeCaught] s1(7) by (cases "async_run_end (async_methods C) h ScopeCaught s1") simp
  moreover have "fstate (futures (fst (async_run_end (async_methods C) h (Returned v) s1)) f) = FResult v"
    using out [of "Returned v"] by (cases "async_run_end (async_methods C) h (Returned v) s1") simp
  ultimately show ?thesis using s1 assms(2) by (simp add: awaits_def fut_done_def)
qed

theorem cancel_while_running_witness:
  "snd (fut_cancel aio 0 None (after_calls None [TrioAsFuture (TrioProc 0)])) = Inr True"
proof -
  let ?s = "after_calls None [TrioAsFuture (TrioProc 0)]"
  obtain s1 r where c: "fut_cancel aio 0 None ?s = (s1, r)" by fastforce
  have "awaits snd 1 0 ?s" "\<not> hfinished (handles ?s 1)" by (code_simp, code_simp)
  from cancel_while_running [OF fifo.memory_channel_axioms this c] show ?thesis by (simp only: c snd_conv)
qed

text \<open>C22: exceptions of a Trio task without a future (\<open>run_trio_task\<close>) are not lost: the
  \<open>Exception\<close> part of what its function raised is raised again in the nursery of the loop,
  and the rest (\<open>Cancelled\<close>, \<open>SystemExit\<close>, ...) leaves the task; between them they hold
  every exception that was raised.\<close>

theorem trio_task_errors_kept:
  assumes "memory_channel C msgs cap" and "handle_future h s = None" and "nursery s" and "\<not> nursery_closed s" and "wf_exn e"
    and "async_run_end (async_methods C) h (Raised e) s = (s', r)"
  shows "\<exists>rest base. task_errors s' = task_errors s @ (case rest of Some x \<Rightarrow> [x] | None \<Rightarrow> []) \<and>
    r = (case base of Some x \<Rightarrow> Inl x | None \<Rightarrow> Inr ()) \<and>
    leaves_opt rest = filter is_Exception (leaves e) \<and>
    leaves_opt base = filter (\<lambda>x. \<not> is_Exception x) (leaves e)"
proof -
  obtain rest base where sp: "collapse_aware_exception_split e is_Exception = (rest, base)" by fastforce
  have fin: "handle_future h (finish h s) = None" "task_errors (finish h s) = task_errors s" "nursery (finish h s)"
    "\<not> nursery_closed (finish h s)"
    using assms(2-4) by (simp_all add: finish_facts) (simp_all add: finish_def upd_handle_def)
  have "async_except (async_methods C) h e (finish h s) = (s', r)"
    using assms(6) by (simp add: async_run_end_def async_propagate_def)
  then have "task_errors s' = task_errors s @ (case rest of Some x \<Rightarrow> [x] | None \<Rightarrow> []) \<and>
      r = (case base of Some x \<Rightarrow> Inl x | None \<Rightarrow> Inr ())"
    using fin by (cases rest; cases base) (auto simp: sp async_except_def opt_raise_def py_bind_def
        handle_raise_def call_exception_handler_def default_exception_handler_def Let_def)
  then show ?thesis using exception.aware_split_leaves [OF sp] by blast
qed

theorem trio_task_errors_kept_witness:
  "\<exists>rest. task_errors (fst (async_run_end aio 1 (Raised (ExcGroup True [Cancelled, ValueError]))
     (after_calls None [RunTrioTask (TrioProc 0)]))) = [] @ (case rest of Some x \<Rightarrow> [x] | None \<Rightarrow> []) \<and>
     leaves_opt rest = [ValueError]"
proof -
  let ?s = "after_calls None [RunTrioTask (TrioProc 0)]" and ?e = "ExcGroup True [Cancelled, ValueError]"
  obtain s' r where e: "async_run_end aio 1 (Raised ?e) ?s = (s', r)" by fastforce
  have "handle_future 1 ?s = None" "nursery ?s" "\<not> nursery_closed ?s" "wf_exn ?e" "task_errors ?s = []"
    by (code_simp, code_simp, code_simp, code_simp, code_simp)
  then show ?thesis
    using trio_task_errors_kept [OF fifo.memory_channel_axioms _ _ _ _ e] unfolding e fst_conv by force
qed

end
