(* ===== verification/Io_Properties.thy ===== *)
theory Io_Properties
  imports Future_Properties
begin

text \<open>
  The properties of readers and writers: what adding and removing one does to the selector,
  and when the task of a handler calls its callback.
\<close>

section \<open>The table\<close>

text \<open>The handle is cancelled with its scope.\<close>

definition cancelled_scope :: "handle \<Rightarrow> handle" where
  "cancelled_scope x = (cancelled_handle x)\<lparr>hscope_cancelled := True\<rparr>"

lemma scoped_cancel_effect:
  "scoped_cancel_by trio_io_cancel h s =
     (s\<lparr>handles := (handles s)(h := cancelled_scope (handles s h))\<rparr>, Inr ())"
  by (simp add: scoped_cancel_by_def trio_io_cancel_def handle_cancel_def upd_handle_def
      cancelled_scope_def cancelled_handle_def)

definition reader_key :: "sel_key option \<Rightarrow> hid \<Rightarrow> sel_key" where
  "reader_key old h = (case old of
     None \<Rightarrow> \<lparr>ev_read = True, ev_write = False, reader = Some h, writer = None\<rparr>
   | Some k \<Rightarrow> k\<lparr>ev_read := True, reader := Some h\<rparr>)"

text \<open>\<open>add_reader\<close> on an open loop whose task runs: the descriptor's key has the new
  handle as reader and its writer as before, no other key changes, a reader that was there
  before is cancelled with its scope, and a task waiting for the descriptor is started for
  the new handle.\<close>

theorem add_reader_effect:
  assumes "\<not> closed_flag s" and "token s" and "nursery s" and "\<not> nursery_closed s" and "fd \<notin> transports s"
    and "io_inv s"
  shows "\<exists>s'. add_reader (async_methods C) fd cb s = (s', Inr (Some (next_hid s))) \<and>
    map_of (selector s') = (map_of (selector s))(fd \<mapsto> reader_key (map_of (selector s) fd) (next_hid s)) \<and>
    io_inv s' \<and> io_tasks s' = io_tasks s @ [(fd, next_hid s, True)] \<and>
    handles s' (next_hid s) = new_handle_obj ScopedHandle cb \<and>
    (\<forall>k old. map_of (selector s) fd = Some k \<longrightarrow> reader k = Some old \<longrightarrow>
       handles s' old = cancelled_scope (handles s old))"
proof -
  have "api_frame (=) (\<lambda>_. []) (\<lambda>_. None) s (fst (add_reader_impl trio_io_cancel fd cb s))"
    by (rule add_reader_impl_frame [OF cancels_io_cancel])
  then have inv: "io_inv (fst (add_reader_impl trio_io_cancel fd cb s))"
    using assms(6) api_frame_io by (fastforce simp: io_frame_def)
  have old: "old < next_hid s" if "map_of (selector s) fd = Some k" "reader k = Some old" for k old
    using io_inv_slot [OF assms(6), of fd True old] that by (simp add: slot_def)
  show ?thesis
  proof (cases "map_of (selector s) fd")
    case None
    then show ?thesis
      using assms(1-5) inv
      by (simp add: add_reader_def ensure_fd_no_transport_def add_reader_impl_def add_io_handler_def start_io_task_def
          py_bind_def check_closed_def alloc_handle_def set_read_handle_def sel_get_key_def
          sel_register_lookup reader_key_def)
  next
    case (Some k)
    show ?thesis
      using assms(1-5) Some inv sel_modify_lookup [OF Some] old [OF Some]
      by (cases "reader k") (auto simp: add_reader_def ensure_fd_no_transport_def add_reader_impl_def
          add_io_handler_def start_io_task_def py_bind_def check_closed_def alloc_handle_def set_read_handle_def
          sel_get_key_def reader_key_def scoped_cancel_effect)
  qed
qed

theorem add_reader_effect_witness:
  "\<exists>s'. add_reader aio 5 noop (running_loop None) = (s', Inr (Some 1)) \<and>
    handles s' 0 = cancelled_scope (handles (running_loop None) 0)"
proof -
  have e: "\<not> closed_flag (running_loop None)" "token (running_loop None)" "nursery (running_loop None)"
    "\<not> nursery_closed (running_loop None)" "next_hid (running_loop None) = 1"
    "map_of (selector (running_loop None)) 5 = Some \<lparr>ev_read = True, ev_write = False, reader = Some 0, writer = None\<rparr>"
    by (code_simp, code_simp, code_simp, code_simp, code_simp, code_simp)
  have "5 \<notin> transports (running_loop None)" by code_simp
  moreover have "io_inv (running_loop None)" using running_loop_ok(1) by (simp add: conf_inv_def loop_inv_def)
  ultimately show ?thesis using add_reader_effect [of "running_loop None" 5 fifo_ops noop] e by auto
qed

text \<open>\<open>remove_reader\<close> tells whether there was a reader; it cancels that reader with its
  scope and takes it from the table, together with the key if no writer is left, and
  touches nothing else of the table.\<close>

theorem remove_reader_effect:
  assumes "\<not> closed_flag s" and "fd \<notin> transports s" and "selector_ok (selector s)"
  shows "\<exists>s'. remove_reader (async_methods C) fd s =
      (s', Inr (\<exists>k h. map_of (selector s) fd = Some k \<and> reader k = Some h)) \<and>
    selector_ok (selector s') \<and>
    map_of (selector s') = (map_of (selector s))(fd :=
      (case map_of (selector s) fd of None \<Rightarrow> None
       | Some k \<Rightarrow> if writer k = None then None else Some (k\<lparr>ev_read := False, reader := None\<rparr>))) \<and>
    (\<forall>k h. map_of (selector s) fd = Some k \<longrightarrow> reader k = Some h \<longrightarrow>
       handles s' h = cancelled_scope (handles s h))"
proof (cases "map_of (selector s) fd")
  case None
  then show ?thesis using assms
    by (simp add: remove_reader_def remove_reader_impl_def ensure_fd_no_transport_def py_bind_def fun_upd_idem)
next
  case (Some k)
  note k = selector_ok_key [OF assms(3) Some]
  let ?k = "k\<lparr>ev_read := False, reader := None\<rparr>"
  have "writer k \<noteq> None \<Longrightarrow> key_ok ?k" using k by (auto simp: key_ok_def)
  then show ?thesis
    using assms Some k selector_ok_unregister [OF assms(3), of fd] selector_ok_modify [OF assms(3) Some, of ?k]
      sel_modify_lookup [OF Some, of ?k]
    by (cases "reader k"; cases "writer k")
      (auto simp: remove_reader_def remove_reader_impl_def take_slot_def ensure_fd_no_transport_def scoped_cancel_def
        scoped_cancel_effect py_bind_def key_ok_def sel_unregister_lookup)
qed

theorem remove_reader_effect_witness:
  "\<exists>s'. remove_reader aio 5 (running_loop None) = (s', Inr True) \<and> map_of (selector s') 5 = None"
proof -
  have e: "\<not> closed_flag (running_loop None)" "5 \<notin> transports (running_loop None)"
    "selector_ok (selector (running_loop None))"
    "map_of (selector (running_loop None)) 5 = Some \<lparr>ev_read = True, ev_write = False, reader = Some 0, writer = None\<rparr>"
    by (code_simp, code_simp, code_simp, code_simp)
  from remove_reader_effect [OF e(1-3), of fifo_ops] e(4) show ?thesis by auto
qed

section \<open>Tasks and the table\<close>

text \<open>C13: whatever happens around the main loop of either class, the tasks of readers and
  writers and the table agree: a task whose handle was not cancelled is the one that the table
  has for its descriptor and direction, so that no two such tasks wait for the same thing, and
  every handle of a task is a \<open>ScopedHandle\<close> of its own.\<close>

theorem one_task_per_slot:
  assumes "loop_methods C msgs cap ext M" and "conf_inv msgs c" and "loop_steps C M c (s, p)"
    and "(fd, h, reading) \<in> set (io_tasks s)"
  shows "kind (handles s h) = ScopedHandle \<and>
    (\<not> hcancelled (handles s h) \<longrightarrow> slot (selector s) fd reading = Some h \<and>
       (\<forall>h'. (fd, h', reading) \<in> set (io_tasks s) \<longrightarrow> \<not> hcancelled (handles s h') \<longrightarrow> h' = h)) \<and>
    (\<forall>fd' reading'. (fd', h, reading') \<in> set (io_tasks s) \<longrightarrow> fd' = fd \<and> reading' = reading)"
proof -
  have inv: "io_inv s"
    using loop_methods.loop_steps_inv [OF assms(1,3,2)] by (simp add: conf_inv_def loop_inv_def)
  have "fd' = fd \<and> reading' = reading" if "(fd', h, reading') \<in> set (io_tasks s)" for fd' reading'
  proof -
    have "inj_on (\<lambda>(fd, h, reading). h) (set (io_tasks s))" using io_inv_distinct [OF inv] by (simp add: distinct_map)
    from inj_onD [OF this _ that assms(4)] show ?thesis by simp
  qed
  moreover have "h' = h" if "(fd, h', reading) \<in> set (io_tasks s)" "\<not> hcancelled (handles s h')" "\<not> hcancelled (handles s h)" for h'
    using io_inv_task [OF inv that(1)] io_inv_task [OF inv assms(4)] that by simp
  ultimately show ?thesis using io_inv_task [OF inv assms(4)] by blast
qed

theorem one_task_per_slot_witness:
  "slot (selector (fst (run_own 0 None [AddReader 7 noop, AddReader 7 noop, AddWriter 7 noop]))) 7 True = Some 2"
proof -
  let ?as = "[AddReader 7 noop, AddReader 7 noop, AddWriter 7 noop]"
  have e: "(7, 2, True) \<in> set (io_tasks (fst (run_own 0 None ?as)))"
    "\<not> hcancelled (handles (fst (run_own 0 None ?as)) 2)" by (code_simp, code_simp)
  from one_task_per_slot [OF fifo.async_contract after_calls_ok(1) run_own_steps e(1)] e(2) show ?thesis by blast
qed

section \<open>The task\<close>

context loop_methods
begin

lemma io_except_ran: "ran (fst (io_except M e s)) = ran s"
  by (rule api_frame_fields(9) [OF io_except_frame])

lemma io_run_ran: "ran (fst (io_run M h s)) = ran s @ [h]"
  using api_frame_fields(9) [OF io_run_frame [where s = s and h = h]] by simp

end

text \<open>The task of a handler calls its callback only when the descriptor is ready and the
  handle has not been cancelled; once the handle is cancelled it never runs again, and the
  next time the task is at its test or woken up in \<open>wait_ready\<close> it ends, unless
  \<open>wait_ready\<close> fails with something else than \<open>OSError\<close>.\<close>

theorem io_task_respects_cancel:
  assumes "memory_channel C msgs cap" and "io_step (async_methods C) h wake s pc = (s', pc')"
  shows "(ran s' \<noteq> ran s \<longrightarrow> ran s' = ran s @ [h] \<and> pc = IoWaiting \<and> wake = IoReady \<and> \<not> hcancelled (handles s h)) \<and>
    (hcancelled (handles s h) \<and> (pc = IoTop \<or> pc = IoWaiting \<and> wake \<in> {IoReady, IoRaise OSError, IoScopeCancelled})
       \<longrightarrow> s' = s \<and> pc' = IoDone)"
proof -
  note lm = loop_methods_async [OF assms(1)]
  have "ran s1 = ran s" if "io_except (async_methods C) e s = (s1, p)" for e s1 p
    using loop_methods.io_except_ran [OF lm, of e s] by (simp add: that)
  then show ?thesis
    using assms(2) loop_methods.io_run_ran [OF lm, of h s]
    by (cases pc; cases wake) (auto simp: io_step_def split: if_splits)
qed

theorem io_task_respects_cancel_witness:
  "snd (io_step aio 1 IoReady (after_calls None [CallSoon noop, CancelHandle 1]) IoWaiting) = IoDone"
proof -
  let ?s = "after_calls None [CallSoon noop, CancelHandle 1]"
  obtain s' pc' where i: "io_step aio 1 IoReady ?s IoWaiting = (s', pc')" by fastforce
  have "hcancelled (handles ?s 1)" by code_simp
  with io_task_respects_cancel [OF fifo.memory_channel_axioms i] have "pc' = IoDone" by simp
  then show ?thesis by (simp only: i snd_conv)
qed

end
