(* ===== verification/Child.thy ===== *)
theory Child
  imports Aio_Prelude "HOL-Library.Word"
begin

text \<open>
  Waiting for child processes (\<open>_child.py\<close>): the exit status of \<open>waitpid\<close> as a machine
  word, the registry of \<open>ProcessWaiter\<close> objects, and one waiter shared by several
  callers of \<open>wait()\<close> with its background thread, as a step relation.
\<close>

section \<open>The exit status\<close>

unbundle bit_operations_syntax

text \<open>A status is a C \<open>int\<close>; the macros of \<open>sys/wait.h\<close> on Linux, as \<open>os\<close> offers
  them: bits 0 to 6 hold the signal that ended the process (0 for an exit, 127 for a stop),
  bit 7 tells of a core dump, bits 8 to 15 hold the exit code or the stopping signal.\<close>

type_synonym status = "32 word"

definition wtermsig :: "status \<Rightarrow> int" where
  "wtermsig st = uint (st AND 0x7f)"

definition wexitstatus :: "status \<Rightarrow> int" where
  "wexitstatus st = uint (drop_bit 8 (st AND 0xff00))"

definition wifexited :: "status \<Rightarrow> bool" where
  "wifexited st \<longleftrightarrow> wtermsig st = 0"

definition wifstopped :: "status \<Rightarrow> bool" where
  "wifstopped st \<longleftrightarrow> st AND 0xff = 0x7f"

definition wifsignaled :: "status \<Rightarrow> bool" where
  "wifsignaled st \<longleftrightarrow> 0 < sint (ucast ((st AND 0x7f) + 1) :: 8 word) div 2"

definition compute_returncode :: "status \<Rightarrow> exn + int" where
  "compute_returncode st =
     (if wifsignaled st then Inr (- wtermsig st)
      else if wifexited st then Inr (wexitstatus st)
      else if wifstopped st then Inr (- wexitstatus st)
      else Inl (UnknownStatus (sint st)))"

text \<open>How the system builds a status.\<close>

definition exited :: "8 word \<Rightarrow> status" where
  "exited code = push_bit 8 (ucast code)"

definition killed :: "7 word \<Rightarrow> bool \<Rightarrow> status" where
  "killed sig core = ucast sig OR (if core then 0x80 else 0)"

definition stopped_by :: "8 word \<Rightarrow> status" where
  "stopped_by sig = push_bit 8 (ucast sig) OR 0x7f"

lemma wtermsig_mod: "wtermsig st = uint st mod 128"
proof -
  have "(0x7f :: 32 word) = mask 7" by (simp add: mask_eq_exp_minus_1)
  then have "uint (st AND 0x7f) = uint (take_bit 7 st)" by (simp add: take_bit_eq_mask)
  also have "... = take_bit 7 (uint st)" by (simp add: unsigned_take_bit_eq)
  finally show ?thesis by (simp add: wtermsig_def take_bit_eq_mod)
qed

lemma wexitstatus_div: "wexitstatus st = uint st div 256 mod 256"
proof -
  have "drop_bit 8 (0xff00 :: 32 word) = mask 8" by (simp add: mask_eq_exp_minus_1)
  then have "drop_bit 8 (st AND 0xff00) = take_bit 8 (drop_bit 8 st)"
    by (simp add: drop_bit_and take_bit_eq_mask)
  moreover have "take_bit 32 (uint st) = uint st"
    using uint_lt2p [of st] by (intro take_bit_int_eq_self) simp_all
  ultimately have "wexitstatus st = take_bit 8 (drop_bit 8 (uint st))"
    by (simp only: wexitstatus_def) (simp add: unsigned_take_bit_eq unsigned_drop_bit_eq)
  then show ?thesis by (simp add: take_bit_eq_mod drop_bit_eq_div)
qed

lemma wifstopped_mod: "wifstopped st \<longleftrightarrow> uint st mod 256 = 127"
proof -
  have "st AND 0xff = take_bit 8 st" by (simp add: take_bit_eq_mask mask_eq_exp_minus_1)
  then have "uint (st AND 0xff) = take_bit 8 (uint st)" by (simp add: unsigned_take_bit_eq)
  then have "uint (st AND 0xff) = uint st mod 256" by (simp add: take_bit_eq_mod)
  moreover have "st AND 0xff = 0x7f \<longleftrightarrow> uint (st AND 0xff) = uint (0x7f :: 32 word)" by (rule word_uint_eq_iff)
  ultimately show ?thesis by (simp add: wifstopped_def)
qed

lemma wifsignaled_iff: "wifsignaled st \<longleftrightarrow> 0 < wtermsig st \<and> wtermsig st < 127"
proof -
  let ?x = "wtermsig st"
  have x: "0 \<le> ?x" "?x < 128" by (simp_all add: wtermsig_mod)
  have "uint ((st AND 0x7f) + 1) = ?x + 1"
    using x by (simp add: wtermsig_def uint_word_ariths)
  then have "uint (ucast ((st AND 0x7f) + 1) :: 8 word) = ?x + 1"
    using x by (simp add: unsigned_ucast_eq take_bit_eq_mod)
  then have s: "sint (ucast ((st AND 0x7f) + 1) :: 8 word) = signed_take_bit 7 (?x + 1)"
    by (simp add: sint_uint)
  show ?thesis
  proof (cases "?x = 127")
    case True
    then show ?thesis by (simp add: wifsignaled_def s)
  next
    case False
    then have "signed_take_bit 7 (?x + 1) = ?x + 1" using x by (simp add: signed_take_bit_int_eq_self_iff)
    then show ?thesis using x False by (auto simp: wifsignaled_def s)
  qed
qed

lemma uint_exited: "uint (exited code) = 256 * uint code"
  using uint_lt2p [of code]
  by (simp add: exited_def push_bit_eq_mult uint_word_ariths unsigned_ucast_eq take_bit_eq_mod)

lemma uint_stopped: "uint (stopped_by sig) = 256 * uint sig + 127"
proof -
  have "push_bit 8 (ucast sig) AND (0x7f :: 32 word) = 0"
  proof -
    have "(0x7f :: 32 word) = mask 7" by (simp add: mask_eq_exp_minus_1)
    then have "push_bit 8 (ucast sig) AND (0x7f :: 32 word) = take_bit 7 (push_bit 8 (ucast sig))"
      by (simp only: take_bit_eq_mask)
    also have "... = 0" by (rule bit_eqI) (auto simp: bit_simps)
    finally show ?thesis .
  qed
  then have "stopped_by sig = push_bit 8 (ucast sig) + 0x7f"
    by (simp add: stopped_by_def disjunctive_add_eq_or)
  moreover have "uint (push_bit 8 (ucast sig) :: 32 word) = 256 * uint sig"
    using uint_exited [of sig] by (simp add: exited_def)
  ultimately show ?thesis using uint_lt2p [of sig] by (simp add: uint_word_ariths)
qed

lemma uint_killed: "uint (killed sig core) = uint sig + (if core then 128 else 0)"
proof -
  have "(ucast sig :: 32 word) = ucast sig AND 0x7f"
  proof -
    have "(0x7f :: 32 word) = mask 7" by (simp add: mask_eq_exp_minus_1)
    then have "(ucast sig :: 32 word) AND 0x7f = take_bit 7 (ucast sig)" by (simp only: take_bit_eq_mask)
    also have "... = ucast sig" by (rule bit_eqI) (auto simp: bit_simps dest: bit_imp_le_length)
    finally show ?thesis ..
  qed
  then have "(ucast sig :: 32 word) AND 0x80 = ucast sig AND (0x7f AND 0x80)" by (metis and.assoc)
  then have "(ucast sig :: 32 word) AND 0x80 = 0" by simp
  then have "killed sig core = ucast sig + (if core then 0x80 else 0)"
    by (simp add: killed_def disjunctive_add_eq_or)
  moreover have "uint (ucast sig :: 32 word) = uint sig"
    using uint_lt2p [of sig] by (simp add: unsigned_ucast_eq take_bit_eq_mod)
  ultimately show ?thesis using uint_lt2p [of sig] by (simp add: uint_word_ariths)
qed

lemma stop_arith:
  fixes x :: int
  shows "(256 * x + 127) mod 128 = 127" "(256 * x + 127) mod 256 = 127" "(256 * x + 127) div 256 = x"
proof -
  have "256 * x + 127 = 127 + (2 * x) * 128" by simp
  then show "(256 * x + 127) mod 128 = 127" by (simp only: mod_mult_self1) simp
qed simp_all

lemma low_byte_split:
  fixes y :: int
  assumes "0 \<le> y" and "y < 256"
  shows "y mod 128 = (if y < 128 then y else y - 128)"
  using assms mod_pos_pos_trivial [of "y - 128" 128] by (simp add: minus_mod_self2)

text \<open>C26: the return code of a child: its exit code if it exited, minus the signal that killed
  it, with or without a core dump, minus the signal that stopped it; every other status raises
  \<open>UnknownStatus\<close>. The code is between -255 and 255.\<close>

theorem compute_returncode_correct:
  shows "compute_returncode (exited code) = Inr (uint code) \<and>
    (0 < sig \<and> sig < 127 \<longrightarrow> compute_returncode (killed sig core) = Inr (- uint sig)) \<and>
    compute_returncode (stopped_by sig') = Inr (- uint sig') \<and>
    (compute_returncode st = Inl (UnknownStatus (sint st)) \<longleftrightarrow> uint st mod 256 = 255) \<and>
    (\<forall>n. compute_returncode st = Inr n \<longrightarrow> -255 \<le> n \<and> n \<le> 255)"
proof -
  have m: "uint st mod 128 = uint st mod 256 mod 128" by (simp add: mod_mod_cancel)
  have w: "0 \<le> uint st mod 256" "uint st mod 256 < 256" by simp_all
  have e: "wtermsig (exited code) = 0" "wexitstatus (exited code) = uint code"
    using uint_lt2p [of code] by (simp_all add: wtermsig_mod wexitstatus_div uint_exited)
  have k: "wtermsig (killed sig core) = uint sig"
    using uint_lt2p [of sig] by (simp add: wtermsig_mod uint_killed)
  have "uint sig' mod 256 = uint sig'" using uint_lt2p [of sig'] by simp
  then have t: "wtermsig (stopped_by sig') = 127" "wexitstatus (stopped_by sig') = uint sig'" "wifstopped (stopped_by sig')"
    unfolding wtermsig_mod wexitstatus_div wifstopped_mod uint_stopped stop_arith by simp_all
  have "0 < uint sig \<and> uint sig < 127" if "0 < sig" "sig < 127"
    using that by (simp_all add: word_less_alt)
  then have 1: "0 < sig \<and> sig < 127 \<longrightarrow> compute_returncode (killed sig core) = Inr (- uint sig)"
    using k by (simp add: compute_returncode_def wifsignaled_iff)
  have 2: "compute_returncode (exited code) = Inr (uint code)" "compute_returncode (stopped_by sig') = Inr (- uint sig')"
    using e t by (simp_all add: compute_returncode_def wifsignaled_iff wifexited_def)
  have 3: "compute_returncode st = Inl (UnknownStatus (sint st)) \<longleftrightarrow> uint st mod 256 = 255"
    using w by (auto simp: compute_returncode_def wifsignaled_iff wifexited_def wifstopped_mod wtermsig_mod m
        low_byte_split [OF w] split: if_splits)
  have "0 \<le> wexitstatus st" "wexitstatus st < 256" by (simp_all add: wexitstatus_div)
  moreover have "0 \<le> wtermsig st" "wtermsig st < 128" by (simp_all add: wtermsig_mod)
  ultimately have 4: "\<forall>n. compute_returncode st = Inr n \<longrightarrow> -255 \<le> n \<and> n \<le> 255"
    by (auto simp: compute_returncode_def)
  show ?thesis using 1 2 3 4 by blast
qed

theorem compute_returncode_correct_witness:
  "compute_returncode (exited 3) = Inr 3 \<and> compute_returncode (killed 9 True) = Inr (-9)"
  using compute_returncode_correct [of 3 9 True 0 0] by simp

section \<open>Processes and waiters\<close>

text \<open>
  \<open>os.waitpid\<close>: a process runs, has ended and not been waited for, or is gone. A blocking
  call does not return (\<open>None\<close>) while the process runs; \<open>WNOHANG\<close> then reports pid 0.
\<close>

datatype os_process = Running | Zombie status | Reaped

definition waitpid ::
  "bool \<Rightarrow> int \<Rightarrow> (int \<Rightarrow> os_process) \<Rightarrow> ((int \<Rightarrow> os_process) \<times> (exn + int \<times> status)) option" where
  "waitpid blocking pid os =
     (case os pid of
        Running \<Rightarrow> if blocking then None else Some (os, Inr (0, 0))
      | Zombie st \<Rightarrow> Some (os(pid := Reaped), Inr (pid, st))
      | Reaped \<Rightarrow> Some (os, Inl ChildProcessError))"

text \<open>The fields of a \<open>ProcessWaiter\<close>: its pid, result, event (if made; whether it is set)
  and whether there is a thread. \<open>processes\<close> is the system's table, \<open>children\<close> the registry
  \<open>_children\<close>.\<close>

type_synonym wid = nat

record waiter =
  w_pid :: "int option"
  w_result :: "(exn + int) option"
  w_event :: "bool option"
  w_thread :: bool

record child_state =
  processes :: "int \<Rightarrow> os_process"
  children :: "int \<Rightarrow> wid option"
  waiters :: "wid \<Rightarrow> waiter"
  next_wid :: wid

definition upd_waiter :: "wid \<Rightarrow> (waiter \<Rightarrow> waiter) \<Rightarrow> child_state \<Rightarrow> child_state" where
  "upd_waiter w f s = s\<lparr>waiters := (waiters s)(w := f (waiters s w))\<rparr>"

text \<open>\<open>ProcessWaiter(pid)\<close>: the registered object, or a new one, which \<open>__init__\<close> gives its
  pid and registers. A handle may only be \<open>given\<close> on Windows, which is noticed last.\<close>

definition set_pid :: "wid \<Rightarrow> int \<Rightarrow> int option \<Rightarrow> (child_state, unit) py" where
  "set_pid w pid given s =
     (if w_pid (waiters s w) \<noteq> None then py_raise (RuntimeError ''You can't change the pid'') s
      else (if given \<noteq> None then py_raise (RuntimeError ''Process handles are a Windows thing.'') else py_return ())
             ((upd_waiter w (\<lambda>x. x\<lparr>w_pid := Some pid\<rparr>) s)\<lparr>children := (children s)(pid := Some w)\<rparr>))"

text \<open>\<open>NOT_FOUND()\<close>, and the property \<open>returncode\<close>, which does not wait.\<close>

definition not_found :: "exn + int" where
  [simp]: "not_found = Inl ChildProcessError"

definition returncode :: "wid \<Rightarrow> child_state \<Rightarrow> exn + int option" where
  "returncode w s =
     (case w_result (waiters s w) of
        None \<Rightarrow> Inr None
      | Some (Inl e) \<Rightarrow> Inl e
      | Some (Inr code) \<Rightarrow> Inr (Some code))"

definition process_waiter :: "int \<Rightarrow> (child_state, wid) py" where
  "process_waiter pid s =
     (case (case children s pid of
              Some w \<Rightarrow> (s, w)
            | None \<Rightarrow>
                (s\<lparr>waiters := (waiters s)(next_wid s :=
                     \<lparr>w_pid = None, w_result = None, w_event = None, w_thread = False\<rparr>),
                   next_wid := Suc (next_wid s)\<rparr>, next_wid s)) of
        (s', w) \<Rightarrow>
          py_bind (if w_pid (waiters s' w) = None then set_pid w pid None else py_return ())
            (\<lambda>_. py_return w) s')"

text \<open>\<open>_wait_pid\<close>; \<open>None\<close> if it has not returned.\<close>

definition wait_pid :: "bool \<Rightarrow> wid \<Rightarrow> child_state \<Rightarrow> (child_state \<times> (exn + unit)) option" where
  "wait_pid blocking w s =
     (case w_pid (waiters s w) of
        None \<Rightarrow> Some (s, Inl TypeError)
      | Some pid \<Rightarrow>
          if \<not> 0 < pid then Some (s, Inl AssertionError)
          else (case waitpid blocking pid (processes s) of
            None \<Rightarrow> None
          | Some (os, Inl e) \<Rightarrow>
              Some (upd_waiter w (\<lambda>x. x\<lparr>w_result := Some not_found\<rparr>) (s\<lparr>processes := os\<rparr>), Inr ())
          | Some (os, Inr (p, st)) \<Rightarrow>
              (let s' = s\<lparr>processes := os\<rparr>
               in if p = 0 then Some (s', Inr ())
                  else if children s' pid = None then Some (s', Inl KeyError)
                  else Some (upd_waiter w (\<lambda>x. x\<lparr>w_result := Some (compute_returncode st)\<rparr>)
                         (s'\<lparr>children := (children s')(pid := None)\<rparr>), Inr ()))))"

text \<open>\<open>wait()\<close> up to its \<open>await\<close>: the outcome, or \<open>None\<close> when it waits for the event.\<close>

definition wait_begin :: "wid \<Rightarrow> child_state \<Rightarrow> child_state \<times> (exn + int) option" where
  "wait_begin w s =
     (case w_result (waiters s w) of
        Some r \<Rightarrow> (s, Some r)
      | None \<Rightarrow>
          if w_pid (waiters s w) = None then
            (s, Some (Inl (RuntimeError ''I don't know what to wait for!'')))
          else (case wait_pid False w s of
            None \<Rightarrow> (s, None)
          | Some (s', Inl e) \<Rightarrow> (s', Some (Inl e))
          | Some (s', Inr _) \<Rightarrow>
              (case w_result (waiters s' w) of
                 Some r \<Rightarrow> (s', Some r)
               | None \<Rightarrow>
                   (if w_thread (waiters s' w) then s'
                    else upd_waiter w (\<lambda>x. x\<lparr>w_event := Some False, w_thread := True\<rparr>) s', None))))"

section \<open>Several callers and the thread\<close>

text \<open>
  Each caller runs \<open>wait_for_child(pid)\<close> once. The thread of a waiter is in \<open>waitpid\<close>,
  has asked Trio to set the event, or is over. \<open>exits\<close> is history: the status with which
  each process ended.
\<close>

datatype caller_pc = NotCalled | AwaitsEvent wid | Got "exn + int"
datatype thread_pc = InWaitpid | WillSet | Over

record world =
  child :: child_state
  callers :: "nat \<Rightarrow> caller_pc"
  threads :: "wid \<Rightarrow> thread_pc"
  exits :: "int \<Rightarrow> status option"

definition wait_for_child :: "nat \<Rightarrow> int \<Rightarrow> world \<Rightarrow> world" where
  "wait_for_child i pid c =
     (case process_waiter pid (child c) of
        (s, Inl e) \<Rightarrow> c\<lparr>child := s, callers := (callers c)(i := Got (Inl e))\<rparr>
      | (s, Inr w) \<Rightarrow>
          (case wait_begin w s of
             (s', Some r) \<Rightarrow> c\<lparr>child := s', callers := (callers c)(i := Got r)\<rparr>
           | (s', None) \<Rightarrow> c\<lparr>child := s', callers := (callers c)(i := AwaitsEvent w)\<rparr>))"

definition thread_waitpid :: "wid \<Rightarrow> world \<Rightarrow> world option" where
  "thread_waitpid w c =
     (case wait_pid True w (child c) of
        None \<Rightarrow> None
      | Some (s, Inr _) \<Rightarrow> Some (c\<lparr>child := s, threads := (threads c)(w := WillSet)\<rparr>)
      | Some (s, Inl e) \<Rightarrow> Some (c\<lparr>child := s, threads := (threads c)(w := Over)\<rparr>))"

definition thread_set_event :: "wid \<Rightarrow> world \<Rightarrow> world" where
  "thread_set_event w c =
     c\<lparr>child := upd_waiter w (\<lambda>x. x\<lparr>w_event := Some True\<rparr>) (child c), threads := (threads c)(w := Over)\<rparr>"

definition wait_end :: "nat \<Rightarrow> wid \<Rightarrow> world \<Rightarrow> world" where
  "wait_end i w c =
     (case w_result (waiters (child c) w) of
        None \<Rightarrow> c\<lparr>callers := (callers c)(i := Got (Inl AttributeError))\<rparr>
      | Some r \<Rightarrow> c\<lparr>callers := (callers c)(i := Got r)\<rparr>)"

text \<open>The steps, with the callers \<open>A\<close> taking part.\<close>

inductive child_step :: "nat set \<Rightarrow> int \<Rightarrow> world \<Rightarrow> world \<Rightarrow> bool" for A pid where
  call: "i \<in> A \<Longrightarrow> callers c i = NotCalled \<Longrightarrow> child_step A pid c (wait_for_child i pid c)"
| reap: "w_thread (waiters (child c) w) \<Longrightarrow> threads c w = InWaitpid \<Longrightarrow> thread_waitpid w c = Some c' \<Longrightarrow>
    child_step A pid c c'"
| set: "threads c w = WillSet \<Longrightarrow> child_step A pid c (thread_set_event w c)"
| wake: "callers c i = AwaitsEvent w \<Longrightarrow> w_event (waiters (child c) w) = Some True \<Longrightarrow>
    child_step A pid c (wait_end i w c)"
| ends: "processes (child c) pid = Running \<Longrightarrow>
    child_step A pid c (c\<lparr>child := (child c)\<lparr>processes := (processes (child c))(pid := Zombie st)\<rparr>,
      exits := (exits c)(pid := Some st)\<rparr>)"

definition fresh_world :: world where
  "fresh_world =
     \<lparr>child = \<lparr>processes = (\<lambda>_. Running), children = (\<lambda>_. None),
        waiters = (\<lambda>_. \<lparr>w_pid = None, w_result = None, w_event = None, w_thread = False\<rparr>), next_wid = 0\<rparr>,
      callers = (\<lambda>_. NotCalled), threads = (\<lambda>_. InWaitpid), exits = (\<lambda>_. None)\<rparr>"

section \<open>One caller\<close>

text \<open>What holds of a process \<open>p\<close> for which only caller \<open>i\<close> waits.\<close>

definition unreaped :: "int \<Rightarrow> world \<Rightarrow> bool" where
  "unreaped p c \<longleftrightarrow> (case processes (child c) p of
     Running \<Rightarrow> True | Zombie st \<Rightarrow> exits c p = Some st | Reaped \<Rightarrow> False)"

definition ended_with :: "int \<Rightarrow> exn + int \<Rightarrow> world \<Rightarrow> bool" where
  "ended_with p r c \<longleftrightarrow> processes (child c) p \<noteq> Running \<and> (\<exists>st. exits c p = Some st \<and> r = compute_returncode st)"

definition caller_inv :: "nat \<Rightarrow> int \<Rightarrow> world \<Rightarrow> bool" where
  "caller_inv i p c \<longleftrightarrow>
     (\<forall>j. j \<noteq> i \<longrightarrow> callers c j = NotCalled) \<and> (\<forall>w. w \<noteq> 0 \<longrightarrow> \<not> w_thread (waiters (child c) w) \<and> threads c w = InWaitpid) \<and>
     (case callers c i of
        NotCalled \<Rightarrow> children (child c) p = None \<and> next_wid (child c) = 0 \<and>
          \<not> w_thread (waiters (child c) 0) \<and> threads c 0 = InWaitpid \<and> unreaped p c
      | AwaitsEvent w \<Rightarrow> w = 0 \<and> w_pid (waiters (child c) 0) = Some p \<and>
          (if threads c 0 = InWaitpid then
             w_result (waiters (child c) 0) = None \<and> w_event (waiters (child c) 0) = Some False \<and>
             children (child c) p = Some 0 \<and> unreaped p c
           else \<exists>r. w_result (waiters (child c) 0) = Some r \<and> ended_with p r c)
      | Got r \<Rightarrow> ended_with p r c)"

lemma wait_for_child_inv:
  assumes "0 < p" and "caller_inv i p c" and "callers c i = NotCalled"
  shows "caller_inv i p (wait_for_child i p c)"
  using assms
  by (cases "processes (child c) p")
    (auto simp: caller_inv_def wait_for_child_def process_waiter_def set_pid_def upd_waiter_def py_bind_def
      wait_begin_def wait_pid_def waitpid_def Let_def unreaped_def ended_with_def)

lemma thread_waitpid_inv:
  assumes "0 < p" and "caller_inv i p c" and "w_thread (waiters (child c) w)" and "threads c w = InWaitpid"
    and "thread_waitpid w c = Some c'"
  shows "caller_inv i p c'"
proof -
  have w: "w = 0" using assms(2,3) by (auto simp: caller_inv_def)
  show ?thesis
  proof (cases "callers c i")
    case NotCalled
    then show ?thesis using assms(2,3) w by (simp add: caller_inv_def)
  next
    case (AwaitsEvent v)
    then show ?thesis
      using assms w
      by (cases "processes (child c) p")
        (auto simp: caller_inv_def thread_waitpid_def wait_pid_def waitpid_def upd_waiter_def Let_def
          unreaped_def ended_with_def)
  next
    case (Got r)
    have "exits c' = exits c" "callers c' = callers c"
      using assms(5) by (auto simp: thread_waitpid_def split: option.splits sum.splits)
    moreover have "processes (child c') p \<noteq> Running \<and> (\<forall>v. v \<noteq> 0 \<longrightarrow> waiters (child c') v = waiters (child c) v \<and> threads c' v = threads c v)"
      using assms(2,5) w Got
      by (auto simp: caller_inv_def ended_with_def thread_waitpid_def wait_pid_def waitpid_def upd_waiter_def Let_def
          split: option.splits sum.splits os_process.splits if_splits)
    ultimately show ?thesis using assms(2) Got by (simp add: caller_inv_def ended_with_def)
  qed
qed

lemma child_step_inv:
  assumes "child_step {i} p c c'" and "0 < p" and "caller_inv i p c"
  shows "caller_inv i p c'"
  using assms
proof (induction rule: child_step.induct)
  case (call j c)
  then show ?case using wait_for_child_inv by simp
next
  case (reap c w c')
  then show ?case using thread_waitpid_inv by blast
next
  case (set c w)
  then have w: "w = 0" by (cases "w = 0") (auto simp: caller_inv_def)
  then have "callers c i \<noteq> NotCalled" using set by (auto simp: caller_inv_def)
  with set w show ?case
    by (auto simp: caller_inv_def thread_set_event_def upd_waiter_def ended_with_def unreaped_def
        split: caller_pc.splits)
next
  case (wake c j w)
  then have "j = i" by (auto simp: caller_inv_def)
  with wake show ?case
    by (auto simp: caller_inv_def wait_end_def ended_with_def split: if_splits)
next
  case (ends c st)
  then show ?case
    by (auto simp: caller_inv_def ended_with_def unreaped_def split: caller_pc.splits)
qed

text \<open>C27: a single caller of \<open>wait_for_child\<close> gets the return code of its child: whatever
  the timing of the child's end, of the waiting thread and of the event, the result is the one
  computed from the status with which the child ended.\<close>

theorem single_waiter_gets_returncode:
  assumes "0 < pid" and "(child_step {i} pid)\<^sup>*\<^sup>* fresh_world c" and "callers c i = Got r"
  shows "\<exists>st. exits c pid = Some st \<and> r = compute_returncode st"
proof -
  have "caller_inv i pid fresh_world"
    by (simp add: caller_inv_def fresh_world_def unreaped_def)
  from assms(2) this have "caller_inv i pid c"
    by (induction rule: rtranclp_induct) (use child_step_inv [OF _ assms(1)] in blast)+
  then show ?thesis using assms(3) by (auto simp: caller_inv_def ended_with_def)
qed

text \<open>A run of the single caller, and one of two callers whose second call reaps the child that
  the first one's thread is waiting for.\<close>

definition end_child :: "int \<Rightarrow> status \<Rightarrow> world \<Rightarrow> world" where
  "end_child p st c = c\<lparr>child := (child c)\<lparr>processes := (processes (child c))(p := Zombie st)\<rparr>,
      exits := (exits c)(p := Some st)\<rparr>"

definition single_run :: world where
  "single_run = wait_end 0 0 (thread_set_event 0 (the (thread_waitpid 0
     (end_child 7 (exited 3) (wait_for_child 0 7 fresh_world)))))"

definition racing_run :: world where
  "racing_run = wait_end 0 0 (thread_set_event 0 (the (thread_waitpid 0
     (wait_for_child 1 7 (end_child 7 (exited 3) (wait_for_child 0 7 fresh_world))))))"

lemma step_end: "processes (child c) p = Running \<Longrightarrow> child_step A p c (end_child p st c)"
  unfolding end_child_def by (rule child_step.ends)

lemma step_reap:
  "w_thread (waiters (child c) w) \<Longrightarrow> threads c w = InWaitpid \<Longrightarrow> thread_waitpid w c \<noteq> None \<Longrightarrow>
   child_step A p c (the (thread_waitpid w c))"
  by (auto intro: child_step.reap)

lemma steps5: "r a b \<Longrightarrow> r b c \<Longrightarrow> r c d \<Longrightarrow> r d e \<Longrightarrow> r e f \<Longrightarrow> r\<^sup>*\<^sup>* a f"
  by (blast intro: converse_rtranclp_into_rtranclp)

lemma single_run_steps: "(child_step {0} 7)\<^sup>*\<^sup>* fresh_world single_run"
proof -
  have "child_step {0} 7 fresh_world (wait_for_child 0 7 fresh_world)"
    by (rule child_step.call) (simp_all add: fresh_world_def)
  moreover have "child_step {0} 7 (wait_for_child 0 7 fresh_world) (end_child 7 (exited 3) (wait_for_child 0 7 fresh_world))"
    (is "child_step _ _ _ ?c") by (rule step_end) code_simp
  moreover have "child_step {0} 7 ?c (the (thread_waitpid 0 ?c))" (is "child_step _ _ _ ?d")
    by (rule step_reap) (code_simp, code_simp, code_simp)
  moreover have "child_step {0} 7 ?d (thread_set_event 0 ?d)" (is "child_step _ _ _ ?e")
    by (rule child_step.set) code_simp
  moreover have "child_step {0} 7 ?e (wait_end 0 0 ?e)"
    by (rule child_step.wake) (code_simp, code_simp)
  ultimately show ?thesis unfolding single_run_def by (rule steps5)
qed

theorem single_waiter_gets_returncode_witness:
  "\<exists>st. exits single_run 7 = Some st \<and> Inr 3 = compute_returncode st"
proof -
  have "callers single_run 0 = Got (Inr 3)" by code_simp
  from single_waiter_gets_returncode [OF _ single_run_steps this] show ?thesis by simp
qed

text \<open>C28: two callers may lose the return code: the second \<open>wait()\<close> on a child checks with
  \<open>WNOHANG\<close> although the thread of the first is already in \<open>waitpid\<close>; if the child ends in
  between, that check reaps it, the thread finds no child and overwrites the stored result
  with \<open>ChildProcessError\<close>, which is what the first caller then gets.\<close>

theorem racing_waiters_lose_returncode:
  "(child_step {0, 1} 7)\<^sup>*\<^sup>* fresh_world racing_run \<and> callers racing_run 1 = Got (Inr 3) \<and>
   callers racing_run 0 = Got (Inl ChildProcessError)"
proof -
  have "child_step {0, 1} 7 fresh_world (wait_for_child 0 7 fresh_world)"
    by (rule child_step.call) (simp_all add: fresh_world_def)
  moreover have "child_step {0, 1} 7 (wait_for_child 0 7 fresh_world) (end_child 7 (exited 3) (wait_for_child 0 7 fresh_world))"
    (is "child_step _ _ _ ?b") by (rule step_end) code_simp
  moreover have "child_step {0, 1} 7 ?b (wait_for_child 1 7 ?b)" (is "child_step _ _ _ ?c")
    by (rule child_step.call) (simp, code_simp)
  moreover have "child_step {0, 1} 7 ?c (the (thread_waitpid 0 ?c))" (is "child_step _ _ _ ?d")
    by (rule step_reap) (code_simp, code_simp, code_simp)
  moreover have "child_step {0, 1} 7 ?d (thread_set_event 0 ?d)" (is "child_step _ _ _ ?e")
    by (rule child_step.set) code_simp
  moreover have "child_step {0, 1} 7 ?e (wait_end 0 0 ?e)"
    by (rule child_step.wake) (code_simp, code_simp)
  ultimately have "(child_step {0, 1} 7)\<^sup>*\<^sup>* fresh_world racing_run"
    unfolding racing_run_def by (rule converse_rtranclp_into_rtranclp [OF _ steps5])
  moreover have "callers racing_run 1 = Got (Inr 3)" "callers racing_run 0 = Got (Inl ChildProcessError)"
    by (code_simp, code_simp)
  ultimately show ?thesis by simp
qed

end
