(* ===== verification/Child_Windows.thy ===== *)
theory Child_Windows
  imports Child
begin

text \<open>
  The branch of \<open>_child.py\<close> for Windows. It reads the exit code through \<open>self._handle\<close>, the
  class attribute, which is never written (the handle is in \<open>self.__handle\<close>), and stores a
  plain number where \<open>wait()\<close> calls \<open>unwrap()\<close>: it can only fail.
\<close>

section \<open>The waiter on Windows\<close>

text \<open>The functions of \<open>_winapi\<close> are a parameter: handles are numbers, \<open>GetExitCodeProcess\<close>
  is given what the code gives it, a handle or \<open>None\<close>.\<close>

record winapi =
  open_process :: "int \<Rightarrow> exn + int"
  get_exit_code :: "int option \<Rightarrow> exn + int"

text \<open>The waiter of one process: \<open>__pid\<close>, \<open>__handle\<close>, \<open>__result\<close> (a number), \<open>__event\<close> and
  \<open>__thread\<close>.\<close>

record win_waiter =
  v_pid :: "int option"
  v_handle :: "int option"
  v_result :: "int option"
  v_event :: "bool option"
  v_thread :: bool

definition new_win_waiter :: win_waiter where
  "new_win_waiter = \<lparr>v_pid = None, v_handle = None, v_result = None, v_event = None, v_thread = False\<rparr>"

definition win_set_pid :: "winapi \<Rightarrow> int \<Rightarrow> int option \<Rightarrow> (win_waiter, unit) py" where
  "win_set_pid W pid given x =
     (if v_pid x \<noteq> None then py_raise (RuntimeError ''You can't change the pid'') x
      else (let x' = x\<lparr>v_pid := Some pid\<rparr>
            in case (case given of None \<Rightarrow> open_process W pid | Some h \<Rightarrow> Inr h) of
                 Inl e \<Rightarrow> py_raise e x'
               | Inr h \<Rightarrow> py_return () (x'\<lparr>v_handle := Some h\<rparr>)))"

text \<open>\<open>_wait_pid\<close>; \<open>signalled\<close> tells whether the process has ended, and a blocking wait does
  not return (\<open>None\<close>) before. \<open>self._handle\<close> is \<open>None\<close>.\<close>

definition win_wait_pid :: "winapi \<Rightarrow> bool \<Rightarrow> bool \<Rightarrow> win_waiter \<Rightarrow> (win_waiter \<times> (exn + unit)) option" where
  "win_wait_pid W signalled blocking x =
     (if v_handle x = None then Some (x, Inl AssertionError)
      else if \<not> signalled then (if blocking then None else Some (x, Inr ()))
      else case get_exit_code W None of
        Inl e \<Rightarrow> Some (x, Inl e)
      | Inr n \<Rightarrow> Some (x\<lparr>v_result := Some n\<rparr>, Inr ()))"

text \<open>\<open>self.__result.unwrap()\<close>: neither \<open>None\<close> nor a number has that method.\<close>

definition win_unwrap :: "int option \<Rightarrow> exn + int" where
  "win_unwrap r = Inl AttributeError"

definition win_wait_begin :: "winapi \<Rightarrow> bool \<Rightarrow> win_waiter \<Rightarrow> win_waiter \<times> (exn + int) option" where
  "win_wait_begin W signalled x =
     (if v_result x \<noteq> None then (x, Some (win_unwrap (v_result x)))
      else if v_pid x = None then (x, Some (Inl (RuntimeError ''I don't know what to wait for!'')))
      else case win_wait_pid W signalled False x of
        None \<Rightarrow> (x, None)
      | Some (x', Inl e) \<Rightarrow> (x', Some (Inl e))
      | Some (x', Inr _) \<Rightarrow>
          if v_result x' \<noteq> None then (x', Some (win_unwrap (v_result x')))
          else (if v_thread x' then x' else x'\<lparr>v_event := Some False, v_thread := True\<rparr>, None))"

text \<open>\<open>_wait_thread\<close>: an exception ends the thread before it asks for the event.\<close>

definition win_thread :: "winapi \<Rightarrow> bool \<Rightarrow> win_waiter \<Rightarrow> (win_waiter \<times> thread_pc) option" where
  "win_thread W signalled x =
     (case win_wait_pid W signalled True x of
        None \<Rightarrow> None
      | Some (x', Inr _) \<Rightarrow> Some (x', WillSet)
      | Some (x', Inl _) \<Rightarrow> Some (x', Over))"

section \<open>Callers, the thread and the process\<close>

record win_world =
  win :: win_waiter
  win_callers :: "nat \<Rightarrow> caller_pc"
  win_pc :: thread_pc
  ended :: bool

inductive win_step :: "winapi \<Rightarrow> win_world \<Rightarrow> win_world \<Rightarrow> bool" for W where
  call: "win_callers c i = NotCalled \<Longrightarrow> win_wait_begin W (ended c) (win c) = (x, Some r) \<Longrightarrow>
    win_step W c (c\<lparr>win := x, win_callers := (win_callers c)(i := Got r)\<rparr>)"
| wait: "win_callers c i = NotCalled \<Longrightarrow> win_wait_begin W (ended c) (win c) = (x, None) \<Longrightarrow>
    win_step W c (c\<lparr>win := x, win_callers := (win_callers c)(i := AwaitsEvent 0)\<rparr>)"
| thread: "v_thread (win c) \<Longrightarrow> win_pc c = InWaitpid \<Longrightarrow> win_thread W (ended c) (win c) = Some (x, p) \<Longrightarrow>
    win_step W c (c\<lparr>win := x, win_pc := p\<rparr>)"
| set: "win_pc c = WillSet \<Longrightarrow> win_step W c (c\<lparr>win := (win c)\<lparr>v_event := Some True\<rparr>, win_pc := Over\<rparr>)"
| wake: "win_callers c i = AwaitsEvent 0 \<Longrightarrow> v_event (win c) = Some True \<Longrightarrow>
    win_step W c (c\<lparr>win_callers := (win_callers c)(i := Got (win_unwrap (v_result (win c))))\<rparr>)"
| ends: "win_step W c (c\<lparr>ended := True\<rparr>)"

definition fresh_win :: "winapi \<Rightarrow> int \<Rightarrow> win_world" where
  "fresh_win W pid =
     \<lparr>win = fst (win_set_pid W pid None new_win_waiter), win_callers = (\<lambda>_. NotCalled), win_pc = InWaitpid, ended = False\<rparr>"

definition win_stuck :: "winapi \<Rightarrow> win_world \<Rightarrow> bool" where
  "win_stuck W c \<longleftrightarrow> (\<forall>i r. win_callers c i = Got r \<longrightarrow> (\<exists>e. r = Inl e)) \<and>
     ((\<exists>e. get_exit_code W None = Inl e) \<longrightarrow> v_event (win c) \<noteq> Some True \<and> win_pc c \<noteq> WillSet)"

lemma win_wait_begin_fails:
  assumes "win_wait_begin W b x = (x', r)"
  shows "(\<forall>v. r = Some v \<longrightarrow> (\<exists>e. v = Inl e)) \<and> (v_event x \<noteq> Some True \<longrightarrow> v_event x' \<noteq> Some True)"
  using assms
  by (auto simp: win_wait_begin_def win_wait_pid_def win_unwrap_def split: if_splits option.splits sum.splits)

lemma win_step_stuck: "win_step W c c' \<Longrightarrow> win_stuck W c \<Longrightarrow> win_stuck W c'"
proof (induction rule: win_step.induct)
  case (call c i x r)
  then show ?case using win_wait_begin_fails [of W "ended c" "win c"] by (auto simp: win_stuck_def split: if_splits)
next
  case (wait c i x)
  then show ?case using win_wait_begin_fails [of W "ended c" "win c"] by (auto simp: win_stuck_def split: if_splits)
next
  case (thread c x p)
  then show ?case
    by (auto simp: win_stuck_def win_thread_def win_wait_pid_def split: if_splits option.splits sum.splits)
qed (auto simp: win_stuck_def win_unwrap_def)

text \<open>C29: on Windows \<open>wait()\<close> never returns a return code: however the process ends and the
  callers are timed, a caller that gets something gets an exception; and if
  \<open>GetExitCodeProcess\<close> rejects \<open>None\<close>, as it is documented to, the thread dies before it sets
  the event, and a caller that waits for the event waits for ever.\<close>

theorem windows_wait_never_returns:
  assumes "(win_step W)\<^sup>*\<^sup>* (fresh_win W pid) c"
  shows "(win_callers c i = Got r \<longrightarrow> (\<exists>e. r = Inl e)) \<and>
    (get_exit_code W None = Inl e \<and> win_callers c i = AwaitsEvent 0 \<longrightarrow> v_event (win c) \<noteq> Some True)"
proof -
  have "win_stuck W (fresh_win W pid)"
    by (simp add: win_stuck_def fresh_win_def win_set_pid_def new_win_waiter_def Let_def split: sum.split)
  with assms have "win_stuck W c" by (induction rule: rtranclp_induct) (auto intro: win_step_stuck)
  then show ?thesis unfolding win_stuck_def by blast
qed

text \<open>A system on which process 7 has the handle 70 and ends while a caller waits.\<close>

definition some_winapi :: winapi where
  "some_winapi = \<lparr>open_process = (\<lambda>p. Inr (10 * p)),
     get_exit_code = (\<lambda>h. case h of None \<Rightarrow> Inl TypeError | Some n \<Rightarrow> Inr 3)\<rparr>"

definition win_run :: win_world where
  "win_run =
     (let c = (fresh_win some_winapi 7)\<lparr>win := fst (win_wait_begin some_winapi False (win (fresh_win some_winapi 7))),
            win_callers := (\<lambda>_. NotCalled)(0 := AwaitsEvent 0)\<rparr>
      in c\<lparr>ended := True, win_pc := snd (the (win_thread some_winapi True (win c)))\<rparr>)"

theorem windows_wait_never_returns_witness:
  "win_callers win_run 0 = AwaitsEvent 0 \<and> win_pc win_run = Over \<and> v_event (win win_run) \<noteq> Some True"
proof -
  let ?W = some_winapi
  let ?a = "fresh_win ?W 7"
  let ?x = "fst (win_wait_begin ?W False (win ?a))"
  let ?b = "?a\<lparr>win := ?x, win_callers := (win_callers ?a)(0 := AwaitsEvent 0)\<rparr>"
  note ev = some_winapi_def fresh_win_def win_set_pid_def new_win_waiter_def win_wait_begin_def win_wait_pid_def win_thread_def
  have "win_step ?W ?a ?b" by (rule win_step.wait) (simp_all add: ev)
  moreover have "win_step ?W ?b (?b\<lparr>ended := True\<rparr>)" by (rule win_step.ends)
  moreover have "win_step ?W (?b\<lparr>ended := True\<rparr>) ((?b\<lparr>ended := True\<rparr>)\<lparr>win := ?x, win_pc := Over\<rparr>)"
    by (rule win_step.thread) (simp_all add: ev)
  ultimately have "(win_step ?W)\<^sup>*\<^sup>* ?a ((?b\<lparr>ended := True\<rparr>)\<lparr>win := ?x, win_pc := Over\<rparr>)" by simp
  moreover have "(?b\<lparr>ended := True\<rparr>)\<lparr>win := ?x, win_pc := Over\<rparr> = win_run"
    by (simp add: win_run_def Let_def) (simp add: ev)
  ultimately have "(win_step ?W)\<^sup>*\<^sup>* ?a win_run" by simp
  from windows_wait_never_returns [OF this, of 0 _ TypeError] show ?thesis
    by (simp add: win_run_def Let_def) (simp add: ev)
qed

end
