(* ===== verification/Aio_Util.thy ===== *)
theory Aio_Util
  imports Loop_State "HOL-Library.Sublist"
begin

text \<open>
  The functions of \<open>_util.py\<close> that wait across the two worlds, as step relations of the
  Trio task and the asyncio side: \<open>run_aio_future\<close> and \<open>run_aio_generator\<close>, and
  \<open>run_trio_generator\<close>, which waits from asyncio.
\<close>

section \<open>run_aio_future\<close>

datatype aio_pc = AioStart | AioWaiting | AioDone "exn + nat"

text \<open>
  The future, whether \<open>done_cb\<close> is registered on it or has been passed to \<open>call_soon\<close>,
  whether \<open>raise_cancel\<close> is set, the outcome given to \<open>reschedule\<close>, and where the task is.
\<close>

record aio_wait =
  a_future :: fstate
  a_registered :: bool
  a_scheduled :: bool
  a_raise_cancel :: bool
  a_outcome :: "(exn + nat) option"
  a_pc :: aio_pc

text \<open>A future that leaves the pending state schedules the callback.\<close>

definition settle :: "fstate \<Rightarrow> aio_wait \<Rightarrow> aio_wait" where
  "settle st s = s\<lparr>a_future := st, a_scheduled := a_scheduled s \<or> a_registered s, a_registered := False\<rparr>"

definition aio_begin :: "aio_wait \<Rightarrow> aio_wait" where
  "aio_begin s =
     (if a_future s = Pending then s\<lparr>a_registered := True, a_pc := AioWaiting\<rparr>
      else s\<lparr>a_scheduled := True, a_pc := AioWaiting\<rparr>)"

definition done_cb :: "aio_wait \<Rightarrow> aio_wait" where
  "done_cb s = s\<lparr>a_scheduled := False, a_outcome := Some (future_result (a_future s))\<rparr>"

text \<open>\<open>abort_cb\<close>, which always reports \<open>Abort.FAILED\<close>. \<open>future.cancel()\<close> cancels a plain
  future at once; a task (\<open>is_task\<close>) is only asked to end.\<close>

definition aio_abort :: "bool \<Rightarrow> aio_wait \<Rightarrow> aio_wait" where
  "aio_abort is_task s =
     (let s' = s\<lparr>a_raise_cancel := True\<rparr>
      in if a_future s' = Pending \<and> \<not> is_task then settle (FCancelled None) s' else s')"

text \<open>After the wait: \<open>return res\<close>, or the \<open>except\<close> branch.\<close>

definition aio_end :: "exn + nat \<Rightarrow> bool \<Rightarrow> exn + nat" where
  "aio_end outcome raise_cancel =
     (case outcome of
        Inr v \<Rightarrow> Inr v
      | Inl e \<Rightarrow> if e = CancelledError \<and> raise_cancel then Inl Cancelled else Inl e)"

text \<open>Trio aborts a wait at most once, and only while the task has not been rescheduled.\<close>

inductive aio_step :: "aio_wait \<Rightarrow> aio_wait \<Rightarrow> bool" where
  enter: "a_pc s = AioStart \<Longrightarrow> aio_step s (aio_begin s)"
| resolve: "a_future s = Pending \<Longrightarrow> st \<noteq> Pending \<Longrightarrow> aio_step s (settle st s)"
| callback: "a_scheduled s \<Longrightarrow> aio_step s (done_cb s)"
| abort: "a_pc s = AioWaiting \<Longrightarrow> a_outcome s = None \<Longrightarrow> \<not> a_raise_cancel s \<Longrightarrow> aio_step s (aio_abort t s)"
| finish: "a_pc s = AioWaiting \<Longrightarrow> a_outcome s = Some r \<Longrightarrow>
    aio_step s (s\<lparr>a_pc := AioDone (aio_end r (a_raise_cancel s))\<rparr>)"

definition aio_call :: "fstate \<Rightarrow> aio_wait" where
  "aio_call st = \<lparr>a_future = st, a_registered = False, a_scheduled = False, a_raise_cancel = False,
     a_outcome = None, a_pc = AioStart\<rparr>"

definition aio_inv :: "aio_wait \<Rightarrow> bool" where
  "aio_inv s \<longleftrightarrow>
     (case a_pc s of
        AioStart \<Rightarrow> \<not> a_registered s \<and> \<not> a_scheduled s \<and> a_outcome s = None
      | AioWaiting \<Rightarrow>
          (if a_future s = Pending then a_registered s \<and> \<not> a_scheduled s \<and> a_outcome s = None
           else \<not> a_registered s \<and> (a_scheduled s \<longleftrightarrow> a_outcome s = None) \<and>
             (\<forall>r. a_outcome s = Some r \<longrightarrow> r = future_result (a_future s)))
      | AioDone r \<Rightarrow> a_future s \<noteq> Pending \<and> \<not> a_scheduled s \<and>
          r = aio_end (future_result (a_future s)) (a_raise_cancel s))"

lemma aio_step_inv: "aio_step s s' \<Longrightarrow> aio_inv s \<Longrightarrow> aio_inv s'"
  by (induction rule: aio_step.induct)
    (auto simp: aio_inv_def aio_begin_def settle_def done_cb_def aio_abort_def Let_def
      split: aio_pc.splits if_splits)

lemma aio_steps_inv: "aio_step\<^sup>*\<^sup>* s s' \<Longrightarrow> aio_inv s \<Longrightarrow> aio_inv s'"
  by (induction rule: rtranclp_induct) (blast intro: aio_step_inv)+

lemma aio_call_inv: "aio_inv (aio_call st)"
  by (simp add: aio_inv_def aio_call_def)

text \<open>C30: \<open>run_aio_future\<close> ends only when its future is done, cancelled or not, and gives the
  future's result or raises its exception; a \<open>CancelledError\<close> becomes \<open>trio.Cancelled\<close>
  exactly if Trio cancelled the wait. A future that is done always has the task woken up: the
  callback is scheduled or has run.\<close>

theorem run_aio_future_correct:
  assumes "aio_step\<^sup>*\<^sup>* (aio_call st) s"
  shows "(\<forall>r. a_pc s = AioDone r \<longrightarrow> a_future s \<noteq> Pending \<and>
      r = (case future_result (a_future s) of
             Inr v \<Rightarrow> Inr v
           | Inl e \<Rightarrow> Inl (if e = CancelledError \<and> a_raise_cancel s then Cancelled else e))) \<and>
    (a_pc s = AioWaiting \<and> a_future s \<noteq> Pending \<longrightarrow> a_scheduled s \<or> a_outcome s \<noteq> None)"
  using aio_steps_inv [OF assms aio_call_inv]
  by (auto simp: aio_inv_def aio_end_def split: sum.splits)

text \<open>A run in which Trio cancels the wait for a plain future.\<close>

definition cancelled_wait :: aio_wait where
  "cancelled_wait =
     (let s = done_cb (aio_abort False (aio_begin (aio_call Pending)))
      in s\<lparr>a_pc := AioDone (aio_end (Inl CancelledError) (a_raise_cancel s))\<rparr>)"

lemma cancelled_wait_steps: "aio_step\<^sup>*\<^sup>* (aio_call Pending) cancelled_wait"
proof -
  let ?a = "aio_begin (aio_call Pending)"
  let ?b = "aio_abort False ?a"
  have "aio_step (aio_call Pending) ?a" by (rule aio_step.enter) code_simp
  moreover have "aio_step ?a ?b" by (rule aio_step.abort) (code_simp, code_simp, code_simp)
  moreover have "aio_step ?b (done_cb ?b)" by (rule aio_step.callback) code_simp
  moreover have "aio_step (done_cb ?b) cancelled_wait"
    unfolding cancelled_wait_def Let_def by (rule aio_step.finish) (code_simp, code_simp)
  ultimately show ?thesis by (blast intro: converse_rtranclp_into_rtranclp)
qed

theorem run_aio_future_correct_witness:
  "a_future cancelled_wait \<noteq> Pending \<and> a_pc cancelled_wait = AioDone (Inl Cancelled)"
proof -
  have "a_pc cancelled_wait = AioDone (Inl Cancelled)" by code_simp
  with run_aio_future_correct [OF cancelled_wait_steps] show ?thesis by simp
qed

section \<open>run_aio_generator\<close>

text \<open>What a call of \<open>__anext__\<close> comes to: an item, \<open>StopAsyncIteration\<close>,
  \<open>CancelledError\<close>, another \<open>Exception\<close>, or another \<open>BaseException\<close>.\<close>

datatype read_result = Item nat | Stop | ReadCancelled | ReadError exn | ReadExit exn

text \<open>
  \<open>consume_next\<close>: the outcome it passes to \<open>reschedule\<close> (\<open>Inr None\<close> is \<open>STOP\<close>), or
  \<open>None\<close> if it ends without calling it.
\<close>

fun consume_next :: "read_result \<Rightarrow> (exn + nat option) option" where
  "consume_next (Item v) = Some (Inr (Some v))"
| "consume_next Stop = Some (Inr None)"
| "consume_next ReadCancelled = None"
| "consume_next (ReadError e) = Some (Inl e)"
| "consume_next (ReadExit e) = None"

datatype gen_pc = GenTop | GenWaiting | GenYielded | GenEnded "exn option"

text \<open>
  What the iterator does on its next calls, whether the task of \<open>current_read\<close> runs,
  \<open>raise_cancel\<close>, the outcome given to \<open>reschedule\<close> for the current wait, where the
  generator is; then history: the items yielded, and whether \<open>reschedule\<close> was called for a
  task that was not waiting for it.
\<close>

record gen_state =
  g_results :: "read_result list"
  g_reading :: bool
  g_raise_cancel :: bool
  g_sent :: "(exn + nat option) option"
  g_pc :: gen_pc
  g_yielded :: "nat list"
  g_stray :: bool

definition start_read :: "gen_state \<Rightarrow> gen_state" where
  "start_read s = s\<lparr>g_reading := True, g_pc := GenWaiting\<rparr>"

definition finish_read :: "read_result \<Rightarrow> gen_state \<Rightarrow> gen_state" where
  "finish_read r s =
     (let s' = s\<lparr>g_results := tl (g_results s), g_reading := False\<rparr>
      in case consume_next r of
           None \<Rightarrow> s'
         | Some x \<Rightarrow> if g_pc s' = GenWaiting \<and> g_sent s' = None then s'\<lparr>g_sent := Some x\<rparr>
                     else s'\<lparr>g_stray := True\<rparr>)"

text \<open>\<open>abort_cb\<close> while a read exists: \<open>cancel()\<close> of a task that still runs returns \<open>True\<close>
  and the abort succeeds, so that the wait raises \<open>Cancelled\<close>; else it fails.\<close>

definition gen_abort :: "gen_state \<Rightarrow> gen_state" where
  "gen_abort s =
     (let s' = s\<lparr>g_raise_cancel := True\<rparr>
      in if g_reading s' then s'\<lparr>g_pc := GenEnded (Some Cancelled)\<rparr> else s')"

definition gen_resume :: "exn + nat option \<Rightarrow> gen_state \<Rightarrow> gen_state" where
  "gen_resume x s =
     (let s' = s\<lparr>g_sent := None\<rparr>
      in case x of
           Inr None \<Rightarrow> s'\<lparr>g_pc := GenEnded None\<rparr>
         | Inr (Some v) \<Rightarrow> s'\<lparr>g_pc := GenYielded, g_yielded := g_yielded s' @ [v]\<rparr>
         | Inl e \<Rightarrow> s'\<lparr>g_pc := GenEnded (Some (if e = CancelledError \<and> g_raise_cancel s' then Cancelled else e))\<rparr>)"

inductive gen_step :: "gen_state \<Rightarrow> gen_state \<Rightarrow> bool" where
  start: "g_pc s = GenTop \<Longrightarrow> gen_step s (start_read s)"
| read: "g_reading s \<Longrightarrow> g_results s = r # rs \<Longrightarrow> gen_step s (finish_read r s)"
| abort: "g_pc s = GenWaiting \<Longrightarrow> g_sent s = None \<Longrightarrow> \<not> g_raise_cancel s \<Longrightarrow> gen_step s (gen_abort s)"
| resume: "g_pc s = GenWaiting \<Longrightarrow> g_sent s = Some x \<Longrightarrow> gen_step s (gen_resume x s)"
| continue: "g_pc s = GenYielded \<Longrightarrow> gen_step s (s\<lparr>g_pc := GenTop\<rparr>)"
| close: "g_pc s = GenYielded \<Longrightarrow> gen_step s (s\<lparr>g_pc := GenEnded (Some GeneratorExit)\<rparr>)"

definition gen_call :: "read_result list \<Rightarrow> gen_state" where
  "gen_call rs = \<lparr>g_results = rs, g_reading = False, g_raise_cancel = False, g_sent = None, g_pc = GenTop,
     g_yielded = [], g_stray = False\<rparr>"

text \<open>How the iterator's results so far account for the items and the end.\<close>

definition gen_inv :: "read_result list \<Rightarrow> gen_state \<Rightarrow> bool" where
  "gen_inv rs s \<longleftrightarrow>
     (case g_pc s of
        GenWaiting \<Rightarrow>
          (case g_sent s of
             None \<Rightarrow> (if g_reading s then rs = map Item (g_yielded s) @ g_results s
                      else \<exists>r. rs = map Item (g_yielded s) @ r # g_results s \<and> consume_next r = None)
           | Some x \<Rightarrow> \<not> g_reading s \<and>
               (\<exists>r. rs = map Item (g_yielded s) @ r # g_results s \<and> consume_next r = Some x))
      | GenEnded None \<Rightarrow> \<exists>q. rs = map Item (g_yielded s) @ Stop # q
      | GenEnded (Some e) \<Rightarrow> prefix (map Item (g_yielded s)) rs \<and>
          (e = Cancelled \<and> g_raise_cancel s \<or> e = GeneratorExit \<or>
           (\<exists>q. rs = map Item (g_yielded s) @ ReadError e # q))
      | _ \<Rightarrow> g_sent s = None \<and> \<not> g_reading s \<and> rs = map Item (g_yielded s) @ g_results s)"

lemma consume_next_cases:
  "consume_next r = Some x \<Longrightarrow>
     (\<exists>v. r = Item v \<and> x = Inr (Some v)) \<or> r = Stop \<and> x = Inr None \<or> (\<exists>e. r = ReadError e \<and> x = Inl e)"
  by (cases r) auto

lemma gen_resume_inv:
  assumes "gen_inv rs s" and "g_pc s = GenWaiting" and "g_sent s = Some x"
  shows "gen_inv rs (gen_resume x s)"
proof -
  obtain r where r: "rs = map Item (g_yielded s) @ r # g_results s" "consume_next r = Some x" "\<not> g_reading s"
    using assms by (auto simp: gen_inv_def)
  from consume_next_cases [OF r(2)] show ?thesis
    using r by (auto simp: gen_inv_def gen_resume_def Let_def)
qed

lemma gen_step_inv: "gen_step s s' \<Longrightarrow> gen_inv rs s \<Longrightarrow> gen_inv rs s'"
proof (induction rule: gen_step.induct)
  case (start s)
  then show ?case by (simp add: gen_inv_def start_read_def)
next
  case (read s r rs')
  then show ?case
    by (cases r) (auto simp: gen_inv_def finish_read_def Let_def split: gen_pc.splits option.splits if_splits)
next
  case (abort s)
  then show ?case by (auto simp: gen_inv_def gen_abort_def Let_def split: if_splits)
next
  case (resume s x)
  then show ?case using gen_resume_inv by blast
qed (auto simp: gen_inv_def)

lemma gen_steps_inv: "gen_step\<^sup>*\<^sup>* s s' \<Longrightarrow> gen_inv rs s \<Longrightarrow> gen_inv rs s'"
  by (induction rule: rtranclp_induct) (blast intro: gen_step_inv)+

text \<open>C31: \<open>run_aio_generator\<close> passes the items on in order, none lost and none twice; it ends
  normally exactly when the iterator stops, and with an exception only if the iterator raised it,
  Trio cancelled the wait, or the consumer closed the generator.\<close>

theorem run_aio_generator_items:
  assumes "gen_step\<^sup>*\<^sup>* (gen_call rs) s"
  shows "prefix (map Item (g_yielded s)) rs \<and>
    (g_pc s = GenEnded None \<longrightarrow> prefix (map Item (g_yielded s) @ [Stop]) rs) \<and>
    (\<forall>e. g_pc s = GenEnded (Some e) \<longrightarrow> e = Cancelled \<and> g_raise_cancel s \<or> e = GeneratorExit \<or>
       prefix (map Item (g_yielded s) @ [ReadError e]) rs)"
proof -
  have "gen_inv rs (gen_call rs)" by (simp add: gen_inv_def gen_call_def)
  from gen_steps_inv [OF assms this] show ?thesis
    by (auto simp: gen_inv_def prefix_def split: gen_pc.splits option.splits if_splits)
qed

definition gen_run :: "gen_state" where
  "gen_run = gen_resume (Inr None) (finish_read Stop (start_read
     ((gen_resume (Inr (Some 4)) (finish_read (Item 4) (start_read (gen_call [Item 4, Stop]))))\<lparr>g_pc := GenTop\<rparr>)))"

lemma gen_run_steps: "gen_step\<^sup>*\<^sup>* (gen_call [Item 4, Stop]) gen_run"
proof -
  let ?a = "start_read (gen_call [Item 4, Stop])"
  let ?b = "finish_read (Item 4) ?a"
  let ?c = "gen_resume (Inr (Some 4)) ?b"
  let ?d = "?c\<lparr>g_pc := GenTop\<rparr>"
  let ?e = "start_read ?d"
  let ?f = "finish_read Stop ?e"
  have "gen_step (gen_call [Item 4, Stop]) ?a" by (rule gen_step.start) code_simp
  moreover have "gen_step ?a ?b" by (rule gen_step.read [where rs = "[Stop]"]) (code_simp, code_simp)
  moreover have "gen_step ?b ?c" by (rule gen_step.resume) (code_simp, code_simp)
  moreover have "gen_step ?c ?d" by (rule gen_step.continue) code_simp
  moreover have "gen_step ?d ?e" by (rule gen_step.start) code_simp
  moreover have "gen_step ?e ?f" by (rule gen_step.read [where rs = "[]"]) (code_simp, code_simp)
  moreover have "gen_step ?f gen_run"
    unfolding gen_run_def by (rule gen_step.resume) (code_simp, code_simp)
  ultimately show ?thesis by (blast intro: converse_rtranclp_into_rtranclp)
qed

theorem run_aio_generator_items_witness: "prefix (map Item (g_yielded gen_run) @ [Stop]) [Item 4, Stop]"
proof -
  have "g_pc gen_run = GenEnded None" by code_simp
  with run_aio_generator_items [OF gen_run_steps] show ?thesis by blast
qed

definition gen_hung :: "gen_state \<Rightarrow> bool" where
  "gen_hung s \<longleftrightarrow> g_pc s = GenWaiting \<and> \<not> g_reading s \<and> g_sent s = None \<and> g_yielded s = []"

lemma gen_hung_step: "gen_step s s' \<Longrightarrow> gen_hung s \<Longrightarrow> gen_hung s'"
  by (auto simp: gen_hung_def gen_abort_def Let_def elim!: gen_step.cases)

text \<open>C32: a spontaneous \<open>CancelledError\<close> (or a \<open>BaseException\<close>) of the iterator hangs the
  generator for good: \<open>consume_next\<close> ends without \<open>reschedule\<close>, and from then on no
  step, cancellation by Trio included, ever takes it out of its wait.\<close>

theorem run_aio_generator_hangs:
  assumes "consume_next r = None"
    and "gen_step\<^sup>*\<^sup>* (finish_read r (start_read (gen_call (r # rs)))) s"
  shows "gen_step\<^sup>*\<^sup>* (gen_call (r # rs)) s \<and> g_pc s = GenWaiting \<and> g_yielded s = []"
proof -
  have "gen_step (gen_call (r # rs)) (start_read (gen_call (r # rs)))"
    by (rule gen_step.start) (simp add: gen_call_def)
  moreover have "gen_step (start_read (gen_call (r # rs))) (finish_read r (start_read (gen_call (r # rs))))"
    by (rule gen_step.read [where rs = rs]) (simp_all add: gen_call_def start_read_def)
  ultimately have "gen_step\<^sup>*\<^sup>* (gen_call (r # rs)) s"
    using assms(2) by (blast intro: converse_rtranclp_into_rtranclp)
  moreover have "gen_hung (finish_read r (start_read (gen_call (r # rs))))"
    using assms(1) by (simp add: gen_hung_def finish_read_def start_read_def gen_call_def Let_def)
  with assms(2) have "gen_hung s"
    by (induction rule: rtranclp_induct) (blast intro: gen_hung_step)+
  ultimately show ?thesis by (simp add: gen_hung_def)
qed

theorem run_aio_generator_hangs_witness:
  "g_pc (gen_abort (finish_read ReadCancelled (start_read (gen_call [ReadCancelled, Item 1])))) = GenWaiting"
proof -
  let ?s = "finish_read ReadCancelled (start_read (gen_call [ReadCancelled, Item 1]))"
  have "gen_step ?s (gen_abort ?s)" by (rule gen_step.abort) (code_simp, code_simp, code_simp)
  then have "gen_step\<^sup>*\<^sup>* ?s (gen_abort ?s)" by blast
  from run_aio_generator_hangs [OF _ this] show ?thesis by simp
qed

text \<open>A cancelled read may still reschedule: the abort is reported as a success as soon as
  \<open>cancel()\<close> was requested, so an iterator that goes on regardless has \<open>consume_next\<close>
  reschedule a task that is not waiting any more.\<close>

lemma cancelled_read_reschedules:
  "\<exists>s. gen_step\<^sup>*\<^sup>* (gen_call [Item 4]) s \<and> g_pc s = GenEnded (Some Cancelled) \<and> g_stray s"
proof -
  let ?a = "start_read (gen_call [Item 4])"
  let ?b = "gen_abort ?a"
  let ?c = "finish_read (Item 4) ?b"
  have "gen_step (gen_call [Item 4]) ?a" by (rule gen_step.start) code_simp
  moreover have "gen_step ?a ?b" by (rule gen_step.abort) (code_simp, code_simp, code_simp)
  moreover have "gen_step ?b ?c" by (rule gen_step.read [where rs = "[]"]) (code_simp, code_simp)
  ultimately have "gen_step\<^sup>*\<^sup>* (gen_call [Item 4]) ?c" by (blast intro: converse_rtranclp_into_rtranclp)
  moreover have "g_pc ?c = GenEnded (Some Cancelled)" "g_stray ?c" by (code_simp, code_simp)
  ultimately show ?thesis by blast
qed

section \<open>run_trio_generator\<close>

text \<open>
  The asyncio generator over a Trio iterator: it awaits \<open>trio_as_future(__anext__)\<close> for each
  item. The items it yields for the outcomes of those awaits, and how it ends: \<open>None\<close> while
  more outcomes are needed.
\<close>

fun run_trio_generator :: "(exn + nat) list \<Rightarrow> nat list \<times> (exn + unit) option" where
  "run_trio_generator [] = ([], None)"
| "run_trio_generator (Inr v # rs) =
     (case run_trio_generator rs of (vs, r) \<Rightarrow> (v # vs, r))"
| "run_trio_generator (Inl e # rs) =
     (if e = StopAsyncIteration then ([], Some (Inr ())) else ([], Some (Inl e)))"

lemma run_trio_generator_items:
  "run_trio_generator (map Inr vs @ Inl e # rs) =
     (vs, Some (if e = StopAsyncIteration then Inr () else Inl e))"
  by (induction vs) auto

end
