(* ===== verification/Sync_Loop.thy ===== *)
theory Sync_Loop
  imports Loop_Start
begin

text \<open>
  \<open>SyncTrioEventLoop\<close> (\<open>_sync.py\<close>): a loop whose Trio run lives in a greenlet of its own.
  A request from outside switches to that greenlet, runs there and switches back; between
  requests the Trio run is frozen. The class's methods meet the contract of the base class, so
  everything proved for the main loop holds for the sync loop.
\<close>

section \<open>The state\<close>

text \<open>
  \<open>_glet\<close>: \<open>None\<close>, a greenlet that can be switched to, or one that has ended.
  \<open>in_glet\<close> tells whether \<open>greenlet.getcurrent()\<close> is \<open>_glet\<close>, \<open>aio_running\<close> whether
  asyncio has a running loop in the current thread; the \<open>current_loop\<close> of the loop's task is
  set and reset together with it. \<open>run_results\<close> holds the local \<open>result\<close> of each call of
  \<open>_run_coroutine\<close>.
\<close>

datatype glet_state = NoGlet | Alive | Dead

record 'q sync_loop = "'q loop" +
  glet :: glet_state
  in_glet :: bool
  loop_running :: bool
  aio_running :: bool
  stop_pending :: bool
  run_results :: "nat \<Rightarrow> (exn + nat) option"
  next_run :: nat

section \<open>Requests\<close>

text \<open>The tests of \<open>__run_in_greenlet\<close>: whether to switch, or (\<open>False\<close>) to call the
  function directly, which only a \<open>_sync\<close> request may when the greenlet is gone. A switch to
  the greenlet that is running returns its argument, a tuple that cannot be unwrapped.\<close>

definition glet_ready :: "bool \<Rightarrow> (('q, 'z) sync_loop_scheme, bool) py" where
  "glet_ready is_sync =
     py_bind check_closed (\<lambda>_ s.
       if loop_running s then
         py_raise (RuntimeError ''You can't nest calls to run_until_complete()/run_forever().'') s
       else if aio_running s then
         py_raise (RuntimeError ''Cannot run the event loop while another loop is running'') s
       else if glet s \<noteq> Alive then
         (if is_sync then py_return False s
          else py_raise (RuntimeError ''The Trio greenlet is not running'') s)
       else if in_glet s then py_raise AttributeError s
       else py_return True s)"

text \<open>What \<open>__trio_main\<close> does around the function of a request.\<close>

definition enter_glet :: "('q, 'z) sync_loop_scheme \<Rightarrow> ('q, 'z) sync_loop_scheme" where
  "enter_glet s = s\<lparr>in_glet := True, loop_running := True, aio_running := True\<rparr>"

definition leave_glet :: "('q, 'z) sync_loop_scheme \<Rightarrow> ('q, 'z) sync_loop_scheme" where
  "leave_glet s = s\<lparr>aio_running := False, loop_running := False, in_glet := False\<rparr>"

fun main_cancelled :: "exn + 'a \<Rightarrow> exn + 'a" where
  "main_cancelled (Inl e) = Inl (if is_Cancelled e then RuntimeError ''Main loop cancelled'' else e)"
| "main_cancelled (Inr x) = Inr x"

text \<open>\<open>__run_in_greenlet(_sync, f)\<close>; a \<open>_sync\<close> request does not suspend.\<close>

definition run_in_greenlet ::
  "(('q, 'z) sync_loop_scheme, 'a) py \<Rightarrow> (('q, 'z) sync_loop_scheme, 'a) py" where
  "run_in_greenlet f =
     py_bind (glet_ready True) (\<lambda>switch s.
       if switch then
         (case f (enter_glet s) of (s', r) \<Rightarrow> (leave_glet s', main_cancelled r))
       else f s)"

text \<open>\<open>self._glet is not greenlet.getcurrent() and self._token is not None\<close>\<close>

definition via_greenlet ::
  "(('q, 'z) sync_loop_scheme, 'a) py \<Rightarrow> (('q, 'z) sync_loop_scheme, 'a) py" where
  "via_greenlet f s = (if \<not> in_glet s \<and> token s then run_in_greenlet f s else f s)"

section \<open>The methods\<close>

definition send_handle :: "'q channel_ops \<Rightarrow> hid \<Rightarrow> (('q, 'z) loop_scheme, unit) py" where
  "send_handle C h s =
     (case send_nowait C (queue s) h of
        None \<Rightarrow> py_raise WouldBlock s
      | Some q \<Rightarrow> py_return () (s\<lparr>queue := q\<rparr>))"

definition queue_handle_sync :: "'q channel_ops \<Rightarrow> hid \<Rightarrow> (('q, 'z) sync_loop_scheme, unit) py" where
  "queue_handle_sync C h = py_bind check_closed (\<lambda>_. via_greenlet (send_handle C h))"

definition trio_io_cancel_sync :: "hid \<Rightarrow> (('q, 'z) sync_loop_scheme, unit) py" where
  "trio_io_cancel_sync h = via_greenlet (trio_io_cancel h)"

text \<open>\<open>stop()\<close>, which takes no argument, and its \<open>do_stop\<close>.\<close>

definition stop_sync :: "'q channel_ops \<Rightarrow> eid option \<Rightarrow> (('q, 'z) sync_loop_scheme, unit) py" where
  "stop_sync C waiter s =
     (if waiter \<noteq> None then py_raise TypeError s
      else if loop_running s \<and> \<not> stop_pending s then
        discard (queue_new (queue_handle_sync C) PlainHandle DoStop) (s\<lparr>stop_pending := True\<rparr>)
      else py_return () s)"

definition do_stop :: "(('q, 'z) sync_loop_scheme, unit) py" where
  "do_stop s = py_raise TrioAsyncioExit (s\<lparr>stop_pending := False\<rparr>)"

text \<open>\<open>is_done\<close> of the \<open>n\<close>-th call of \<open>_run_coroutine\<close>.\<close>

definition is_done :: "'q channel_ops \<Rightarrow> fid \<Rightarrow> nat \<Rightarrow> (('q, 'z) sync_loop_scheme, unit) py" where
  "is_done C f n s =
     (let r = future_result (fstate (futures s f));
          s' = s\<lparr>run_results := (run_results s)(n := Some r)\<rparr>
      in case r of
           Inl e \<Rightarrow> if is_exit e then py_return () s' else stop_sync C None s'
         | Inr _ \<Rightarrow> stop_sync C None s')"

text \<open>The readers and writers: nothing is returned.\<close>

definition add_reader_sync :: "fd \<Rightarrow> callback \<Rightarrow> (('q, 'z) sync_loop_scheme, unit) py" where
  "add_reader_sync fd cb = discard (via_greenlet (add_reader_impl trio_io_cancel_sync fd cb))"

definition add_writer_sync :: "fd \<Rightarrow> callback \<Rightarrow> (('q, 'z) sync_loop_scheme, unit) py" where
  "add_writer_sync fd cb = discard (via_greenlet (add_writer_impl trio_io_cancel_sync fd cb))"

text \<open>asyncio's exception handler only logs.\<close>

definition sync_methods :: "'q channel_ops \<Rightarrow> ('q, 'z) sync_loop_scheme methods" where
  "sync_methods C =
     \<lparr>m_queue_handle = queue_handle_sync C,
      m_stop = stop_sync C,
      m_do_stop = do_stop,
      m_is_done = is_done C,
      m_io_cancel = trio_io_cancel_sync,
      m_add_reader = (\<lambda>fd cb. py_bind (add_reader_sync fd cb) (\<lambda>_. py_return None)),
      m_add_writer = (\<lambda>fd cb. py_bind (add_writer_sync fd cb) (\<lambda>_. py_return None)),
      m_default_exception_handler = (\<lambda>_. py_return ())\<rparr>"

lemma sync_methods_simps [simp]:
  "m_queue_handle (sync_methods C) = queue_handle_sync C"
  "m_stop (sync_methods C) = stop_sync C"
  "m_do_stop (sync_methods C) = do_stop"
  "m_is_done (sync_methods C) = is_done C"
  "m_io_cancel (sync_methods C) = trio_io_cancel_sync"
  "m_add_reader (sync_methods C) = (\<lambda>fd cb. py_bind (add_reader_sync fd cb) (\<lambda>_. py_return None))"
  "m_add_writer (sync_methods C) = (\<lambda>fd cb. py_bind (add_writer_sync fd cb) (\<lambda>_. py_return None))"
  "m_default_exception_handler (sync_methods C) = (\<lambda>_. py_return ())"
  by (simp_all add: sync_methods_def)

definition is_running_sync :: "('q, 'z) sync_loop_scheme \<Rightarrow> bool" where
  "is_running_sync s \<longleftrightarrow> \<not> closed_flag s \<and> loop_running s"

section \<open>Starting and running\<close>

text \<open>\<open>__init__\<close>: the greenlet is started at once and enters the loop.\<close>

definition sync_init ::
  "(nat \<Rightarrow> nat \<Rightarrow> trace) \<Rightarrow> 'q channel_ops \<Rightarrow> 'q \<Rightarrow> fd \<Rightarrow> instant \<Rightarrow> string option \<Rightarrow> hooks_state \<Rightarrow>
   'q sync_loop \<times> (exn + unit)" where
  "sync_init prog C q ssock now library hooks =
     py_bind (add_reader_sync ssock read_from_self) (\<lambda>_ s.
       case main_loop_init s of
         (s', Inl e) \<Rightarrow> py_raise e (s'\<lparr>glet := Dead\<rparr>)
       | (s', Inr _) \<Rightarrow> py_return () (s'\<lparr>glet := Alive\<rparr>))
     (loop.extend (bare_loop prog q now library hooks)
       (sync_loop.fields NoGlet False False False False (\<lambda>_. None) 0))"

text \<open>\<open>run_forever\<close>: from the call to the first test of \<open>_main_loop\<close>, and from the end of
  \<open>_main_loop\<close>, with the exception that left it, to what the caller gets.\<close>

definition run_forever_begin :: "(('q, 'z) sync_loop_scheme, unit) py" where
  "run_forever_begin =
     py_bind (glet_ready False) (\<lambda>_ s. py_return () (fst (main_loop_start (enter_glet s))))"

definition run_forever_end ::
  "exn option \<Rightarrow> ('q, 'z) sync_loop_scheme \<Rightarrow> ('q, 'z) sync_loop_scheme \<times> (exn + unit)" where
  "run_forever_end e s =
     (leave_glet s, main_cancelled (case e of None \<Rightarrow> Inr () | Some x \<Rightarrow> Inl x))"

text \<open>\<open>run_until_complete\<close> of a future \<open>f\<close>: \<open>_run_coroutine\<close> registers \<open>is_done\<close> and starts
  the main loop; the number of the call is returned.\<close>

definition run_until_complete_begin ::
  "'q channel_ops \<Rightarrow> fid \<Rightarrow> (('q, 'z) sync_loop_scheme, nat) py" where
  "run_until_complete_begin C f =
     py_bind (glet_ready False) (\<lambda>_ s.
       (let n = next_run s;
            s1 = (enter_glet s)\<lparr>run_results := (run_results s)(n := None), next_run := Suc n\<rparr>
        in case add_done_callback (sync_methods C) f (IsDone f n) s1 of
             (s2, Inl e) \<Rightarrow> (leave_glet s2, main_cancelled (Inl e))
           | (s2, Inr _) \<Rightarrow> py_return n (fst (main_loop_start s2))))"

text \<open>The loop after \<open>_main_loop\<close>: \<open>None\<close> if it does not end. \<open>others i\<close> is what happens
  around it after the \<open>i\<close>-th iteration, as for \<open>drain\<close>.\<close>

partial_function (option) drain_until ::
  "'q channel_ops \<Rightarrow> (nat \<Rightarrow> ('q, 'z) sync_loop_scheme \<Rightarrow> ('q, 'z) sync_loop_scheme) \<Rightarrow> nat \<Rightarrow> nat \<Rightarrow>
   ('q, 'z) sync_loop_scheme \<Rightarrow> (('q, 'z) sync_loop_scheme \<times> (exn + unit)) option" where
  "drain_until C others i n s =
     (if run_results s n \<noteq> None then Some (s, Inr ())
      else case main_loop_one_nowait C (sync_methods C) s of
        (s', Inr _) \<Rightarrow> drain_until C others (Suc i) n (others i s')
      | (s', Inl e) \<Rightarrow>
          if e = WouldBlock then Some (s', Inr ())
          else if e = TrioAsyncioExit then drain_until C others (Suc i) n (others i s')
          else Some (s', Inl e))"

definition remove_done_callback :: "fid \<Rightarrow> callback \<Rightarrow> ('q, 'z) loop_scheme \<Rightarrow> ('q, 'z) loop_scheme" where
  "remove_done_callback f cb = upd_future f (\<lambda>x. x\<lparr>fcallbacks := removeAll cb (fcallbacks x)\<rparr>)"

definition run_until_complete_end ::
  "'q channel_ops \<Rightarrow> (nat \<Rightarrow> ('q, 'z) sync_loop_scheme \<Rightarrow> ('q, 'z) sync_loop_scheme) \<Rightarrow> fid \<Rightarrow> nat \<Rightarrow> exn option \<Rightarrow> ('q, 'z) sync_loop_scheme \<Rightarrow>
   (('q, 'z) sync_loop_scheme \<times> (exn + nat)) option" where
  "run_until_complete_end C others f n e s =
     map_option (\<lambda>(s', r).
         (leave_glet (remove_done_callback f (IsDone f n) s'), main_cancelled
           (case r of
              Inl x \<Rightarrow> Inl x
            | Inr _ \<Rightarrow>
                (case run_results s' n of
                   None \<Rightarrow> Inl (RuntimeError ''Event loop stopped before Future completed.'')
                 | Some v \<Rightarrow> v))))
       (case e of Some x \<Rightarrow> Some (s, Inl x) | None \<Rightarrow> drain_until C others 0 n s)"

section \<open>Closing\<close>

text \<open>\<open>_close\<close>: the greenlet is switched to with \<open>None\<close>, leaves its loop and runs
  \<open>_main_loop_exit\<close>, where \<open>stop()\<close> does nothing and \<open>_stopped\<close> is set. \<open>None\<close> if that
  does not return; an exception of it ends the greenlet and is raised in the parent.\<close>

definition close_hook_sync ::
  "'q channel_ops \<Rightarrow> (nat \<Rightarrow> ('q, 'z) sync_loop_scheme \<Rightarrow> ('q, 'z) sync_loop_scheme) \<Rightarrow> ('q, 'z) sync_loop_scheme \<Rightarrow> (('q, 'z) sync_loop_scheme \<times> (exn + unit)) option" where
  "close_hook_sync C others s =
     (case glet s of
        NoGlet \<Rightarrow> Some (s, Inr ())
      | g \<Rightarrow>
          if in_glet s then
            Some (s, Inl (RuntimeError ''You can't close a sync loop from the inside''))
          else if g = Dead then Some (s\<lparr>glet := NoGlet\<rparr>, Inr ())
          else map_option (\<lambda>(s', r). case r of
                   Inl e \<Rightarrow> (s'\<lparr>in_glet := False, glet := Dead\<rparr>, Inl e)
                 | Inr _ \<Rightarrow> (s'\<lparr>in_glet := False, glet := NoGlet\<rparr>, Inr ()))
             (main_loop_exit C (sync_methods C) (\<lambda>s. s) others (s\<lparr>in_glet := True\<rparr>)))"

text \<open>\<open>close\<close> of the base class and \<open>__exit__\<close>.\<close>

definition close_sync ::
  "'q channel_ops \<Rightarrow> (nat \<Rightarrow> ('q, 'z) sync_loop_scheme \<Rightarrow> ('q, 'z) sync_loop_scheme) \<Rightarrow> ('q, 'z) sync_loop_scheme \<Rightarrow> (('q, 'z) sync_loop_scheme \<times> (exn + unit)) option" where
  "close_sync C others s =
     (if closed_flag s then Some (s, Inr ())
      else map_option (\<lambda>(s', r). case r of
               Inl e \<Rightarrow> (s', Inl e)
             | Inr _ \<Rightarrow>
                 if is_running_sync s' then (s', Inl (RuntimeError ''Cannot close a running event loop''))
                 else (s'\<lparr>closed_flag := True\<rparr>, Inr ()))
           (close_hook_sync C others s))"

definition exit_sync ::
  "'q channel_ops \<Rightarrow> (nat \<Rightarrow> ('q, 'z) sync_loop_scheme \<Rightarrow> ('q, 'z) sync_loop_scheme) \<Rightarrow> ('q, 'z) sync_loop_scheme \<Rightarrow> (('q, 'z) sync_loop_scheme \<times> (exn + unit)) option" where
  "exit_sync C others s =
     (case stop_sync C None s of
        (s1, Inl e) \<Rightarrow> Some (s1, Inl e)
      | (s1, Inr _) \<Rightarrow>
          map_option (\<lambda>(s2, r). case r of
              Inl e \<Rightarrow> (s2, Inl e)
            | Inr _ \<Rightarrow> if glet s2 = NoGlet then (s2, Inr ()) else (s2, Inl AssertionError))
            (close_sync C others s1))"

end
