(* ===== verification/Sync_Contract.thy ===== *)
theory Sync_Contract
  imports Sync_Loop
begin

text \<open>
  The sync loop meets the contract of the base class, costs included, for every channel with
  Trio's laws; what entering and leaving the greenlet keeps of the loop's invariant.
\<close>

section \<open>What the methods keep of the class's own fields\<close>

text \<open>The flags change only when a request begins or ends; a result, once there, stays.\<close>

definition sync_kept :: "('q, 'z) sync_loop_scheme \<Rightarrow> ('q, 'z) sync_loop_scheme \<Rightarrow> bool" where
  "sync_kept s s' \<longleftrightarrow> glet s' = glet s \<and> in_glet s' = in_glet s \<and> loop_running s' = loop_running s \<and>
     aio_running s' = aio_running s \<and> next_run s' = next_run s \<and>
     (\<forall>n. run_results s n \<noteq> None \<longrightarrow> run_results s' n \<noteq> None)"

definition sync_ext :: "'z sync_loop_ext \<Rightarrow> 'z sync_loop_ext \<Rightarrow> bool" where
  "sync_ext x x' \<longleftrightarrow> (\<exists>(s :: (unit, 'z) sync_loop_scheme) s'. loop.more s = x \<and> loop.more s' = x' \<and> sync_kept s s')"

lemma more_fields:
  "loop.more s = loop.more t \<Longrightarrow> glet s = glet t \<and> in_glet s = in_glet t \<and> loop_running s = loop_running t \<and>
     aio_running s = aio_running t \<and> next_run s = next_run t \<and> run_results s = run_results t"
  by (cases s; cases t) simp

lemma sync_ext_iff:
  fixes s s' :: "('q, 'z) sync_loop_scheme"
  shows "sync_ext (loop.more s) (loop.more s') \<longleftrightarrow> sync_kept s s'"
proof
  assume "sync_ext (loop.more s) (loop.more s')"
  then obtain t t' :: "(unit, 'z) sync_loop_scheme" where
    "loop.more t = loop.more s" "loop.more t' = loop.more s'" "sync_kept t t'" by (auto simp: sync_ext_def)
  with more_fields [of t s] more_fields [of t' s'] show "sync_kept s s'" by (simp add: sync_kept_def)
next
  assume k: "sync_kept s s'"
  let ?b = "bare_loop no_program () 0 None trio_hooks" 
  let ?t = "loop.extend ?b (loop.more s)" and ?t' = "loop.extend ?b (loop.more s')"
  have "loop.more ?t = loop.more s" "loop.more ?t' = loop.more s'" by (simp_all add: loop.defs)
  moreover from more_fields [OF this(1)] more_fields [OF this(2)] k have "sync_kept ?t ?t'"
    by (simp add: sync_kept_def)
  ultimately show "sync_ext (loop.more s) (loop.more s')" unfolding sync_ext_def by blast
qed

lemma sync_ext_trans: "sync_ext\<^sup>*\<^sup>* x x' \<longleftrightarrow> sync_ext x x'"
proof
  have kept: "sync_kept s s" "sync_kept s t \<Longrightarrow> sync_kept t u \<Longrightarrow> sync_kept s u" for s t u :: "(unit, 'a) sync_loop_scheme"
    by (auto simp: sync_kept_def)
  let ?r = "\<lambda>x :: 'a sync_loop_ext. loop.extend (bare_loop no_program () 0 None trio_hooks) x"
  have r: "loop.more (?r x) = x" for x by (simp add: loop.defs)
  have iff: "sync_ext x y \<longleftrightarrow> sync_kept (?r x) (?r y)" for x y
    using sync_ext_iff [of "?r x" "?r y"] by (simp add: r)
  assume "sync_ext\<^sup>*\<^sup>* x x'"
  then show "sync_ext x x'" by (induction rule: rtranclp_induct) (auto simp: iff intro: kept)
qed simp

lemma sync_frame_kept: "api_frame sync_ext msgs cap s s' \<Longrightarrow> sync_kept s s'"
  using api_frame_more [of sync_ext msgs cap s s'] by (simp add: sync_ext_trans sync_ext_iff)

lemma sync_frameI:
  assumes "core s' = core s" "io_core s' = io_core s" "queue s' = queue s" "next_hid s' = next_hid s" "next_fid s' = next_fid s"
    "handles s' = handles s" "futures s' = futures s" "sync_soon s' = sync_soon s" "stop_wait s' = stop_wait s"
    "sync_kept s s'"
  shows "api_frame sync_ext msgs cap s s'"
  using assms by (intro api_frameI) (simp_all add: sync_ext_trans sync_ext_iff)

section \<open>Switching\<close>

lemma glet_ready_same: "glet_ready b s = (s', r) \<Longrightarrow> s' = s"
  by (auto simp: glet_ready_def py_bind_def check_closed_def split: if_splits)

lemma glet_ready_True: "glet_ready b s = (s', Inr True) \<Longrightarrow>
   \<not> closed_flag s \<and> \<not> loop_running s \<and> \<not> aio_running s \<and> \<not> in_glet s \<and> glet s = Alive"
  by (auto simp: glet_ready_def py_bind_def check_closed_def split: if_splits)

lemma glet_ready_not_sync: "glet_ready False s = (s', Inr b) \<Longrightarrow> b"
  by (auto simp: glet_ready_def py_bind_def check_closed_def split: if_splits)

lemma enter_leave_restores:
  "\<not> loop_running s \<Longrightarrow> \<not> aio_running s \<Longrightarrow> \<not> in_glet s \<Longrightarrow> leave_glet (enter_glet s) = s"
  by (simp add: leave_glet_def enter_glet_def)

text \<open>A request fails before it reaches its function, or is the function, run directly or
  between \<open>enter_glet\<close> and \<open>leave_glet\<close>.\<close>

lemma via_greenlet_cases:
  assumes "via_greenlet f s = (s', r)"
  obtains (refused) e where "r = Inl e" "s' = s"
  | (direct) "f s = (s', r)"
  | (switched) t q where "\<not> loop_running s" "\<not> aio_running s" "\<not> in_glet s"
      "f (enter_glet s) = (t, q)" "s' = leave_glet t" "r = main_cancelled q"
proof (cases "\<not> in_glet s \<and> token s")
  case False
  then show ?thesis using assms by (intro direct) (auto simp: via_greenlet_def)
next
  case True
  obtain s1 g where g: "glet_ready True s = (s1, g)" by fastforce
  then have s1: "s1 = s" by (rule glet_ready_same)
  obtain t q where f: "f (enter_glet s) = (t, q)" by fastforce
  have a: "(case g of Inl e \<Rightarrow> (s, Inl e)
      | Inr b \<Rightarrow> if b then (leave_glet t, main_cancelled q) else f s) = (s', r)"
    using assms True g s1 f by (cases g) (simp_all add: via_greenlet_def run_in_greenlet_def py_bind_def split: if_splits)
  show ?thesis
  proof (cases g)
    case (Inl e)
    then show ?thesis using a by (intro refused) auto
  next
    case (Inr b)
    show ?thesis
    proof (cases b)
      case True
      then show ?thesis using switched [OF _ _ _ f] a Inr f g glet_ready_True [of True s s1] by simp
    next
      case False
      then show ?thesis using direct a Inr by simp
    qed
  qed
qed

lemma frame_switch:
  assumes "\<not> loop_running s" "\<not> aio_running s" "\<not> in_glet s" and f: "api_frame sync_ext msgs cap (enter_glet s) t"
  shows "api_frame sync_ext msgs cap s (leave_glet t)"
proof -
  have "sync_kept s (leave_glet t)"
    using sync_frame_kept [OF f] assms(1-3) by (simp add: sync_kept_def enter_glet_def leave_glet_def)
  moreover have "io_frame s (leave_glet t)"
    using api_frame_io [OF f]
    by (simp add: io_frame_def io_inv_def enter_glet_def leave_glet_def)
  ultimately show ?thesis
    using api_frame_pre [OF f] fut_frame_trans [OF _ fut_frame_trans [OF api_frame_fut [OF f]], of s "leave_glet t"]
    by (simp add: api_frame_def pre_frame_def sync_ext_trans sync_ext_iff core_def keeps_stop_wait_def enter_glet_def leave_glet_def)
qed

lemma work_switch: "work rk msgs (enter_glet s) = work rk msgs s" "work rk msgs (leave_glet s) = work rk msgs s"
  "bounded msgs (enter_glet s) = bounded msgs s" "bounded msgs (leave_glet s) = bounded msgs s"
  "waiting_futures (leave_glet s) = waiting_futures s" "waiting_futures (enter_glet s) = waiting_futures s"
  "ranked rk (enter_glet s) = ranked rk s" "ranked rk (leave_glet s) = ranked rk s"
  by (simp_all add: work_def queue_work_def timer_work_def future_work_def bounded_def waiting_futures_def ranked_def
      enter_glet_def leave_glet_def)

lemma via_greenlet_cost:
  assumes "\<And>s. costs rk sync_ext msgs cap k s (fst (f s))"
  shows "costs rk sync_ext msgs cap k s (fst (via_greenlet f s))"
proof -
  obtain s' r where v: "via_greenlet f s = (s', r)" by fastforce
  then have "costs rk sync_ext msgs cap k s s'"
  proof (cases rule: via_greenlet_cases)
    case direct
    then show ?thesis using assms [of s] by simp
  next
    case (switched t q)
    then show ?thesis
      using assms [of "enter_glet s"] frame_switch [OF switched(1-3)] by (simp add: costs_def work_switch)
  qed simp
  then show ?thesis by (simp add: v)
qed

section \<open>The contract\<close>

lemma costs_stop_pending: "costs rk sync_ext msgs cap 0 s (s\<lparr>stop_pending := b\<rparr>)"
  by (rule costs_same [OF sync_frameI]) (simp_all add: core_def io_core_def sync_kept_def)

lemma costs_run_results: "costs rk sync_ext msgs cap 0 s (s\<lparr>run_results := (run_results s)(n := Some r)\<rparr>)"
  by (rule costs_same [OF sync_frameI]) (simp_all add: core_def io_core_def sync_kept_def)

context memory_channel
begin

lemma send_handle_cases:
  assumes "send_handle C h s = (s', r)"
  obtains e where "r = Inl e" "s' = s" "e = WouldBlock"
  | q where "r = Inr ()" "s' = s\<lparr>queue := q\<rparr>" "msgs q = msgs (queue s) @ [h]" "cap q = cap (queue s)"
  using assms by (auto simp: send_handle_def split: option.splits dest: send_msgs send_cap)

lemma via_send_cases:
  assumes "via_greenlet (send_handle C h) s = (s', r)"
  obtains e where "r = Inl e" "s' = s"
  | q where "r = Inr ()" "s' = s\<lparr>queue := q\<rparr>" "msgs q = msgs (queue s) @ [h]" "cap q = cap (queue s)"
  using assms
proof (cases rule: via_greenlet_cases)
  case (refused e)
  then show ?thesis using that(1) by blast
next
  case direct
  then show ?thesis by (cases rule: send_handle_cases) (use that in blast)+
next
  case (switched t q)
  note restore = enter_leave_restores [OF switched(1-3)]
  from switched(4) show ?thesis
  proof (cases rule: send_handle_cases)
    case (1 e)
    then show ?thesis using switched(5,6) restore that(1) by simp
  next
    case (2 p)
    have "leave_glet (enter_glet s\<lparr>queue := p\<rparr>) = (leave_glet (enter_glet s))\<lparr>queue := p\<rparr>"
      by (simp add: leave_glet_def enter_glet_def)
    moreover have "queue (enter_glet s) = queue s" by (simp add: enter_glet_def)
    ultimately show ?thesis using 2 switched(5,6) restore that(2) by simp
  qed
qed

lemma queue_handle_sync_cases:
  assumes "queue_handle_sync C h s = (s', r)"
  obtains e where "r = Inl e" "s' = s"
  | q where "r = Inr ()" "s' = s\<lparr>queue := q\<rparr>" "msgs q = msgs (queue s) @ [h]" "cap q = cap (queue s)"
proof (cases "closed_flag s")
  case True
  then show ?thesis using assms that(1) by (auto simp: queue_handle_sync_def py_bind_def check_closed_def)
next
  case False
  then have "via_greenlet (send_handle C h) s = (s', r)"
    using assms by (simp add: queue_handle_sync_def py_bind_def check_closed_def)
  then show ?thesis by (cases rule: via_send_cases) (use that in blast)+
qed

lemma queue_handle_sync_appends: "appends msgs cap (queue_handle_sync C)"
proof (rule appendsI)
  fix h e and s s' :: "('q, 'z) sync_loop_scheme"
  assume "queue_handle_sync C h s = (s', Inl e)"
  then show "s' = s" by (cases rule: queue_handle_sync_cases) simp_all
next
  fix h u and s s' :: "('q, 'z) sync_loop_scheme"
  assume "queue_handle_sync C h s = (s', Inr u)"
  then show "\<exists>q. s' = s\<lparr>queue := q\<rparr> \<and> msgs q = msgs (queue s) @ [h] \<and> cap q = cap (queue s)"
    by (cases rule: queue_handle_sync_cases) blast+
qed

lemma stop_sync_cost: "costs rk sync_ext msgs cap 3 s (fst (stop_sync C w s))"
proof -
  let ?s = "s\<lparr>stop_pending := True\<rparr>"
  have "costs rk sync_ext msgs cap (3 + cb_work rk DoStop) ?s (fst (queue_new (queue_handle_sync C) PlainHandle DoStop ?s))"
    by (rule appends_queue_new_cost [OF queue_handle_sync_appends]) simp
  then have "costs rk sync_ext msgs cap 3 ?s (fst (discard (queue_new (queue_handle_sync C) PlainHandle DoStop) ?s))"
    by (intro costs_discard) simp
  from costs_zero_trans [OF costs_stop_pending this] show ?thesis by (simp add: stop_sync_def)
qed

lemma do_stop_cost: "costs rk sync_ext msgs cap 0 s (fst (do_stop s))"
  by (simp add: do_stop_def costs_stop_pending)

lemma is_done_cost: "costs rk sync_ext msgs cap 3 s (fst (is_done C f n s))"
proof -
  have "costs rk sync_ext msgs cap 3 s (fst (stop_sync C None (s\<lparr>run_results := (run_results s)(n := Some r)\<rparr>)))" for r
    by (rule costs_zero_trans [OF costs_run_results stop_sync_cost])
  moreover have "costs rk sync_ext msgs cap 3 s (s\<lparr>run_results := (run_results s)(n := Some r)\<rparr>)" for r
    by (rule costs_mono [OF costs_run_results]) simp
  ultimately show ?thesis by (simp add: is_done_def Let_def split: sum.split)
qed

lemma io_cancel_sync_cost: "costs rk sync_ext msgs cap 0 s (fst (trio_io_cancel_sync h s))"
  unfolding trio_io_cancel_sync_def by (rule via_greenlet_cost) (rule costs_io_cancel)

lemma io_cancel_sync_cancels: "cancels sync_ext msgs cap trio_io_cancel_sync"
  unfolding cancels_def
proof (intro allI conjI)
  fix h and s :: "('q, 'z) sync_loop_scheme"
  show "api_frame sync_ext msgs cap s (fst (trio_io_cancel_sync h s))"
    by (rule costs_frame [OF io_cancel_sync_cost])
  obtain s' r where v: "via_greenlet (trio_io_cancel h) s = (s', r)" by fastforce
  then have "io_core s' = io_core s \<and> next_hid s' = next_hid s"
    by (cases rule: via_greenlet_cases)
      (auto simp: trio_io_cancel_def upd_handle_def io_core_def enter_glet_def leave_glet_def)
  then show "io_core (fst (trio_io_cancel_sync h s)) = io_core s" "next_hid (fst (trio_io_cancel_sync h s)) = next_hid s"
    by (simp_all add: trio_io_cancel_sync_def v)
qed

lemma add_reader_sync_cost: "costs rk sync_ext msgs cap 0 s (fst (add_reader_sync fd cb s))"
  unfolding add_reader_sync_def
  by (intro costs_discard via_greenlet_cost add_reader_impl_cost io_cancel_sync_cancels io_cancel_sync_cost)

lemma add_writer_sync_cost: "costs rk sync_ext msgs cap 0 s (fst (add_writer_sync fd cb s))"
  unfolding add_writer_sync_def
  by (intro costs_discard via_greenlet_cost add_writer_impl_cost io_cancel_sync_cancels io_cancel_sync_cost)

lemma add_sync_method_cost:
  "costs rk sync_ext msgs cap 0 s (fst (m_add_reader (sync_methods C) fd cb s))"
  "costs rk sync_ext msgs cap 0 s (fst (m_add_writer (sync_methods C) fd cb s))"
  by (auto intro!: costs_bind_last add_reader_sync_cost add_writer_sync_cost)

lemma sync_contract: "loop_methods C msgs cap sync_ext (sync_methods C)"
  by unfold_locales
    (simp_all add: queue_handle_sync_appends costs_frame [OF stop_sync_cost] costs_frame [OF do_stop_cost]
      costs_frame [OF is_done_cost] costs_frame [OF io_cancel_sync_cost]
      costs_frame [OF add_sync_method_cost(1), simplified] costs_frame [OF add_sync_method_cost(2), simplified])

lemma sync_cost_contract: "loop_methods_cost C msgs cap sync_ext (sync_methods C)"
proof (intro loop_methods_cost.intro sync_contract loop_methods_cost_axioms.intro)
  fix rk w and s :: "('q, 'z) sync_loop_scheme"
  show "costs rk sync_ext msgs cap 3 s (fst (m_stop (sync_methods C) w s))" by (simp add: stop_sync_cost)
next
  fix rk and s :: "('q, 'z) sync_loop_scheme"
  show "costs rk sync_ext msgs cap 0 s (fst (m_do_stop (sync_methods C) s))" by (simp add: do_stop_cost)
next
  fix rk f n and s :: "('q, 'z) sync_loop_scheme"
  show "costs rk sync_ext msgs cap 3 s (fst (m_is_done (sync_methods C) f n s))" by (simp add: is_done_cost)
next
  fix rk h and s :: "('q, 'z) sync_loop_scheme"
  show "costs rk sync_ext msgs cap 0 s (fst (m_io_cancel (sync_methods C) h s))" by (simp add: io_cancel_sync_cost)
next
  fix rk fd cb and s :: "('q, 'z) sync_loop_scheme"
  show "costs rk sync_ext msgs cap 0 s (fst (m_add_reader (sync_methods C) fd cb s))" by (rule add_sync_method_cost)
next
  fix rk fd cb and s :: "('q, 'z) sync_loop_scheme"
  show "costs rk sync_ext msgs cap 0 s (fst (m_add_writer (sync_methods C) fd cb s))" by (rule add_sync_method_cost)
next
  fix rk ctx and s :: "('q, 'z) sync_loop_scheme"
  show "costs rk sync_ext msgs cap 0 s (fst (m_default_exception_handler (sync_methods C) ctx s))" by simp
qed

end

interpretation fifo_sync: loop_methods_cost fifo_ops fst snd sync_ext "sync_methods fifo_ops"
  by (rule fifo.sync_cost_contract)

sublocale memory_channel \<subseteq> sync: loop_methods_cost C msgs cap sync_ext "sync_methods C"
  by (rule sync_cost_contract)

lemmas loop_methods_sync = memory_channel.sync_contract
  and loop_methods_cost_sync = memory_channel.sync_cost_contract

lemma stops_do_stop: "stops (sync_methods C) DoStop"
  by (simp add: stops_def do_stop_def)

end
