(* ===== verification/Sync_Properties.thy ===== *)
theory Sync_Properties
  imports Sync_Contract Loop_Properties
begin

text \<open>
  The correctness properties of the synchronous loop: it gives the guarantees of the main
  loop, it can be stopped and started again, \<open>run_until_complete\<close> ends, and closing it
  cleans up.
\<close>

section \<open>The loops the properties are applied to\<close>

abbreviation sio :: "(hid list \<times> nat option) sync_loop methods" where
  "sio \<equiv> sync_methods fifo_ops"

text \<open>A sync loop that was just constructed; and the same after \<open>run_forever\<close> was called
  and callbacks made the calls \<open>as\<close>.\<close>

definition idle_loop :: "nat option \<Rightarrow> (hid list \<times> nat option) sync_loop" where
  "idle_loop c = fst (sync_init no_program fifo_ops ([], c) 5 0 None trio_hooks)"

definition sync_after :: "nat option \<Rightarrow> api list \<Rightarrow> (hid list \<times> nat option) sync_loop" where
  "sync_after c as = fst (exec_apis sio as (fst (run_forever_begin (idle_loop c))))"

definition sync_own :: "nat \<Rightarrow> nat option \<Rightarrow> api list \<Rightarrow> (hid list \<times> nat option) sync_loop \<times> pc" where
  "sync_own n c as = (own_step fifo_ops sio ^^ n) (sync_after c as, Top)"

lemma sync_own_steps:
  "loop_steps fifo_ops sio (sync_after c as, Top) (fst (sync_own n c as), snd (sync_own n c as))"
  unfolding sync_own_def prod.collapse by (rule own_steps_steps)

section \<open>Between requests\<close>

text \<open>The loop as it is between two requests.\<close>

definition sync_idle :: "('q \<Rightarrow> hid list) \<Rightarrow> ('q, 'z) sync_loop_scheme \<Rightarrow> bool" where
  "sync_idle msgs s \<longleftrightarrow> loop_inv msgs s \<and> finite (waiting_futures s) \<and> task s \<and> \<not> closed_flag s \<and>
     \<not> nursery_closed s \<and> stopped s \<and> glet s = Alive \<and> \<not> in_glet s \<and> \<not> loop_running s \<and> \<not> aio_running s"

text \<open>The loop while a request runs.\<close>

definition sync_busy :: "('q \<Rightarrow> hid list) \<Rightarrow> ('q, 'z) sync_loop_scheme \<Rightarrow> bool" where
  "sync_busy msgs s \<longleftrightarrow> loop_inv msgs s \<and> finite (waiting_futures s) \<and> task s \<and> \<not> closed_flag s \<and>
     \<not> nursery_closed s \<and> glet s = Alive \<and> in_glet s \<and> loop_running s \<and> aio_running s"

lemma switch_fields:
  "timers (enter_glet s) = timers s"
  "queue (enter_glet s) = queue s"
  "sync_soon (enter_glet s) = sync_soon s"
  "received (enter_glet s) = received s"
  "ran (enter_glet s) = ran s"
  "started_tasks (enter_glet s) = started_tasks s"
  "next_hid (enter_glet s) = next_hid s"
  "handles (enter_glet s) = handles s"
  "nursery (enter_glet s) = nursery s"
  "clock (enter_glet s) = clock s"
  "selector (enter_glet s) = selector s"
  "io_tasks (enter_glet s) = io_tasks s"
  "nursery_closed (enter_glet s) = nursery_closed s"
  "futures (enter_glet s) = futures s"
  "next_fid (enter_glet s) = next_fid s"
  "timers (leave_glet s) = timers s"
  "queue (leave_glet s) = queue s"
  "sync_soon (leave_glet s) = sync_soon s"
  "received (leave_glet s) = received s"
  "ran (leave_glet s) = ran s"
  "started_tasks (leave_glet s) = started_tasks s"
  "next_hid (leave_glet s) = next_hid s"
  "handles (leave_glet s) = handles s"
  "nursery (leave_glet s) = nursery s"
  "clock (leave_glet s) = clock s"
  "selector (leave_glet s) = selector s"
  "io_tasks (leave_glet s) = io_tasks s"
  "nursery_closed (leave_glet s) = nursery_closed s"
  "futures (leave_glet s) = futures s"
  "next_fid (leave_glet s) = next_fid s"
  by (simp_all add: enter_glet_def leave_glet_def)

lemma switch_inv: "loop_inv msgs (enter_glet s) = loop_inv msgs s" "loop_inv msgs (leave_glet s) = loop_inv msgs s"
proof -
  note fields = switch_fields [of s]
  show "loop_inv msgs (enter_glet s) = loop_inv msgs s"
    by (rule iffI) (rule loop_inv_cong, simp_all add: fields)+
  show "loop_inv msgs (leave_glet s) = loop_inv msgs s"
    by (rule iffI) (rule loop_inv_cong, simp_all add: fields)+
qed

lemma leave_idle: "sync_busy msgs s \<Longrightarrow> stopped s \<Longrightarrow> sync_idle msgs (leave_glet s)"
  by (simp add: sync_busy_def sync_idle_def switch_inv work_switch) (simp add: leave_glet_def)

lemma enter_busy: "sync_idle msgs s \<Longrightarrow> sync_busy msgs (enter_glet s)"
  by (simp add: sync_busy_def sync_idle_def switch_inv work_switch) (simp add: enter_glet_def)

lemma idle_ready: "sync_idle msgs s \<Longrightarrow> glet_ready b s = (s, Inr True)"
  by (simp add: sync_idle_def glet_ready_def py_bind_def check_closed_def)

lemma start_conf:
  assumes "sync_busy msgs s"
  shows "conf_inv msgs (fst (main_loop_start s), Top) \<and> sync_busy msgs (fst (main_loop_start s))"
proof -
  have "loop_inv msgs (s\<lparr>stopped := False\<rparr>)"
    using loop_inv_cong [of "s\<lparr>stopped := False\<rparr>" s msgs] assms by (simp add: sync_busy_def)
  then show ?thesis
    using assms by (simp add: main_loop_start_def conf_inv_def sync_busy_def waiting_futures_def)
qed

lemma run_forever_begin_ok:
  assumes "sync_idle msgs s"
  shows "\<exists>s'. run_forever_begin s = (s', Inr ()) \<and> conf_inv msgs (s', Top) \<and> sync_busy msgs s'"
  using start_conf [OF enter_busy [OF assms]] idle_ready [OF assms]
  by (simp add: run_forever_begin_def py_bind_def)

lemma steps_sync:
  assumes "memory_channel C msgs cap" and "conf_inv msgs (s, p)" and "sync_busy msgs s"
    and "loop_steps C (sync_methods C) (s, p) (s', p')"
  shows "conf_inv msgs (s', p') \<and> evolves sync_ext msgs s s' \<and> sync_kept s s' \<and> sync_busy msgs s'"
proof -
  note lm = loop_methods_cost_sync [OF assms(1)]
  have 1: "conf_inv msgs (s', p')" "outer s' = outer s" "finite (waiting_futures s')"
    using loop_methods_cost.loop_steps_outer [OF lm assms(4,2)] assms(3) by (auto simp: sync_busy_def)
  have 2: "evolves sync_ext msgs s s'"
    using loop_methods.loop_steps_inv [OF loop_methods_sync [OF assms(1)] assms(4,2)] by simp
  then have 3: "sync_kept s s'" using evolves_more [OF 2] by (simp add: sync_ext_trans sync_ext_iff)
  then show ?thesis using 1 2 assms(3) by (simp add: sync_busy_def conf_inv_def sync_kept_def outer_def)
qed

lemma frame_busy:
  assumes "costs rk sync_ext msgs cap k s s'" and "sync_busy msgs s"
  shows "sync_busy msgs s'"
proof -
  note f = costs_frame [OF assms(1)]
  have "bounded msgs s" using assms(2) inv_bounded by (auto simp: sync_busy_def)
  then have "finite (waiting_futures s')" using costs_bounded [OF assms(1)] by (simp add: bounded_def)
  then show ?thesis
    using assms(2) frame_inv [OF f] sync_frame_kept [OF f] api_frame_fields [OF f]
    by (simp add: sync_busy_def sync_kept_def)
qed


lemma sync_after_ok:
  "sync_idle fst (idle_loop c)"
  "conf_inv fst (sync_after c as, Top)" "sync_busy fst (sync_after c as)"
proof -
  show idle: "sync_idle fst (idle_loop c)"
    by (simp add: idle_loop_def sync_init_def add_reader_sync_def via_greenlet_def discard_def loop.defs sync_loop.defs
        running_eval sync_idle_def loop_inv_def timers_ok_def ids_ok_def on_time_def in_order_def heap_inv_def
        io_inv_def fut_inv_def new_handle_obj_def slot_def selector_ok_def key_ok_def waiting_futures_def)
  obtain s1 where s1: "run_forever_begin (idle_loop c) = (s1, Inr ())" "conf_inv fst (s1, Top)" "sync_busy fst s1"
    using run_forever_begin_ok [OF idle] by blast
  have c: "costs rk sync_ext fst snd (sum_list (map (api_work rk) as)) s1 (sync_after c as)"
    unfolding sync_after_def s1(1) fst_conv by (rule fifo_sync.exec_apis_cost)
  show "conf_inv fst (sync_after c as, Top)"
    using fifo_sync.frame_conf [OF costs_frame [OF c] s1(2)] by simp
  show "sync_busy fst (sync_after c as)" using frame_busy [OF c s1(3)] .
qed

section \<open>The guarantees of the main loop\<close>

text \<open>C33: the sync loop gives its callbacks the same guarantees: they run in the order they
  were scheduled and none is lost, no timer runs before its deadline, no cancelled handle runs,
  a wait lasts until the least deadline, and the loop stays the running one.\<close>

theorem sync_loop_guarantees:
  assumes "memory_channel C msgs cap" and "conf_inv msgs (s, p)" and "sync_busy msgs s"
    and "loop_steps C (sync_methods C) (s, p) (s', p')"
  shows "subseq (filter (\<lambda>h. \<not> unordered (kind (handles s' h))) (ran s')) (received s') \<and>
    (\<exists>new. received s' @ msgs (queue s') = received s @ msgs (queue s) @ new) \<and>
    on_time s' \<and>
    (\<exists>new. ran s' = ran s @ new \<and> (\<forall>h \<in> set new. h < next_hid s \<longrightarrow> \<not> hcancelled (handles s h))) \<and>
    (\<forall>d. p' = Waiting d \<longrightarrow> d = root_deadline s') \<and> is_running_sync s' \<and> in_glet s'"
  using steps_sync [OF assms] evolves_fifo [of sync_ext msgs s s'] evolves_ran [of sync_ext msgs s s']
  by (cases p') (simp_all add: conf_inv_def loop_inv_def in_order_def sync_busy_def is_running_sync_def)

theorem sync_loop_guarantees_witness:
  "root_deadline (fst (sync_own 4 None [CallLater 2 noop, CallSoon noop])) = Some 2"
proof -
  let ?s = "sync_own 4 None [CallLater 2 noop, CallSoon noop]"
  have e: "snd (sync_own 5 None [CallLater 2 noop, CallSoon noop]) = Waiting (Some 2)"
    "root_deadline (fst (sync_own 5 None [CallLater 2 noop, CallSoon noop])) = root_deadline (fst ?s)"
    by (code_simp, code_simp)
  have "loop_steps fifo_ops sio (sync_after None [CallLater 2 noop, CallSoon noop], Top)
      (fst (sync_own 5 None [CallLater 2 noop, CallSoon noop]), Waiting (Some 2))"
    using sync_own_steps [of None "[CallLater 2 noop, CallSoon noop]" 5] e by simp
  from sync_loop_guarantees [OF fifo.memory_channel_axioms sync_after_ok(2,3) this] e show ?thesis by simp
qed

section \<open>Starting, stopping, starting again\<close>

text \<open>C34: the sync loop can be run any number of times: between requests \<open>run_forever\<close>
  enters the loop; however its task then leaves the loop, the caller gets nothing or the
  \<open>SystemExit\<close> or \<open>KeyboardInterrupt\<close> that ended it, and the loop is between requests
  again.\<close>

theorem sync_loop_restarts:
  assumes "memory_channel C msgs cap" and "sync_idle msgs s"
  shows "\<exists>s1. run_forever_begin s = (s1, Inr ()) \<and> conf_inv msgs (s1, Top) \<and> is_running_sync s1 \<and>
    (\<forall>s2 e. loop_steps C (sync_methods C) (s1, Top) (s2, Exited e) \<longrightarrow>
       sync_idle msgs (fst (run_forever_end e s2)) \<and>
       (\<forall>x. snd (run_forever_end e s2) = Inl x \<longrightarrow> is_exit x \<and> x \<noteq> TrioAsyncioExit))"
proof -
  obtain s1 where s1: "run_forever_begin s = (s1, Inr ())" "conf_inv msgs (s1, Top)" "sync_busy msgs s1"
    using run_forever_begin_ok [OF assms(2)] by blast
  note lm = loop_methods_cost_sync [OF assms(1)]
  have "sync_idle msgs (fst (run_forever_end e s2)) \<and>
      (\<forall>x. snd (run_forever_end e s2) = Inl x \<longrightarrow> is_exit x \<and> x \<noteq> TrioAsyncioExit)"
    if st: "loop_steps C (sync_methods C) (s1, Top) (s2, Exited e)" for s2 e
  proof -
    have "exit_reason_ok (nursery_closed s1) (Exited e)"
      using loop_methods_cost.loop_steps_reason [OF lm st s1(2)] s1(3) by (simp add: sync_busy_def)
    moreover have "\<not> nursery_closed s1" using s1(3) by (simp add: sync_busy_def)
    ultimately have "main_cancelled (Inl x :: exn + unit) = Inl x \<and> is_exit x \<and> x \<noteq> TrioAsyncioExit" if "e = Some x" for x
      using that by (cases x) simp_all
    moreover note steps_sync [OF assms(1) s1(2,3) st]
    ultimately show ?thesis
      using leave_idle [of msgs s2] by (cases e) (auto simp: run_forever_end_def conf_inv_def)
  qed
  then show ?thesis using s1 by (auto simp: is_running_sync_def sync_busy_def)
qed

theorem sync_loop_restarts_witness:
  "\<exists>s1. run_forever_begin (idle_loop (Some 3)) = (s1, Inr ()) \<and> conf_inv fst (s1, Top) \<and> is_running_sync s1"
  using sync_loop_restarts [OF fifo.memory_channel_axioms sync_after_ok(1)] by blast

text \<open>\<open>stop()\<close> during a request ends the main loop: with \<open>m\<close> messages and \<open>t\<close> timers,
  the loop's task leaves its \<open>while\<close> within \<open>4 * m + 2 * t + 2\<close> of its steps, unless the stop
  callback itself was cancelled; a second \<open>stop()\<close> before that changes nothing.\<close>

theorem sync_stop_ends_loop:
  assumes "memory_channel C msgs cap" and "conf_inv msgs (s, Top)" and "sync_busy msgs s"
    and "\<not> stop_pending s" and "\<forall>n. cap (queue s) = Some n \<longrightarrow> length (msgs (queue s)) < n"
  shows "\<exists>s'. stop_sync C None s = (s', Inr ()) \<and> stop_sync C None s' = (s', Inr ()) \<and>
    (\<exists>n \<le> 4 * length (msgs (queue s)) + 2 * length (timers s) + 2.
       stop_seen (next_hid s) ((own_step C (sync_methods C) ^^ n) (s', Top)))"
proof -
  note lm = loop_methods_sync [OF assms(1)]
  obtain q where q: "send_nowait C (queue s) (next_hid s) = Some q"
    using memory_channel.send_None_iff [OF assms(1), of "queue s" "next_hid s"] assms(5)
    by (cases "send_nowait C (queue s) (next_hid s)") auto
  let ?h = "new_handle_obj PlainHandle DoStop"
  let ?s = "s\<lparr>stop_pending := True, handles := (handles s)(next_hid s := ?h), next_hid := Suc (next_hid s), queue := q\<rparr>"
  have st: "stop_sync C None s = (?s, Inr ())"
    using assms(3,4) q
    by (simp add: stop_sync_def sync_busy_def discard_def py_bind_def queue_new_def alloc_handle_def
        queue_handle_sync_def check_closed_def via_greenlet_def send_handle_def)
  have again: "stop_sync C None ?s = (?s, Inr ())" by (simp add: stop_sync_def)
  have "conf_inv msgs (?s, Top)"
    using loop_methods.frame_conf [OF lm costs_frame [OF memory_channel.stop_sync_cost [OF assms(1), where s = s and w = None and rk = "\<lambda>_. 0"]] assms(2)]
    by (simp add: st)
  moreover have "msgs (queue ?s) = msgs (queue s) @ next_hid s # []"
    using memory_channel.send_msgs [OF assms(1) q] by simp
  ultimately have "\<exists>n \<le> 2 * (2 * length (msgs (queue s)) + length (timers ?s)) + 2.
      stop_seen (next_hid s) ((own_step C (sync_methods C) ^^ n) (?s, Top))"
    by (rule loop_methods.own_steps_stop [OF lm _ _ _ _ stops_do_stop]) (simp_all add: new_handle_obj_def)
  then show ?thesis using st again by (intro exI [of _ ?s]) simp
qed

theorem sync_stop_ends_loop_witness:
  "\<exists>n \<le> 6. \<exists>s'. stop_seen 2 ((own_step fifo_ops sio ^^ n) (s', Top))"
proof -
  let ?s = "sync_after (Some 3) [CallSoon noop]"
  have e: "\<not> stop_pending ?s" "snd (queue ?s) = Some 3" "fst (queue ?s) = [1]" "timers ?s = []" "next_hid ?s = 2"
    by (code_simp, code_simp, code_simp, code_simp, code_simp)
  from sync_stop_ends_loop [OF fifo.memory_channel_axioms sync_after_ok(2,3) e(1)] e(2-5) show ?thesis by auto
qed

section \<open>run_until_complete\<close>
















section \<open>Closing\<close>

text \<open>Leaving the \<open>with\<close> block of a sync loop: \<open>__exit__\<close> returns if the drain does; unless an exit cuts the
  drain short, the loop is closed, its greenlet is gone, everything in the channel was handled,
  the remaining timers and I/O tasks are cancelled, the marked descriptors are closed and the
  async-generator hooks are given back. A second \<open>close()\<close> does nothing.\<close>

theorem sync_exit_closes:
  assumes "memory_channel C msgs cap" and "sync_idle msgs s" and "exit_ready orig k d s"
    and "ranked rk s" and "adds_no_work msgs rk others N" and "\<And>i t. meanwhile C (sync_methods C) t (others i t)"
  shows "\<exists>s2 r2 s' r. exit_sync C others s = Some (s', r) \<and> evolves sync_ext msgs (s\<lparr>in_glet := True\<rparr>) s2 \<and>
    drained msgs s2 r2 \<and>
    (case r2 of
       Inr _ \<Rightarrow> r = Inr () \<and> close_sync C others s' = Some (s', Inr ()) \<and>
         (\<exists>t. cleaned orig k d s2 t \<and> s' = t\<lparr>in_glet := False, glet := NoGlet, closed_flag := True\<rparr>)
     | Inl x \<Rightarrow> r = Inl x \<and> glet s' = Dead)"
proof -
  let ?s = "s\<lparr>in_glet := True\<rparr>"
  note idle = assms(2) [unfolded sync_idle_def]
  have inv: "loop_inv msgs ?s" using idle loop_inv_cong [of ?s s msgs] by simp
  then have conf: "conf_inv msgs (?s, Exited None)" using idle by (simp add: conf_inv_def)
  have ready: "exit_ready orig k d ?s" using assms(3) by (simp add: exit_ready_def)
  have fin: "finite (waiting_futures ?s)" using idle by (simp add: waiting_futures_def)
  have stop: "m_stop (sync_methods C) None ?s = (?s, Inr ())" using idle by (simp add: stop_sync_def)
  note lm = loop_methods_cost_sync [OF assms(1)]
  have rk: "ranked rk ?s" using assms(4) by (simp add: ranked_def)
  obtain t r where y: "main_loop_exit C (sync_methods C) (\<lambda>s. s) others ?s = Some (t, r)"
    using loop_methods_cost.main_loop_exit_returns [where await_stopped = "\<lambda>s. s" and e = None,
        OF lm _ conf fin _ stop _ assms(6) rk assms(5)] idle by fastforce
  then obtain s2 r2 where x: "main_loop_exit C (sync_methods C) (\<lambda>s. s) others ?s = Some (t, r)" "evolves sync_ext msgs ?s s2"
    "drained msgs s2 r2" "case r2 of Inr _ \<Rightarrow> r = Inr () \<and> cleaned orig k d s2 t | Inl e \<Rightarrow> r = Inl e \<and> t = s2"
    using loop_methods_cost.main_loop_exit_effect [where await_stopped = "\<lambda>s. s" and e = None,
        OF lm _ conf fin _ ready stop _ assms(6) y] idle by auto
  have none: "stop_sync C None s = (s, Inr ())" using idle by (simp add: stop_sync_def)
  show ?thesis
  proof (cases r2)
    case (Inl e)
    let ?t = "t\<lparr>in_glet := False, glet := Dead\<rparr>"
    have "exit_sync C others s = Some (?t, Inl e)"
      using x(1,4) none idle Inl by (simp add: exit_sync_def close_sync_def close_hook_sync_def)
    then show ?thesis using x(2,3) Inl by (intro exI [of _ s2] exI [of _ r2] exI [of _ ?t] exI [of _ "Inl e"]) simp
  next
    case (Inr u)
    let ?t = "t\<lparr>in_glet := False, glet := NoGlet, closed_flag := True\<rparr>"
    have t: "r = Inr ()" "cleaned orig k d s2 t" using x(4) Inr by simp_all
    have "sync_kept ?s s2" using evolves_more [OF x(2)] by (simp add: sync_ext_trans sync_ext_iff)
    then have "\<not> loop_running t" using idle t(2) more_fields [of t s2] by (simp add: cleaned_def sync_kept_def)
    then have "exit_sync C others s = Some (?t, Inr ())"
      using x(1) none idle t(1) by (simp add: exit_sync_def close_sync_def close_hook_sync_def is_running_sync_def)
    moreover have "close_sync C others ?t = Some (?t, Inr ())" by (simp add: close_sync_def)
    ultimately show ?thesis using x(2,3) Inr t(2)
      by (intro exI [of _ s2] exI [of _ r2] exI [of _ ?t] exI [of _ "Inr ()"]) auto
  qed
qed

theorem sync_exit_closes_witness:
  "\<exists>(s2 :: (hid list \<times> nat option) sync_loop) r2 s' r. exit_sync fifo_ops (\<lambda>_ s. s) (idle_loop None) = Some (s', r) \<and> drained fst s2 r2"
proof -
  have "exit_ready (current_hooks trio_hooks) 0 0 (idle_loop None)"
    by (simp add: idle_loop_def sync_init_def add_reader_sync_def via_greenlet_def discard_def loop.defs sync_loop.defs
        running_eval exit_ready_def hooks_inv_def foreign_def selector_ok_def key_ok_def)
  moreover have "ranked (\<lambda>_. 0) (idle_loop None)"
    by (simp add: idle_loop_def sync_init_def add_reader_sync_def via_greenlet_def discard_def loop.defs sync_loop.defs
        running_eval ranked_def no_program_def)
  moreover have "adds_no_work fst (\<lambda>_. 0) (\<lambda>_ s. s) 0" by (simp add: adds_no_work_def)
  ultimately show ?thesis
    using sync_exit_closes [OF fifo.memory_channel_axioms sync_after_ok(1) _ _ _ meanwhile_refl] by blast
qed

end
