(* ===== verification/Loop_Refinement.thy ===== *)
theory Loop_Refinement
  imports Sync_Properties
begin

text \<open>
  An abstract scheduler, and the proof that the main loop implements it: the channel is a
  list of pending handles, the heap a multiset of timers, and a step takes the oldest pending
  handle or a due timer with the least deadline. Whatever a callback does amounts to
  scheduling and cancelling.
\<close>

section \<open>The abstract scheduler\<close>

text \<open>The pending handles with their kinds, the timers, the handles that wait for a file
  descriptor, the time, the cancelled handles, whether tasks are refused; what was run and
  which tasks were started, in order.\<close>

record scheduler =
  pending :: "(hid \<times> hkind) list"
  waiting_timers :: "(instant \<times> hid) multiset"
  watchers :: "hid set"
  now :: instant
  cancelled :: "hid set"
  refuses :: bool
  done_runs :: "hid list"
  done_starts :: "hid list"

text \<open>\<open>Some w\<close> for a timer with deadline \<open>w\<close>.\<close>

fun deadline_of :: "hkind \<Rightarrow> instant option" where
  "deadline_of (TimerHandle w) = Some w"
| "deadline_of _ = None"

fun is_async :: "hkind \<Rightarrow> bool" where
  "is_async (AsyncHandle _) = True"
| "is_async _ = False"

text \<open>A timer that may be run now: due, with the least deadline.\<close>

definition next_timer :: "scheduler \<Rightarrow> instant \<times> hid \<Rightarrow> bool" where
  "next_timer a t \<longleftrightarrow> t \<in># waiting_timers a \<and> fst t \<le> now a \<and> (\<forall>u \<in># waiting_timers a. fst t \<le> fst u)"

text \<open>What is planned: handles, cancellations and descriptors to watch, and time passes.\<close>

inductive plan_step :: "scheduler \<Rightarrow> scheduler \<Rightarrow> bool" where
  schedule: "plan_step a (a\<lparr>pending := pending a @ [x]\<rparr>)"
| cancel: "cancelled a \<subseteq> hs \<Longrightarrow> plan_step a (a\<lparr>cancelled := hs\<rparr>)"
| pass: "now a \<le> t \<Longrightarrow> plan_step a (a\<lparr>now := t\<rparr>)"
| watch: "hs \<inter> (watchers a \<union> fst ` set (pending a) \<union> set (done_runs a)) = {} \<Longrightarrow>
    plan_step a (a\<lparr>watchers := watchers a \<union> hs\<rparr>)"

text \<open>What is done: one handle is taken, the oldest pending one, a timer, or one that waits for a
  descriptor.\<close>

inductive take_step :: "scheduler \<Rightarrow> scheduler \<Rightarrow> bool" where
  take_timer: "pending a = (h, k) # rest \<Longrightarrow> deadline_of k = Some w \<Longrightarrow>
    take_step a (a\<lparr>pending := rest, waiting_timers := add_mset (w, h) (waiting_timers a)\<rparr>)"
| take_run: "pending a = (h, k) # rest \<Longrightarrow> deadline_of k = None \<Longrightarrow> \<not> is_async k \<Longrightarrow> h \<notin> cancelled a \<Longrightarrow>
    take_step a (a\<lparr>pending := rest, done_runs := done_runs a @ [h]\<rparr>)"
| take_skip: "pending a = (h, k) # rest \<Longrightarrow> deadline_of k = None \<Longrightarrow> \<not> is_async k \<Longrightarrow> h \<in> cancelled a \<Longrightarrow>
    take_step a (a\<lparr>pending := rest\<rparr>)"
| take_start: "pending a = (h, k) # rest \<Longrightarrow> is_async k \<Longrightarrow> \<not> refuses a \<Longrightarrow>
    take_step a (a\<lparr>pending := rest, done_starts := done_starts a @ [h]\<rparr>)"
| take_refuse: "pending a = (h, k) # rest \<Longrightarrow> is_async k \<Longrightarrow> refuses a \<Longrightarrow>
    take_step a (a\<lparr>pending := rest\<rparr>)"
| fire_run: "next_timer a (w, h) \<Longrightarrow> h \<notin> cancelled a \<Longrightarrow>
    take_step a (a\<lparr>waiting_timers := waiting_timers a - {#(w, h)#}, done_runs := done_runs a @ [h]\<rparr>)"
| fire_skip: "next_timer a (w, h) \<Longrightarrow> h \<in> cancelled a \<Longrightarrow>
    take_step a (a\<lparr>waiting_timers := waiting_timers a - {#(w, h)#}\<rparr>)"
| ready: "h \<in> watchers a \<Longrightarrow> h \<notin> cancelled a \<Longrightarrow> take_step a (a\<lparr>done_runs := done_runs a @ [h]\<rparr>)"

abbreviation plan_steps :: "scheduler \<Rightarrow> scheduler \<Rightarrow> bool" where
  "plan_steps \<equiv> plan_step\<^sup>*\<^sup>*"

text \<open>A move of the scheduler: it takes one handle or none, and then plans.\<close>

definition sched_move :: "scheduler \<Rightarrow> scheduler \<Rightarrow> bool" where
  "sched_move a c \<longleftrightarrow> (\<exists>b. (b = a \<or> take_step a b) \<and> plan_steps b c)"

lemma move_plans: "plan_steps a b \<Longrightarrow> sched_move a b"
  by (auto simp: sched_move_def)

lemma move_takes: "take_step a b \<Longrightarrow> plan_steps b c \<Longrightarrow> sched_move a c"
  by (auto simp: sched_move_def)

section \<open>The abstraction\<close>

definition abs_loop :: "('q \<Rightarrow> hid list) \<Rightarrow> ('q, 'z) loop_scheme \<Rightarrow> scheduler" where
  "abs_loop msgs s =
     \<lparr>pending = map (\<lambda>h. (h, kind (handles s h))) (msgs (queue s)), waiting_timers = mset (timers s),
      watchers = (\<lambda>(fd, h, reading). h) ` set (io_tasks s), now = clock s,
      cancelled = {h \<in> {..<next_hid s}. hcancelled (handles s h)}, refuses = nursery_closed s,
      done_runs = ran s, done_starts = started_tasks s\<rparr>"

lemma abs_cong:
  "queue s' = queue s \<Longrightarrow> timers s' = timers s \<Longrightarrow> clock s' = clock s \<Longrightarrow> next_hid s' = next_hid s \<Longrightarrow>
   handles s' = handles s \<Longrightarrow> ran s' = ran s \<Longrightarrow> started_tasks s' = started_tasks s \<Longrightarrow>
   io_tasks s' = io_tasks s \<Longrightarrow> nursery_closed s' = nursery_closed s \<Longrightarrow>
   abs_loop msgs s' = abs_loop msgs s"
  by (simp add: abs_loop_def)

lemma schedules: "plan_steps a (a\<lparr>pending := pending a @ xs\<rparr>)"
proof (induction xs rule: rev_induct)
  case (snoc x xs)
  let ?b = "a\<lparr>pending := pending a @ xs\<rparr>"
  have "plan_step ?b (?b\<lparr>pending := pending ?b @ [x]\<rparr>)" by (rule plan_step.schedule)
  then show ?case using snoc by simp
qed simp

text \<open>Every handle that waits or was run is allocated.\<close>

definition known :: "('q \<Rightarrow> hid list) \<Rightarrow> ('q, 'z) loop_scheme \<Rightarrow> bool" where
  "known msgs s \<longleftrightarrow> (\<forall>h \<in> set (msgs (queue s)) \<union> set (ran s). h < next_hid s) \<and>
     (\<forall>(fd, h, reading) \<in> set (io_tasks s). h < next_hid s)"

lemma inv_known: "loop_inv msgs s \<Longrightarrow> known msgs s"
  by (auto simp: known_def loop_inv_def ids_ok_def dest: io_inv_task)

text \<open>An operation of the interface schedules, cancels and watches.\<close>

lemma abs_frame:
  assumes f: "api_frame ext msgs cap s s'" and q: "known msgs s"
  shows "plan_steps (abs_loop msgs s) (abs_loop msgs s')"
proof -
  let ?a = "abs_loop msgs s" and ?a' = "abs_loop msgs s'"
  obtain new where new: "msgs (queue s') = msgs (queue s) @ new" using api_frame_queue [OF f] by blast
  have kinds: "kind (handles s' h) = kind (handles s h)" "hcancelled (handles s h) \<Longrightarrow> hcancelled (handles s' h)"
    if "h < next_hid s" for h
    using api_frame_handle [OF f that] by (simp_all add: handle_frame_def)
  obtain ts where ts: "io_tasks s' = io_tasks s @ ts" "\<forall>(fd, h, rd) \<in> set ts. next_hid s \<le> h \<and> h < next_hid s'"
    using api_frame_io [OF f] by (auto simp: io_frame_def)
  let ?ws = "(\<lambda>(fd, h, reading). h) ` set ts" and ?new = "map (\<lambda>h. (h, kind (handles s' h))) new"
  let ?b = "?a\<lparr>cancelled := cancelled ?a'\<rparr>"
  let ?c = "?b\<lparr>watchers := watchers ?b \<union> ?ws\<rparr>"
  have "cancelled ?a \<subseteq> cancelled ?a'"
    using kinds(2) api_frame_next [OF f] by (auto simp: abs_loop_def)
  then have "plan_step ?a ?b" by (rule plan_step.cancel)
  moreover have "plan_step ?b ?c"
  proof (rule plan_step.watch)
    have "h < next_hid s" if "h \<in> watchers ?b \<union> fst ` set (pending ?b) \<union> set (done_runs ?b)" for h
      using that q by (auto simp: abs_loop_def known_def)
    then show "?ws \<inter> (watchers ?b \<union> fst ` set (pending ?b) \<union> set (done_runs ?b)) = {}"
      using ts(2) by fastforce
  qed
  moreover have "?a' = ?c\<lparr>pending := pending ?c @ ?new\<rparr>"
    using q kinds(1) by (simp add: abs_loop_def known_def new ts(1) image_Un api_frame_fields [OF f])
  ultimately show ?thesis
    using schedules [of ?c ?new] by (metis converse_rtranclp_into_rtranclp)
qed

text \<open>\<open>log\<close> is what the scheduler does with a handle that was just taken.\<close>

definition log_run :: "hkind \<Rightarrow> hid \<Rightarrow> scheduler \<Rightarrow> scheduler" where
  "log_run k h a =
     (if is_async k then if refuses a then a else a\<lparr>done_starts := done_starts a @ [h]\<rparr>
      else if h \<in> cancelled a then a else a\<lparr>done_runs := done_runs a @ [h]\<rparr>)"

context loop_methods
begin

lemma abs_dispatch:
  assumes q: "known msgs s" and n: "nursery s" and obj: "obj < next_hid s"
    and d: "dispatch M obj s = (s', r)"
  shows "plan_steps (log_run (kind (handles s obj)) obj (abs_loop msgs s)) (abs_loop msgs s')"
proof (cases "is_async (kind (handles s obj))")
  case True
  show ?thesis
  proof (cases "nursery_closed s")
    case shut: True
    then have "s' = s" using d n True by (auto simp: dispatch_def split: hkind.splits)
    then show ?thesis using True shut by (simp add: log_run_def abs_loop_def)
  next
    case False
    let ?s0 = "s\<lparr>started_tasks := started_tasks s @ [obj]\<rparr>"
    obtain s1 p where b: "async_run_begin M obj ?s0 = (s1, p)" by fastforce
    have "s' = s1 \<or> (\<exists>es. s' = s1\<lparr>task_errors := es\<rparr>)"
      using d n b True False by (auto simp: dispatch_def split: hkind.splits sum.splits)
    then have "abs_loop msgs s' = abs_loop msgs s1" by (auto intro: abs_cong)
    moreover have "plan_steps (abs_loop msgs ?s0) (abs_loop msgs s1)"
      using abs_frame [OF async_run_begin_frame, of ?s0 obj] q b by (simp add: known_def)
    moreover have "log_run (kind (handles s obj)) obj (abs_loop msgs s) = abs_loop msgs ?s0"
      using True False by (simp add: log_run_def abs_loop_def)
    ultimately show ?thesis by simp
  qed
next
  case False
  show ?thesis
  proof (cases "hcancelled (handles s obj)")
    case True
    then have "s' = s" using d False by (auto simp: dispatch_def split: hkind.splits)
    then show ?thesis using True False obj by (simp add: log_run_def abs_loop_def)
  next
    case live: False
    let ?s0 = "s\<lparr>sniffio := Some ''asyncio'', ran := ran s @ [obj]\<rparr>"
    obtain s1 p where b: "handle_run M obj ?s0 = (s1, p)" by fastforce
    then have "s' = s1\<lparr>sniffio := sniffio s\<rparr>"
      using d False live by (auto simp: dispatch_def split: hkind.splits)
    then have "abs_loop msgs s' = abs_loop msgs s1" by (auto intro: abs_cong)
    moreover have "plan_steps (abs_loop msgs ?s0) (abs_loop msgs s1)"
      using abs_frame [OF handle_run_frame, of ?s0 obj] q b obj by (simp add: known_def)
    moreover have "log_run (kind (handles s obj)) obj (abs_loop msgs s) = abs_loop msgs ?s0"
      using False live by (simp add: log_run_def abs_loop_def)
    ultimately show ?thesis by simp
  qed
qed

lemma abs_accept:
  assumes inv: "loop_inv msgs s" and rc: "receive C s = Some (h, s1)" and a: "accept M h s1 = (s', r)"
  shows "sched_move (abs_loop msgs s) (abs_loop msgs s')"
proof -
  obtain q where s1: "s1 = s\<lparr>queue := q, received := received s @ [h]\<rparr>" and m: "msgs (queue s) = h # msgs q"
    using receive_cases [OF rc] by auto
  let ?k = "kind (handles s h)" and ?rest = "map (\<lambda>h. (h, kind (handles s h))) (msgs q)" and ?a = "abs_loop msgs s"
  have p: "pending ?a = (h, ?k) # ?rest" by (simp add: abs_loop_def m)
  have q1: "known msgs s1" and h: "h < next_hid s"
    using inv_known [OF inv] m by (simp_all add: s1 known_def)
  have s1_abs: "abs_loop msgs s1 = ?a\<lparr>pending := ?rest\<rparr>" by (simp add: s1 abs_loop_def m)
  show ?thesis
  proof (cases "deadline_of ?k")
    case (Some w)
    then have k: "?k = TimerHandle w" by (cases ?k) simp_all
    then have "s' = s1\<lparr>timers := heappush fst (timers s1) (w, h)\<rparr>"
      using a by (simp add: accept_def s1)
    then have "abs_loop msgs s' = ?a\<lparr>pending := ?rest, waiting_timers := add_mset (w, h) (waiting_timers ?a)\<rparr>"
      by (simp add: s1 abs_loop_def mset_heappush)
    then show ?thesis using move_takes [OF take_step.take_timer [OF p Some]] by simp
  next
    case None
    then have "dispatch M h s1 = (s', r)"
      using a by (cases ?k) (simp_all add: accept_def s1)
    then have "plan_steps (log_run ?k h (?a\<lparr>pending := ?rest\<rparr>)) (abs_loop msgs s')"
      using abs_dispatch [OF q1 _ _ _, of h s' r] inv h by (simp add: s1_abs [symmetric] loop_inv_def) (simp add: s1)
    moreover have "take_step ?a (log_run ?k h (?a\<lparr>pending := ?rest\<rparr>))"
      using take_step.take_start [OF p] take_step.take_refuse [OF p] take_step.take_run [OF p None] take_step.take_skip [OF p None]
      by (simp add: log_run_def)
    ultimately show ?thesis by (rule move_takes [rotated])
  qed
qed

lemma abs_poll:
  assumes inv: "loop_inv msgs s" and p: "poll_timers s = (s1, Inr (Some obj, t))"
    and d: "dispatch M obj s1 = (s', r)"
  shows "sched_move (abs_loop msgs s) (abs_loop msgs s')"
proof -
  from p obtain w ts where s1: "s1 = s\<lparr>timers := ts\<rparr>"
    and pop: "heappop fst (timers s) = Some ((w, obj), ts)" and w: "w \<le> clock s"
    by (cases s rule: poll_timers_cases) auto
  let ?a = "abs_loop msgs s"
  have m: "mset (timers s) = add_mset (w, obj) (mset ts)" by (rule mset_heappop [OF pop])
  have "\<forall>y \<in> set (timers s). w \<le> fst y"
    using heappop_least [OF _ pop] inv by (auto simp: loop_inv_def timers_ok_def)
  moreover have "set (timers s) = insert (w, obj) (set ts)"
    using m by (metis set_mset_add_mset_insert set_mset_mset)
  ultimately have nt: "next_timer ?a (w, obj)" using w m by (simp add: next_timer_def abs_loop_def)
  note pi = pop_inv [OF inv pop]
  have k: "\<not> is_async (kind (handles s obj))" by (simp add: pi(3))
  have s1_abs: "abs_loop msgs s1 = ?a\<lparr>waiting_timers := waiting_timers ?a - {#(w, obj)#}\<rparr>"
    by (simp add: s1 abs_loop_def m)
  have "plan_steps (log_run (kind (handles s1 obj)) obj (abs_loop msgs s1)) (abs_loop msgs s')"
    by (rule abs_dispatch [OF _ _ _ d]) (use inv_known [OF inv] pi(2) inv in \<open>simp_all add: s1 loop_inv_def known_def\<close>)
  moreover have "take_step ?a (log_run (kind (handles s1 obj)) obj (abs_loop msgs s1))"
    using k take_step.fire_run [OF nt] take_step.fire_skip [OF nt] unfolding s1_abs
    by (simp add: log_run_def s1)
  ultimately show ?thesis by (rule move_takes [rotated])
qed

lemma abs_after_one: "abs_loop msgs (fst (after_one (s, r))) = abs_loop msgs s"
  by (auto simp: after_one_def leave_loop_def intro: abs_cong split: sum.split)

lemma abs_top:
  assumes inv: "loop_inv msgs s" and run: "\<not> stopped s"
  shows "sched_move (abs_loop msgs s) (abs_loop msgs (fst (loop_top M s)))"
proof (cases s rule: poll_timers_cases)
  case (due w obj ts t)
  obtain s' r where d: "dispatch M obj (s\<lparr>timers := ts\<rparr>) = (s', r)" by fastforce
  then have "loop_top M s = after_one (s', r)" using due(1) run by (simp add: loop_top_def)
  then show ?thesis using abs_poll [OF inv due(1) d] by (simp add: abs_after_one)
next
  case (error e)
  then have "loop_top M s = after_one (s, Inl e)" using run by (simp add: loop_top_def after_one_def)
  then show ?thesis using move_plans by (simp add: abs_after_one)
next
  case (idle t)
  then show ?thesis using run move_plans by (simp add: loop_top_def)
qed

lemma abs_receive:
  assumes inv: "loop_inv msgs s" and c: "loop_receive C M s = Some c"
  shows "sched_move (abs_loop msgs s) (abs_loop msgs (fst c))"
proof -
  obtain h s1 where rc: "receive C s = Some (h, s1)" and c': "c = after_one (accept M h s1)"
    using c by (auto simp: loop_receive_def split: option.splits)
  obtain s2 r where a: "accept M h s1 = (s2, r)" by fastforce
  show ?thesis using abs_accept [OF inv rc a] by (simp add: c' a abs_after_one)
qed

lemma abs_soon:
  assumes "run_sync_soon_one C s = (s', Inr u)"
  shows "plan_steps (abs_loop msgs s) (abs_loop msgs s')"
proof (cases "sync_soon s")
  case Nil
  then show ?thesis using assms by (simp add: run_sync_soon_one_def)
next
  case (Cons h hs)
  then obtain q where q: "send_nowait C (queue s) h = Some q" and s': "s' = s\<lparr>sync_soon := hs, queue := q\<rparr>"
    using assms by (auto simp: run_sync_soon_one_def Let_def split: option.splits)
  have "abs_loop msgs s' = (abs_loop msgs s)\<lparr>pending := pending (abs_loop msgs s) @ [(h, kind (handles s h))]\<rparr>"
    by (simp add: abs_loop_def s' send_msgs [OF q])
  then show ?thesis by (simp add: r_into_rtranclp plan_step.schedule)
qed

lemma abs_io:
  assumes inv: "loop_inv msgs s" and t: "(fd, h, reading) \<in> set (io_tasks s)"
  shows "sched_move (abs_loop msgs s) (abs_loop msgs (io_advance M h wake s))"
proof -
  obtain s' pc where st: "io_step M h wake s (io_state s h) = (s', pc)" by fastforce
  have "sched_move (abs_loop msgs s) (abs_loop msgs s')"
    using st
  proof (cases rule: io_step_cases)
    case (failed e)
    then show ?thesis using abs_frame [OF io_except_frame inv_known [OF inv], of e] move_plans by simp
  next
    case runs
    let ?s = "s\<lparr>ran := ran s @ [h]\<rparr>"
    have "known msgs ?s" using inv_known [OF inv] t by (auto simp: known_def)
    then have "plan_steps (abs_loop msgs ?s) (abs_loop msgs s')"
      using abs_frame [OF io_run_frame, of s h] runs by simp
    moreover have "take_step (abs_loop msgs s) ((abs_loop msgs s)\<lparr>done_runs := done_runs (abs_loop msgs s) @ [h]\<rparr>)"
      using t runs(1) by (intro take_step.ready) (force simp: abs_loop_def)+
    moreover have "abs_loop msgs ?s = (abs_loop msgs s)\<lparr>done_runs := done_runs (abs_loop msgs s) @ [h]\<rparr>"
      by (simp add: abs_loop_def)
    ultimately show ?thesis by (metis move_takes)
  qed (simp add: move_plans)
  moreover have "abs_loop msgs (io_advance M h wake s) = abs_loop msgs s'"
    by (rule abs_cong) (simp_all add: io_advance_def st)
  ultimately show ?thesis by simp
qed

lemma loop_step_refines:
  assumes "loop_step C M c c'" and "conf_inv msgs c"
  shows "sched_move (abs_loop msgs (fst c)) (abs_loop msgs (fst c'))"
  using assms
proof (induction rule: loop_step.induct)
  case (top s)
  then show ?case using abs_top by (simp add: conf_inv_def)
next
  case (message s c d)
  then show ?case using abs_receive by (simp add: conf_inv_def)
next
  case (call a s s' r p)
  then have "loop_inv msgs s" by (simp add: conf_inv_def)
  then have "plan_steps (abs_loop msgs s) (abs_loop msgs s')"
    using abs_frame [OF exec_api_frame, of s a] inv_known call by fastforce
  then show ?case by (simp add: move_plans)
next
  case (tick s t p)
  have "abs_loop msgs (s\<lparr>clock := t\<rparr>) = (abs_loop msgs s)\<lparr>now := t\<rparr>" by (simp add: abs_loop_def)
  then show ?case using plan_step.pass [of "abs_loop msgs s" t] tick by (simp add: abs_loop_def move_plans r_into_rtranclp)
next
  case (soon s s' u p)
  then show ?case using abs_soon [of s s' u] by (simp add: move_plans)
next
  case (async_end h s b s' r p)
  then have "loop_inv msgs s" by (simp add: conf_inv_def)
  then have "plan_steps (abs_loop msgs s) (abs_loop msgs s')"
    using abs_frame [OF async_run_end_frame, of s h b] inv_known async_end by fastforce
  then show ?case by (auto simp: abs_loop_def move_plans split: sum.split)
next
  case (io fd h reading s p wake)
  then show ?case using abs_io [of s fd h reading wake] by (simp add: conf_inv_def)
next
  case (transports s p T)
  have "abs_loop msgs (s\<lparr>transports := T\<rparr>) = abs_loop msgs s" by (rule abs_cong) simp_all
  then show ?case by (simp add: move_plans)
qed (simp add: move_plans)

lemma loop_steps_refine:
  assumes "loop_steps C M c c'" and "conf_inv msgs c"
  shows "sched_move\<^sup>*\<^sup>* (abs_loop msgs (fst c)) (abs_loop msgs (fst c'))"
  using assms
proof (induction rule: rtranclp_induct)
  case (step c1 c2)
  then have "conf_inv msgs c1" using loop_steps_inv by blast
  then show ?case using step loop_step_refines [OF step.hyps(2)] by (meson rtranclp.rtrancl_into_rtrancl)
qed simp

end

section \<open>The refinement\<close>

text \<open>C8: the main loop implements the abstract scheduler: in every run of the loop of a class that
  keeps the contract, asynchronous or synchronous, each step is a move of the scheduler, which
  takes at most one handle, and then schedules at the end, cancels, watches a descriptor or lets
  time pass, any number of times. The handle taken is the oldest pending one, a due timer of
  least deadline, or one that waits for a descriptor; it is run unless it was cancelled.\<close>

theorem loop_refines_scheduler:
  assumes "loop_methods C msgs cap ext M" and "conf_inv msgs c" and "loop_steps C M c c'"
  shows "sched_move\<^sup>*\<^sup>* (abs_loop msgs (fst c)) (abs_loop msgs (fst c')) \<and>
    (\<forall>c''. loop_step C M c' c'' \<longrightarrow> sched_move (abs_loop msgs (fst c')) (abs_loop msgs (fst c'')))"
  using loop_methods.loop_steps_refine [OF assms(1,3,2)] loop_methods.loop_step_refines [OF assms(1)]
    loop_methods.loop_steps_inv [OF assms(1,3,2)] by blast

theorem loop_refines_scheduler_witness:
  "sched_move\<^sup>*\<^sup>* (abs_loop fst (after_calls None [CallLater 1 noop, CallSoon noop]))
     (abs_loop fst (fst (run_own 4 None [CallLater 1 noop, CallSoon noop]))) \<and>
   sched_move\<^sup>*\<^sup>* (abs_loop fst (sync_after None [CallLater 1 noop, CallSoon noop]))
     (abs_loop fst (fst (sync_own 4 None [CallLater 1 noop, CallSoon noop])))"
  using loop_refines_scheduler [OF fifo.async_contract after_calls_ok(1) run_own_steps]
    loop_refines_scheduler [OF fifo.sync_contract sync_after_ok(2) sync_own_steps] by simp

end
