(* ===== verification/Policy.thy ===== *)
theory Policy
  imports Aio_Prelude
begin

text \<open>
  The event-loop policy and the functions of asyncio that \<open>_loop.py\<close> replaces: which loop
  \<open>get_event_loop\<close>, \<open>new_event_loop\<close>, \<open>get_running_loop\<close> and the like give, inside a Trio
  task, inside the task of a sync loop, and outside Trio, with and without a policy set by the
  user.
\<close>

section \<open>The thread\<close>

type_synonym lid = nat
type_synonym cid = nat
type_synonym policy_id = nat

text \<open>The policy objects: the singleton \<open>_trio_policy\<close>, asyncio's own default policy, those of
  the user. The classes of the loops that policies make.\<close>

datatype policy = TheTrioPolicy | OriginalPolicy | UserPolicy policy_id

datatype loop_class = SyncTrioEventLoop | StockEventLoop

text \<open>
  One thread. \<open>trio_task\<close> is the current Trio task, if any: its name and its context;
  \<open>contexts\<close> holds the value of the variable \<open>current_loop\<close> in each context, \<open>context_now\<close> is
  the context the code runs in, which need not be the task's. \<open>faked\<close> is
  \<open>_faked_policy.policy\<close>. \<open>local_loop\<close> and \<open>set_called\<close> are the fields of \<open>self._local\<close>, which
  every policy of asyncio's base class has for itself in each thread, and \<open>watcher\<close> is its child
  watcher with the loop attached to it. \<open>c_running\<close> is what the original \<open>_get_running_loop\<close>
  returns, \<open>main_thread\<close> whether this is the main thread. \<open>next_loop\<close> numbers the loops that
  these policies make, and \<open>class_of\<close> has their classes; \<open>users\<close> is the state of the policies the
  user installs.
\<close>

record 'p thread =
  trio_task :: "(string \<times> cid) option"
  contexts :: "cid \<Rightarrow> lid option"
  context_now :: cid
  faked :: "policy_id option"
  local_loop :: "policy \<Rightarrow> lid option"
  set_called :: "policy \<Rightarrow> bool"
  c_running :: "lid option"
  main_thread :: bool
  watcher :: "policy \<Rightarrow> lid option option"
  next_loop :: lid
  class_of :: "lid \<Rightarrow> loop_class option"
  users :: 'p

text \<open>A policy of the user is not code of the repository: its three methods are a parameter.\<close>

record 'p user_policy =
  u_new :: "policy_id \<Rightarrow> ('p, lid) py"
  u_get :: "policy_id \<Rightarrow> ('p, lid option) py"
  u_set :: "policy_id \<Rightarrow> lid option \<Rightarrow> ('p, unit) py"

definition in_user :: "('p, 'a) py \<Rightarrow> ('p thread, 'a) py" where
  "in_user f s = (case f (users s) of (u, r) \<Rightarrow> (s\<lparr>users := u\<rparr>, r))"

section \<open>Where the code runs\<close>

definition in_trio_context :: "'p thread \<Rightarrow> bool" where
  "in_trio_context s \<longleftrightarrow> trio_task s \<noteq> None"

definition sync_loop_task_name :: string where
  "sync_loop_task_name = ''trio_asyncio sync loop task''"

definition in_trio_context_other_than_sync_loop :: "'p thread \<Rightarrow> bool" where
  "in_trio_context_other_than_sync_loop s =
     (case trio_task s of None \<Rightarrow> False | Some (name, _) \<Rightarrow> name \<noteq> sync_loop_task_name)"

text \<open>\<open>current_loop.get()\<close>, \<open>current_loop.set(loop)\<close> and \<open>task.context.get(current_loop)\<close>.\<close>

definition current_loop_get :: "'p thread \<Rightarrow> lid option" where
  "current_loop_get s = contexts s (context_now s)"

definition current_loop_set :: "lid option \<Rightarrow> 'p thread \<Rightarrow> 'p thread" where
  "current_loop_set l s = s\<lparr>contexts := (contexts s)(context_now s := l)\<rparr>"

section \<open>asyncio's default policy\<close>

text \<open>The methods of the base class, of the policy \<open>self\<close>: \<open>set_event_loop\<close>, and
  \<open>get_event_loop\<close>, which calls the object's methods \<open>mk\<close> (\<open>new_event_loop\<close>) and \<open>give\<close>
  (\<open>set_event_loop\<close>).\<close>

definition base_set_event_loop :: "policy \<Rightarrow> lid option \<Rightarrow> ('p thread, unit) py" where
  "base_set_event_loop self l s =
     py_return () (s\<lparr>set_called := (set_called s)(self := True), local_loop := (local_loop s)(self := l),
       watcher := (if watcher s self \<noteq> None \<and> main_thread s then (watcher s)(self := Some l) else watcher s)\<rparr>)"

definition base_get_event_loop ::
  "policy \<Rightarrow> ('p thread, lid) py \<Rightarrow> (lid option \<Rightarrow> ('p thread, unit) py) \<Rightarrow> ('p thread, lid option) py" where
  "base_get_event_loop self mk give =
     py_bind (\<lambda>s. if local_loop s self = None \<and> \<not> set_called s self \<and> main_thread s
                  then py_bind mk (\<lambda>l. give (Some l)) s else py_return () s)
       (\<lambda>_ s. if local_loop s self = None then py_raise (RuntimeError ''There is no current event loop in thread'') s
              else py_return (local_loop s self) s)"

text \<open>A new object of the given class.\<close>

definition make_loop :: "loop_class \<Rightarrow> ('p thread, lid) py" where
  "make_loop c s =
     py_return (next_loop s) (s\<lparr>next_loop := Suc (next_loop s), class_of := (class_of s)(next_loop s \<mapsto> c)\<rparr>)"

section \<open>TrioPolicy\<close>

definition new_event_loop :: "'p user_policy \<Rightarrow> ('p thread, lid) py" where
  "new_event_loop U s =
     (if in_trio_context_other_than_sync_loop s then py_raise (RuntimeError (''You're within a Trio environment.'' @ [CHR 0x0A] @
          ''Use 'async with open_loop()' instead.'')) s
      else case faked s of
        Some p \<Rightarrow> in_user (u_new U p) s
      | None \<Rightarrow> make_loop SyncTrioEventLoop s)"

definition set_event_loop :: "'p user_policy \<Rightarrow> lid option \<Rightarrow> ('p thread, unit) py" where
  "set_event_loop U l s =
     (if in_trio_context s then py_return () (current_loop_set l s)
      else case faked s of
        Some p \<Rightarrow> in_user (u_set U p l) s
      | None \<Rightarrow> base_set_event_loop TheTrioPolicy l s)"

definition get_event_loop :: "'p user_policy \<Rightarrow> ('p thread, lid option) py" where
  "get_event_loop U s =
     (case trio_task s of
        Some (_, c) \<Rightarrow> py_return (contexts s c) s
      | None \<Rightarrow>
          (case faked s of
             Some p \<Rightarrow> in_user (u_get U p) s
           | None \<Rightarrow> base_get_event_loop TheTrioPolicy (new_event_loop U) (set_event_loop U) s))"

definition current_event_loop :: "'p user_policy \<Rightarrow> ('p thread, lid option) py" where
  "current_event_loop U s =
     (case current_loop_get s of
        Some l \<Rightarrow> py_return (Some l) s
      | None \<Rightarrow> base_get_event_loop TheTrioPolicy (new_event_loop U) (set_event_loop U) s)"

text \<open>The child watcher: \<open>_init_watcher\<close> makes one if there is none and attaches the current
  loop; in \<open>set_child_watcher\<close>, a watcher that is not a \<open>TrioChildWatcher\<close> is closed and replaced
  by one on the same loop.\<close>

datatype watcher_arg = NoWatcher | TrioWatcher "lid option" | OtherWatcher "lid option"

definition init_watcher :: "'p thread \<Rightarrow> 'p thread" where
  "init_watcher s =
     (let s1 = (if watcher s TheTrioPolicy = None
                then s\<lparr>watcher := (watcher s)(TheTrioPolicy \<mapsto> if main_thread s then current_loop_get s else None)\<rparr> else s)
      in if watcher s1 TheTrioPolicy \<noteq> None \<and> main_thread s1
         then s1\<lparr>watcher := (watcher s1)(TheTrioPolicy \<mapsto> current_loop_get s1)\<rparr> else s1)"

definition set_child_watcher :: "watcher_arg \<Rightarrow> 'p thread \<Rightarrow> 'p thread" where
  "set_child_watcher w s =
     s\<lparr>watcher := (watcher s)(TheTrioPolicy := (case w of
        NoWatcher \<Rightarrow> None | TrioWatcher l \<Rightarrow> Some l | OtherWatcher l \<Rightarrow> Some l))\<rparr>"

section \<open>The functions put in place of asyncio's\<close>

definition new_policy_get :: "'p thread \<Rightarrow> policy" where
  "new_policy_get s =
     (if in_trio_context s then TheTrioPolicy
      else case faked s of Some p \<Rightarrow> UserPolicy p | None \<Rightarrow> OriginalPolicy)"

text \<open>What may be passed to \<open>set_event_loop_policy\<close>; \<open>py311\<close> is the test of the Python
  version.\<close>

datatype policy_arg = ATrioPolicy | NoPolicy | APolicy policy_id | NotAPolicy

definition new_policy_set :: "bool \<Rightarrow> policy_arg \<Rightarrow> ('p thread, unit) py" where
  "new_policy_set py311 p s =
     (if p = ATrioPolicy then py_raise (RuntimeError ''You can't set the Trio loop policy manually'') s
      else if in_trio_context_other_than_sync_loop s then
        py_raise (RuntimeError ''You can't change the event loop policy in Trio context'') s
      else case p of
        NotAPolicy \<Rightarrow> py_raise (if py311 then TypeError else AssertionError) s
      | APolicy i \<Rightarrow> py_return () (s\<lparr>faked := Some i\<rparr>)
      | _ \<Rightarrow> py_return () (s\<lparr>faked := None\<rparr>))"

definition new_run_get :: "'p thread \<Rightarrow> lid option" where
  "new_run_get s = (case trio_task s of Some (_, c) \<Rightarrow> contexts s c | None \<Rightarrow> c_running s)"

definition new_run_get_or_throw :: "('p thread, lid) py" where
  "new_run_get_or_throw s =
     (case new_run_get s of None \<Rightarrow> py_raise (RuntimeError ''no running event loop'') s
      | Some l \<Rightarrow> py_return l s)"

definition new_loop_get :: "'p user_policy \<Rightarrow> ('p thread, lid option) py" where
  "new_loop_get U s =
     (case new_run_get s of Some l \<Rightarrow> py_return (Some l) s | None \<Rightarrow> get_event_loop U s)"

definition new_loop_set :: "'p user_policy \<Rightarrow> lid option \<Rightarrow> ('p thread, unit) py" where
  "new_loop_set U l = set_event_loop U l"

definition new_loop_new :: "'p user_policy \<Rightarrow> ('p thread, lid) py" where
  "new_loop_new U = new_event_loop U"

text \<open>\<open>tasks_of\<close> is asyncio's own \<open>current_task\<close>.\<close>

definition new_current_task :: "(lid option \<Rightarrow> 't) \<Rightarrow> lid option \<Rightarrow> 'p thread \<Rightarrow> 't" where
  "new_current_task tasks_of l s = tasks_of (case l of Some _ \<Rightarrow> l | None \<Rightarrow> new_run_get s)"

text \<open>The child of a \<open>fork\<close>.\<close>

definition clear_state_after_fork :: "'p thread \<Rightarrow> 'p thread" where
  "clear_state_after_fork s =
     (if in_trio_context s then current_loop_set None (s\<lparr>trio_task := None\<rparr>) else s)"

text \<open>\<open>_running_loop\<close>, which the module's \<open>run_aio_coroutine\<close>, \<open>run_trio\<close> and
  \<open>run_trio_task\<close> use.\<close>

definition running_loop_or_raise :: "('p thread, lid) py" where
  "running_loop_or_raise s =
     (case current_loop_get s of
        None \<Rightarrow> py_raise (RuntimeError ''You are not within a trio_asyncio loop'') s
      | Some l \<Rightarrow> py_return l s)"

section \<open>Properties\<close>

text \<open>A thread outside Trio with nothing set, and users' policies that answer with their own
  number.\<close>

definition plain_thread :: "nat thread" where
  "plain_thread =
     \<lparr>trio_task = None, contexts = (\<lambda>_. None), context_now = 0, faked = None, local_loop = (\<lambda>_. None),
      set_called = (\<lambda>_. False), c_running = None, main_thread = True, watcher = (\<lambda>_. None), next_loop = 0,
      class_of = (\<lambda>_. None), users = 0\<rparr>"

definition counting :: "nat user_policy" where
  "counting =
     \<lparr>u_new = (\<lambda>p u. (Suc u, Inr (100 * p + u))), u_get = (\<lambda>p u. (u, Inr (Some p))),
      u_set = (\<lambda>p l u. (u, Inr ()))\<rparr>"

lemma trio_context_cases:
  obtains (outside) "\<not> in_trio_context s" "\<not> in_trio_context_other_than_sync_loop s" "trio_task s = None"
  | (inside) name c where "in_trio_context s" "trio_task s = Some (name, c)"
      "in_trio_context_other_than_sync_loop s = (name \<noteq> sync_loop_task_name)"
  by (cases "trio_task s")
    (auto simp: in_trio_context_def in_trio_context_other_than_sync_loop_def)

text \<open>Setting and getting agree: in the context of a Trio task, and in a thread outside Trio
  without a user policy, the loop given to \<open>asyncio.set_event_loop\<close> is the one that
  \<open>asyncio.get_event_loop\<close> returns; in a Trio task it is also the running loop, and no other
  context and no thread-wide setting is touched; outside, a \<open>None\<close> is never replaced by a loop
  made behind the caller's back.\<close>

theorem set_get_event_loop:
  assumes "set_event_loop U l s = (s', r)"
    and "case trio_task s of Some (_, c) \<Rightarrow> context_now s = c | None \<Rightarrow> faked s = None \<and> c_running s = None"
  shows "r = Inr () \<and>
    new_loop_get U s' = (s', if l = None \<and> trio_task s = None
      then Inl (RuntimeError ''There is no current event loop in thread'') else Inr l) \<and>
    (case trio_task s of
       Some (_, c) \<Rightarrow> new_run_get s' = l \<and> s' = s\<lparr>contexts := (contexts s)(c := l)\<rparr>
     | None \<Rightarrow> contexts s' = contexts s \<and> new_run_get s' = None)"
proof (cases s rule: trio_context_cases)
  case outside
  then have "s' = fst (base_set_event_loop TheTrioPolicy l s)" "r = Inr ()"
    using assms by (simp_all add: set_event_loop_def base_set_event_loop_def)
  then show ?thesis
    using assms(2) outside
    by (simp add: new_loop_get_def new_run_get_def get_event_loop_def base_get_event_loop_def base_set_event_loop_def
        py_bind_def)
next
  case (inside name c)
  then show ?thesis
    using assms
    by (auto simp: set_event_loop_def current_loop_set_def new_loop_get_def new_run_get_def get_event_loop_def
        split: option.split)
qed

theorem set_get_event_loop_witness:
  "snd (new_loop_get counting (fst (set_event_loop counting (Some 4) plain_thread))) = Inr (Some 4) \<and>
   snd (new_loop_get counting (fst (set_event_loop counting (Some 4)
     (plain_thread\<lparr>trio_task := Some (''main'', 0)\<rparr>)))) = Inr (Some 4)"
proof -
  obtain s r where a: "set_event_loop counting (Some 4) plain_thread = (s, r)" by fastforce
  obtain t q where b: "set_event_loop counting (Some 4) (plain_thread\<lparr>trio_task := Some (''main'', 0)\<rparr>) = (t, q)"
    by fastforce
  have "snd (new_loop_get counting s) = Inr (Some 4)"
    using set_get_event_loop [OF a] by (simp add: plain_thread_def)
  moreover have "snd (new_loop_get counting t) = Inr (Some 4)"
    using set_get_event_loop [OF b, THEN conjunct2, THEN conjunct1] by (simp add: plain_thread_def)
  ultimately show ?thesis by (simp only: a b fst_conv simp_thms)
qed

text \<open>Who answers for the event loop: inside a Trio task the policy is Trio's and no loop can
  be made nor the policy changed, except in the task of a sync loop; outside, a user's policy, once
  set, is reported and gets all three calls, and before that the original policy is reported, while
  a new loop is a fresh sync loop. Trio's policy itself can never be set.\<close>

theorem policy_dispatch:
  "new_policy_set v ATrioPolicy s = (s, Inl (RuntimeError ''You can't set the Trio loop policy manually'')) \<and>
   (case trio_task s of
      Some (name, c) \<Rightarrow>
        new_policy_get s = TheTrioPolicy \<and> get_event_loop U s = (s, Inr (contexts s c)) \<and>
        (name \<noteq> sync_loop_task_name \<longrightarrow>
          (\<exists>m. new_loop_new U s = (s, Inl (RuntimeError m))) \<and>
          (\<exists>m. new_policy_set v (APolicy p) s = (s, Inl (RuntimeError m))))
    | None \<Rightarrow>
        (case new_policy_set v (APolicy p) s of (s1, r) \<Rightarrow>
           r = Inr () \<and> new_policy_get s1 = UserPolicy p \<and> new_loop_new U s1 = in_user (u_new U p) s1 \<and>
           get_event_loop U s1 = in_user (u_get U p) s1 \<and> new_loop_set U l s1 = in_user (u_set U p l) s1) \<and>
        (case new_policy_set v NoPolicy s of (s1, r) \<Rightarrow>
           r = Inr () \<and> new_policy_get s1 = OriginalPolicy \<and>
           new_loop_new U s1 = make_loop SyncTrioEventLoop s1))"
  by (cases s rule: trio_context_cases)
    (auto simp: new_policy_set_def new_policy_get_def get_event_loop_def new_loop_new_def new_loop_set_def
      new_event_loop_def set_event_loop_def in_trio_context_def in_trio_context_other_than_sync_loop_def)

theorem policy_dispatch_witness:
  "new_policy_get (fst (new_policy_set True (APolicy 3) plain_thread)) = UserPolicy 3 \<and>
   (\<exists>m. snd (new_loop_new counting (plain_thread\<lparr>trio_task := Some (''main'', 0)\<rparr>)) = Inl (RuntimeError m))"
proof -
  have "new_policy_get (fst (new_policy_set True (APolicy 3) plain_thread)) = UserPolicy 3"
    using policy_dispatch [where v = True and s = plain_thread and p = 3 and U = counting and l = None]
    by (simp add: plain_thread_def case_prod_beta)
  moreover have "\<exists>m. new_loop_new counting (plain_thread\<lparr>trio_task := Some (''main'', 0)\<rparr>) =
      (plain_thread\<lparr>trio_task := Some (''main'', 0)\<rparr>, Inl (RuntimeError m))"
    using policy_dispatch [where v = True and s = "plain_thread\<lparr>trio_task := Some (''main'', 0)\<rparr>" and p = 3
        and U = counting and l = None]
    by (simp add: sync_loop_task_name_def)
  ultimately show ?thesis by auto
qed

text \<open>A forked child is outside Trio and has no loop.\<close>

lemma fork_leaves_trio:
  "in_trio_context s \<Longrightarrow> \<not> in_trio_context (clear_state_after_fork s) \<and> current_loop_get (clear_state_after_fork s) = None"
  by (simp add: clear_state_after_fork_def in_trio_context_def current_loop_get_def current_loop_set_def)

end
