(* ===== verification/Adapter.thy ===== *)
theory Adapter
  imports Policy
begin

text \<open>
  The facade of \<open>_adapter.py\<close>: the two wrapper classes, as the request each use of a wrapper
  makes of its loop, and \<open>allow_asyncio\<close>, which drives a coroutine that mixes Trio's traps with
  asyncio's futures.
\<close>

section \<open>The wrappers\<close>

text \<open>A wrapped object: which special methods it has. A wrapper holds it with the arguments and
  the loop it was given, if any.\<close>

record pyobj =
  obj_id :: nat
  has_await :: bool
  has_aenter :: bool
  has_aexit :: bool
  has_aiter :: bool

record wrapper =
  proc :: pyobj
  args :: "nat list"
  given_loop :: "lid option"

text \<open>The coroutines and functions the wrappers hand over: \<open>_call_defer(proc, *args)\<close>, the object
  itself, or a bound special method (called, or to be called with arguments).\<close>

datatype job =
    CallDefer pyobj "nat list"
  | TheObject pyobj
  | CallOf pyobj "nat list"
  | Aenter pyobj
  | Aexit pyobj "nat list"

datatype request =
    RunAioCoroutine lid job
  | TrioAsFuture lid job
  | RunAioGenerator "lid option" pyobj
  | RunTrioGenerator "lid option" pyobj

text \<open>The \<open>loop\<close> property: lazily, the context's loop; a method call on \<open>None\<close> fails.\<close>

definition wrapper_loop :: "wrapper \<Rightarrow> 'p thread \<Rightarrow> lid option" where
  "wrapper_loop w s = (case given_loop w of Some l \<Rightarrow> Some l | None \<Rightarrow> current_loop_get s)"

definition on_loop :: "(lid \<Rightarrow> job \<Rightarrow> request) \<Rightarrow> lid option \<Rightarrow> job \<Rightarrow> exn + request" where
  "on_loop f l j = (case l of None \<Rightarrow> Inl AttributeError | Some l \<Rightarrow> Inr (f l j))"

definition aio_as_trio :: "pyobj \<Rightarrow> lid option \<Rightarrow> wrapper" where
  "aio_as_trio p l = \<lparr>proc = p, args = [], given_loop = l\<rparr>"

text \<open>\<open>__get__\<close>: the arguments a call through an instance, or through the class, starts with.\<close>

definition wrapper_get :: "nat option \<Rightarrow> nat \<Rightarrow> nat list \<Rightarrow> nat list" where
  "wrapper_get obj cls xs = (case obj of None \<Rightarrow> cls # xs | Some self \<Rightarrow> self # xs)"

definition aio_call :: "wrapper \<Rightarrow> nat list \<Rightarrow> 'p thread \<Rightarrow> exn + request" where
  "aio_call w xs s =
     (if args w \<noteq> [] then Inl (RuntimeError (''Call 'aio_as_trio(proc)(*args)', not 'aio_as_trio(proc, *args)'' @ [CHR 0x27]))
      else on_loop RunAioCoroutine (wrapper_loop w s) (CallDefer (proc w) xs))"

definition aio_await :: "wrapper \<Rightarrow> 'p thread \<Rightarrow> exn + request" where
  "aio_await w s =
     (if \<not> has_await (proc w) then on_loop RunAioCoroutine (wrapper_loop w s) (CallDefer (proc w) (args w))
      else if args w \<noteq> [] then Inl (RuntimeError ''You can't supply arguments to a coroutine'')
      else on_loop RunAioCoroutine (wrapper_loop w s) (TheObject (proc w)))"

definition aio_aenter :: "wrapper \<Rightarrow> 'p thread \<Rightarrow> exn + request" where
  "aio_aenter w s =
     (if \<not> has_aenter (proc w) \<or> args w \<noteq> [] then
        Inl (RuntimeError (''Call 'aio_as_trio(ctxfactory(*args))', not 'aio_as_trio(ctxfactory, *args)'' @ [CHR 0x27]))
      else on_loop RunAioCoroutine (wrapper_loop w s) (Aenter (proc w)))"

definition aio_aexit :: "wrapper \<Rightarrow> nat list \<Rightarrow> 'p thread \<Rightarrow> exn + request" where
  "aio_aexit w tb s =
     (if \<not> has_aexit (proc w) then Inl AttributeError
      else on_loop RunAioCoroutine (wrapper_loop w s) (Aexit (proc w) tb))"

definition aio_aiter :: "wrapper \<Rightarrow> 'p thread \<Rightarrow> exn + request" where
  "aio_aiter w s =
     (if \<not> has_aiter (proc w) \<or> args w \<noteq> [] then
        Inl (RuntimeError (''Call 'aio_as_trio(gen(*args))', not 'aio_as_trio(gen, *args)'' @ [CHR 0x27]))
      else Inr (RunAioGenerator (wrapper_loop w s) (proc w)))"

text \<open>The wrapper for asyncio, which holds no arguments. A Trio function with keyword
  arguments is wrapped in \<open>partial\<close>, which changes nothing else.\<close>

record trio_wrapper =
  trio_proc :: pyobj
  trio_given_loop :: "lid option"

definition trio_as_aio :: "pyobj \<Rightarrow> lid option \<Rightarrow> trio_wrapper" where
  "trio_as_aio p l = \<lparr>trio_proc = p, trio_given_loop = l\<rparr>"

definition trio_wrapper_loop :: "trio_wrapper \<Rightarrow> 'p thread \<Rightarrow> lid option" where
  "trio_wrapper_loop w s = (case trio_given_loop w of None \<Rightarrow> current_loop_get s | Some l \<Rightarrow> Some l)"

definition trio_wrapper_get :: "nat option \<Rightarrow> nat \<Rightarrow> nat list \<Rightarrow> nat list" where
  "trio_wrapper_get obj cls xs = (case obj of None \<Rightarrow> cls # xs | Some self \<Rightarrow> self # xs)"

definition trio_call :: "trio_wrapper \<Rightarrow> nat list \<Rightarrow> 'p thread \<Rightarrow> exn + request" where
  "trio_call w xs s = on_loop TrioAsFuture (trio_wrapper_loop w s) (CallOf (trio_proc w) xs)"

definition trio_aenter :: "trio_wrapper \<Rightarrow> 'p thread \<Rightarrow> exn + request" where
  "trio_aenter w s =
     (if \<not> has_aenter (trio_proc w) then
        Inl (RuntimeError (''Call 'trio_as_aio(ctxfactory(*args))', not 'trio_as_aio(ctxfactory, *args)'' @ [CHR 0x27]))
      else on_loop TrioAsFuture (trio_wrapper_loop w s) (Aenter (trio_proc w)))"

definition trio_aexit :: "trio_wrapper \<Rightarrow> nat list \<Rightarrow> 'p thread \<Rightarrow> exn + request" where
  "trio_aexit w tb s =
     (if \<not> has_aexit (trio_proc w) then Inl AttributeError
      else on_loop TrioAsFuture (trio_wrapper_loop w s) (Aexit (trio_proc w) tb))"

definition trio_aiter :: "trio_wrapper \<Rightarrow> 'p thread \<Rightarrow> exn + request" where
  "trio_aiter w s =
     (if \<not> has_aiter (trio_proc w) then
        Inl (RuntimeError (''Call 'trio_as_aio(gen(*args))', not 'trio_as_aio(gen, *args)'' @ [CHR 0x27]))
      else Inr (RunTrioGenerator (trio_wrapper_loop w s) (trio_proc w)))"

section \<open>allow_asyncio\<close>

text \<open>
  A coroutine, by what it does each time it is resumed: it returns, raises, or yields an
  asyncio future or a trap of Trio and goes on with the value sent or the exception thrown.
\<close>

datatype yielded = AioFuture nat | TrioTrap nat

datatype coro = Return nat | Raise exn | Yield yielded "exn + nat \<Rightarrow> coro"

text \<open>\<open>yield from c\<close>, going on with the outcome of \<open>c\<close>.\<close>

primrec yield_from :: "coro \<Rightarrow> (exn + nat \<Rightarrow> coro) \<Rightarrow> coro" where
  "yield_from (Return v) k = k (Inr v)"
| "yield_from (Raise e) k = k (Inl e)"
| "yield_from (Yield y f) k = Yield y (\<lambda>r. yield_from (f r) k)"

text \<open>
  The loop of \<open>_allow_asyncio\<close>; \<open>wait\<close> is the coroutine \<open>run_aio_future(f)\<close>. Whatever the
  wait or the trap ends with is the next value sent or exception thrown.
\<close>

primrec allow_loop :: "(nat \<Rightarrow> coro) \<Rightarrow> coro \<Rightarrow> coro" where
  "allow_loop wait (Return v) = Return v"
| "allow_loop wait (Raise e) = Raise e"
| "allow_loop wait (Yield y k) =
     yield_from (case y of AioFuture f \<Rightarrow> wait f | TrioTrap t \<Rightarrow> Yield (TrioTrap t) (\<lambda>r. case r of Inl e \<Rightarrow> Raise e | Inr v \<Rightarrow> Return v))
       (\<lambda>r. allow_loop wait (k r))"

text \<open>\<open>fn(*args)\<close> is a future or a coroutine.\<close>

datatype awaitable = Fut nat | Coro coro

definition allow_asyncio_inner :: "(nat \<Rightarrow> coro) \<Rightarrow> awaitable \<Rightarrow> coro" where
  "allow_asyncio_inner wait x = (case x of Fut f \<Rightarrow> wait f | Coro c \<Rightarrow> allow_loop wait c)"

text \<open>\<open>await x\<close>: a future yields itself until it is done.\<close>

definition await_obj :: "awaitable \<Rightarrow> coro" where
  "await_obj x = (case x of Fut f \<Rightarrow> Yield (AioFuture f) (\<lambda>r. case r of Inl e \<Rightarrow> Raise e | Inr v \<Rightarrow> Return v)
     | Coro c \<Rightarrow> c)"

definition allow_asyncio :: "(nat \<Rightarrow> coro) \<Rightarrow> bool \<Rightarrow> awaitable \<Rightarrow> coro" where
  "allow_asyncio wait shim_running x = (if shim_running then await_obj x else allow_asyncio_inner wait x)"

text \<open>Running a coroutine: \<open>h\<close> serves what is yielded, in a state of its own.\<close>

primrec drive :: "(yielded \<Rightarrow> 's \<Rightarrow> 's \<times> (exn + nat)) \<Rightarrow> coro \<Rightarrow> 's \<Rightarrow> 's \<times> (exn + nat)" where
  "drive h (Return v) = (\<lambda>s. (s, Inr v))"
| "drive h (Raise e) = (\<lambda>s. (s, Inl e))"
| "drive h (Yield y k) = (\<lambda>s. case h y s of (s', r) \<Rightarrow> drive h (k r) s')"

text \<open>A server that knows futures as well: it waits for them.\<close>

definition serve_futures ::
  "(nat \<Rightarrow> coro) \<Rightarrow> (yielded \<Rightarrow> 's \<Rightarrow> 's \<times> (exn + nat)) \<Rightarrow> yielded \<Rightarrow> 's \<Rightarrow> 's \<times> (exn + nat)" where
  "serve_futures wait h y = (case y of AioFuture f \<Rightarrow> drive h (wait f) | TrioTrap t \<Rightarrow> h (TrioTrap t))"

text \<open>No future reaches Trio.\<close>

inductive only_traps :: "coro \<Rightarrow> bool" where
  "only_traps (Return v)"
| "only_traps (Raise e)"
| "(\<And>r. only_traps (k r)) \<Longrightarrow> only_traps (Yield (TrioTrap t) k)"

lemma drive_yield_from:
  "drive h (yield_from c k) s = (case drive h c s of (s', r) \<Rightarrow> drive h (k r) s')"
  by (induction c arbitrary: s) (simp_all split: prod.split)

lemma drive_allow_loop: "drive h (allow_loop wait c) s = drive (serve_futures wait h) c s"
proof (induction c arbitrary: s)
  case (Yield y k)
  then show ?case
    by (cases y) (simp_all add: drive_yield_from serve_futures_def split: prod.split sum.split)
qed simp_all

lemma only_traps_yield_from: "only_traps c \<Longrightarrow> (\<And>r. only_traps (k r)) \<Longrightarrow> only_traps (yield_from c k)"
  by (induction rule: only_traps.induct) (simp_all add: only_traps.intros)

lemma only_traps_allow_loop:
  assumes "\<And>f. only_traps (wait f)"
  shows "only_traps (allow_loop wait c)"
proof (induction c)
  case (Yield y k)
  then show ?case
    by (cases y) (auto intro!: only_traps_yield_from only_traps.intros assms split: sum.split)
qed (simp_all add: only_traps.intros)

text \<open>C38: \<open>allow_asyncio\<close> is transparent: under any Trio scheduler, \<open>allow_asyncio(fn)\<close> does
  and returns exactly what \<open>await fn()\<close> would under a scheduler that also waits for asyncio
  futures by \<open>run_aio_future\<close>, exceptions thrown in at every await included; Trio itself never
  sees a future; and a nested call changes nothing.\<close>

theorem allow_asyncio_transparent:
  assumes "\<And>f. only_traps (wait f)"
  shows "drive h (allow_asyncio wait False x) s = drive (serve_futures wait h) (await_obj x) s \<and>
    only_traps (allow_asyncio wait False x) \<and>
    allow_asyncio wait False (Coro (allow_asyncio wait True x)) = allow_asyncio wait False (Coro (await_obj x))"
  using assms
  by (cases x)
    (auto simp: allow_asyncio_def allow_asyncio_inner_def await_obj_def drive_allow_loop serve_futures_def
      intro: only_traps_allow_loop split: prod.split sum.split)

text \<open>A wait that asks Trio once, and a coroutine that awaits a future and then sleeps.\<close>

definition wait_once :: "nat \<Rightarrow> coro" where
  "wait_once f = Yield (TrioTrap (100 + f)) (\<lambda>r. case r of Inl e \<Rightarrow> Raise e | Inr v \<Rightarrow> Return v)"

definition mixed :: coro where
  "mixed = Yield (AioFuture 3) (\<lambda>r. case r of
     Inl e \<Rightarrow> Return 0 | Inr v \<Rightarrow> Yield (TrioTrap v) (\<lambda>q. Return (Suc v)))"

definition logging :: "yielded \<Rightarrow> nat list \<Rightarrow> nat list \<times> (exn + nat)" where
  "logging y s = (case y of AioFuture f \<Rightarrow> (s, Inl TypeError) | TrioTrap t \<Rightarrow> (s @ [t], Inr (2 * t)))"

theorem allow_asyncio_transparent_witness:
  "drive logging (allow_asyncio wait_once False (Coro mixed)) [] = ([103, 206], Inr 207)"
proof -
  have "only_traps (wait_once f)" for f
    unfolding wait_once_def by (rule only_traps.intros) (auto intro: only_traps.intros split: sum.split)
  from allow_asyncio_transparent [OF this, where h = logging and x = "Coro mixed" and s = "[]"]
  have "drive logging (allow_asyncio wait_once False (Coro mixed)) [] =
      drive (serve_futures wait_once logging) (await_obj (Coro mixed)) []" by simp
  also have "... = ([103, 206], Inr 207)" by code_simp
  finally show ?thesis .
qed

section \<open>Which uses of a wrapper are accepted\<close>

text \<open>Without arguments held back, a wrapper accepts what its object can do; with them it only
  allows \<open>await\<close> of a function.\<close>

lemma aio_wrapper_accepts:
  assumes "wrapper_loop w s = Some l"
  shows "aio_call w xs s = Inr (RunAioCoroutine l (CallDefer (proc w) xs)) \<longleftrightarrow> args w = []"
    and "(\<exists>q. aio_await w s = Inr q) \<longleftrightarrow> \<not> (has_await (proc w) \<and> args w \<noteq> [])"
    and "aio_aenter w s = Inr (RunAioCoroutine l (Aenter (proc w))) \<longleftrightarrow> has_aenter (proc w) \<and> args w = []"
    and "aio_aiter w s = Inr (RunAioGenerator (Some l) (proc w)) \<longleftrightarrow> has_aiter (proc w) \<and> args w = []"
  using assms
  by (auto simp: aio_call_def aio_await_def aio_aenter_def aio_aiter_def on_loop_def)

end
