(* ===== verification/Services.thy ===== *)
theory Services
  imports Loop_Start
begin

text \<open>
  What \<open>BaseTrioEventLoop\<close> offers besides scheduling (\<open>_base.py\<close>): signal handlers, the
  executor, coroutines and subprocesses started from Trio, the methods it disables; and the
  child watcher of \<open>_loop.py\<close>.
\<close>

section \<open>The state\<close>

text \<open>What the process does on a signal: a disposition of before, or the loop's \<open>_handle_sig\<close>.\<close>

datatype disposition = Other nat | HandleSig

text \<open>An executor: a \<open>TrioExecutor\<close> (with \<open>_running\<close> and the limit of its limiter), or of another
  class.\<close>

record trio_executor =
  running :: bool
  limiter :: "nat option"

datatype executor = TrioExecutor trio_executor | OtherExecutor

text \<open>\<open>_signal_handlers\<close>, \<open>_orig_signals\<close>, what the process does on each signal,
  \<open>_default_executor\<close>; the fields of the child watcher attached to the loop: whether \<open>_loop\<close> is
  set, and \<open>_callbacks\<close>.\<close>

record 'q service_loop = "'q loop" +
  signal_handlers :: "int \<Rightarrow> hid option"
  orig_signals :: "int \<Rightarrow> disposition option"
  dispositions :: "int \<Rightarrow> disposition"
  default_executor :: executor
  watcher_attached :: bool
  watcher_callbacks :: "(int \<times> fid) list"

section \<open>Signals\<close>

text \<open>\<open>signal.signal\<close> is asked for the signals that \<open>can_catch\<close>, \<open>_check_signal\<close> accepts those
  that are \<open>valid\<close>; both depend on the system.\<close>

definition sigkill :: int where
  "sigkill = 9"

definition set_disposition ::
  "(int \<Rightarrow> bool) \<Rightarrow> int \<Rightarrow> disposition \<Rightarrow> (('q, 'z) service_loop_scheme, disposition) py" where
  "set_disposition can_catch sig d s =
     (if \<not> can_catch sig then py_raise OSError s
      else py_return (dispositions s sig) (s\<lparr>dispositions := (dispositions s)(sig := d)\<rparr>))"

definition add_signal_handler ::
  "(int \<Rightarrow> bool) \<Rightarrow> (int \<Rightarrow> bool) \<Rightarrow> int \<Rightarrow> callback \<Rightarrow> (('q, 'z) service_loop_scheme, unit) py" where
  "add_signal_handler valid can_catch sig cb =
     py_bind check_closed (\<lambda>_ s.
       if \<not> valid sig then py_raise ValueError s
       else if sig = sigkill then py_raise (RuntimeError ''SIGKILL cannot be caught'') s
       else case alloc_handle PlainHandle cb s of (s1, h) \<Rightarrow>
         if signal_handlers s1 sig \<noteq> None then py_raise AssertionError s1
         else py_bind (set_disposition can_catch sig HandleSig) (\<lambda>d s2.
             py_return () (s2\<lparr>orig_signals := (orig_signals s2)(sig := Some d),
                 signal_handlers := (signal_handlers s2)(sig := Some h)\<rparr>)) s1)"

definition handle_sig :: "int \<Rightarrow> (('q, 'z) service_loop_scheme, unit) py" where
  "handle_sig sig s =
     (case signal_handlers s sig of
        None \<Rightarrow> py_raise KeyError s
      | Some h \<Rightarrow> if \<not> token s then py_raise AttributeError s
                  else py_return () (s\<lparr>sync_soon := sync_soon s @ [h]\<rparr>))"

definition remove_signal_handler ::
  "(int \<Rightarrow> bool) \<Rightarrow> int \<Rightarrow> (('q, 'z) service_loop_scheme, bool) py" where
  "remove_signal_handler can_catch sig s =
     (case signal_handlers s sig of
        None \<Rightarrow> py_return False s
      | Some h \<Rightarrow>
          (let s1 = handle_cancel h (s\<lparr>signal_handlers := (signal_handlers s)(sig := None)\<rparr>)
           in case orig_signals s1 sig of
                None \<Rightarrow> py_raise KeyError s1
              | Some d \<Rightarrow>
                  py_bind (set_disposition can_catch sig d) (\<lambda>_ s2.
                    py_return True (s2\<lparr>orig_signals := (orig_signals s2)(sig := None)\<rparr>)) s1))"

text \<open>What happens to signals: handlers come and go, signals arrive.\<close>

datatype signal_op = AddSignal int callback | RemoveSignal int | Arrives int

fun signal_op_run ::
  "(int \<Rightarrow> bool) \<Rightarrow> (int \<Rightarrow> bool) \<Rightarrow> signal_op \<Rightarrow> ('q, 'z) service_loop_scheme \<Rightarrow> ('q, 'z) service_loop_scheme" where
  "signal_op_run valid can_catch (AddSignal sig cb) s = fst (add_signal_handler valid can_catch sig cb s)"
| "signal_op_run valid can_catch (RemoveSignal sig) s = fst (remove_signal_handler can_catch sig s)"
| "signal_op_run valid can_catch (Arrives sig) s =
     (if dispositions s sig = HandleSig then fst (handle_sig sig s) else s)"

section \<open>The executor\<close>

definition executor_init :: "nat option \<Rightarrow> nat option \<Rightarrow> trio_executor" where
  "executor_init l max_workers =
     \<lparr>running = True, limiter = (case l of Some n \<Rightarrow> Some n | None \<Rightarrow> max_workers)\<rparr>"

definition shutdown :: "trio_executor \<Rightarrow> trio_executor" where
  "shutdown e = e\<lparr>running := False\<rparr>"

text \<open>\<open>submit\<close>: the limit under which Trio is to run the function in a thread.\<close>

definition submit :: "trio_executor \<Rightarrow> exn + nat option" where
  "submit e = (if \<not> running e then Inl (RuntimeError ''Executor is down'') else Inr (limiter e))"

fun is_trio_executor :: "executor \<Rightarrow> bool" where
  "is_trio_executor (TrioExecutor _) = True"
| "is_trio_executor OtherExecutor = False"

text \<open>Another executor is refused, with a warning unless pytest is loaded.\<close>

definition set_default_executor ::
  "bool \<Rightarrow> executor \<Rightarrow> ('q, 'z) service_loop_scheme \<Rightarrow> ('q, 'z) service_loop_scheme \<times> bool" where
  "set_default_executor pytest e s =
     (if \<not> is_trio_executor e then (s, \<not> pytest) else (s\<lparr>default_executor := e\<rparr>, False))"

text \<open>\<open>n\<close> stands for the Trio function that calls \<open>executor.submit(func)\<close>.\<close>

definition run_in_executor ::
  "('q, 'z) service_loop_scheme methods \<Rightarrow> executor option \<Rightarrow> callback \<Rightarrow> nat \<Rightarrow>
   (('q, 'z) service_loop_scheme, fid) py" where
  "run_in_executor M e func n =
     py_bind (check_callback func) (\<lambda>_. py_bind check_closed (\<lambda>_ s.
       let e' = (case e of None \<Rightarrow> default_executor s | Some e' \<Rightarrow> e')
       in if \<not> is_trio_executor e' then py_raise AssertionError s
          else trio_as_future M (TrioProc n) s))"

section \<open>Coroutines and subprocesses\<close>

text \<open>
  \<open>run_aio_coroutine\<close> up to its wait for the task's future: \<open>ensure_future\<close> makes a task whose
  first step (\<open>step\<close>) is scheduled. The flag tells whether the coroutine was closed unused.
\<close>

definition run_aio_coroutine_begin ::
  "('q, 'z) loop_scheme methods \<Rightarrow> callback \<Rightarrow> ('q, 'z) loop_scheme \<Rightarrow>
   (('q, 'z) loop_scheme \<times> (exn + fid)) \<times> bool" where
  "run_aio_coroutine_begin M step s =
     (case py_bind check_closed (\<lambda>_ s. case alloc_future s of (s1, f) \<Rightarrow>
         py_bind (call_soon M step) (\<lambda>_. py_return f) s1) s of
        (s', Inl e) \<Rightarrow> ((s', Inl e), True)
      | (s', Inr f) \<Rightarrow> ((s', Inr f), False))"

text \<open>\<open>_make_subprocess_transport\<close>: the waiter and the Trio task \<open>child_wait\<close>; then, on an error
  of the waiter, the transport is closed and waited for, and the error raised.\<close>

record transport =
  closed_transport :: bool
  waited_transport :: bool
  exit_code :: "int option"

definition subprocess_begin ::
  "('q, 'z) loop_scheme methods \<Rightarrow> nat \<Rightarrow> (('q, 'z) loop_scheme, fid) py" where
  "subprocess_begin M child_wait s =
     (case alloc_future s of (s1, waiter) \<Rightarrow>
        py_bind (run_trio_task M (TrioProc child_wait)) (\<lambda>_. py_return waiter) s1)"

definition child_wait_end :: "exn + int \<Rightarrow> transport \<Rightarrow> transport \<times> (exn + unit)" where
  "child_wait_end r t =
     (case r of Inl e \<Rightarrow> (t, Inl e) | Inr code \<Rightarrow> (t\<lparr>exit_code := Some code\<rparr>, Inr ()))"

definition subprocess_end :: "exn + unit \<Rightarrow> transport \<Rightarrow> transport \<times> (exn + unit)" where
  "subprocess_end r t =
     (case r of
        Inl err \<Rightarrow> (t\<lparr>closed_transport := True, waited_transport := True\<rparr>, Inl err)
      | Inr _ \<Rightarrow> (t, Inr ()))"

section \<open>The child watcher\<close>

definition new_watcher :: "('q, 'z) service_loop_scheme \<Rightarrow> ('q, 'z) service_loop_scheme" where
  "new_watcher s = s\<lparr>watcher_callbacks := []\<rparr>"

text \<open>\<open>_waitpid\<close> when its wait for the child has ended with \<open>r\<close>: \<open>callback\<close> gets the process
  and its return code.\<close>

definition waitpid_end :: "(int \<Rightarrow> int \<Rightarrow> ('s, unit) py) \<Rightarrow> int \<Rightarrow> exn + int \<Rightarrow> ('s, unit) py" where
  "waitpid_end callback pid r = (case r of Inl e \<Rightarrow> py_raise e | Inr code \<Rightarrow> callback pid code)"

definition attach_loop :: "bool \<Rightarrow> ('q, 'z) service_loop_scheme \<Rightarrow> ('q, 'z) service_loop_scheme" where
  "attach_loop b s = s\<lparr>watcher_attached := b\<rparr>"

definition add_child_handler ::
  "('q, 'z) service_loop_scheme methods \<Rightarrow> int \<Rightarrow> nat \<Rightarrow> (('q, 'z) service_loop_scheme, unit) py" where
  "add_child_handler M pid waitpid s =
     (if \<not> watcher_attached s then py_raise AttributeError s
      else py_bind (trio_as_future M (TrioProc waitpid)) (\<lambda>f s'.
        py_return () (s'\<lparr>watcher_callbacks := AList.update pid f (watcher_callbacks s')\<rparr>)) s)"

definition remove_child_handler ::
  "('q, 'z) service_loop_scheme methods \<Rightarrow> int \<Rightarrow> (('q, 'z) service_loop_scheme, bool) py" where
  "remove_child_handler M pid s =
     (case map_of (watcher_callbacks s) pid of
        None \<Rightarrow> py_return False s
      | Some f \<Rightarrow>
          py_bind (fut_cancel M f None) (\<lambda>_. py_return True)
            (s\<lparr>watcher_callbacks := AList.delete pid (watcher_callbacks s)\<rparr>))"

fun close_handlers ::
  "('q, 'z) service_loop_scheme methods \<Rightarrow> int list \<Rightarrow> (('q, 'z) service_loop_scheme, unit) py" where
  "close_handlers M [] = py_return ()"
| "close_handlers M (pid # pids) =
     py_bind (remove_child_handler M pid) (\<lambda>_. close_handlers M pids)"

definition watcher_close :: "('q, 'z) service_loop_scheme methods \<Rightarrow> (('q, 'z) service_loop_scheme, unit) py" where
  "watcher_close M s =
     py_bind (close_handlers M (map fst (watcher_callbacks s)))
       (\<lambda>_ s'. py_return () (attach_loop False s')) s"

text \<open>As a context manager the watcher closes itself at the end.\<close>

definition watcher_exit :: "('q, 'z) service_loop_scheme methods \<Rightarrow> (('q, 'z) service_loop_scheme, unit) py" where
  "watcher_exit M = watcher_close M"

section \<open>What is disabled\<close>

text \<open>The methods of asyncio's loop that may not be used, with what they raise.\<close>

datatype disabled_method =
    AddCallback
  | AddCallbackSignalsafe
  | HandleSignal
  | RunForever
  | RunUntilComplete
  | Stop
  | Aenter
  | Aexit
  | Enter
  | Exit

fun disabled_message :: "disabled_method \<Rightarrow> string" where
  "disabled_message AddCallback = ''_add_callback() should have been superseded''"
| "disabled_message AddCallbackSignalsafe = ''_add_callback_signalsafe() should have been superseded''"
| "disabled_message HandleSignal = ''_handle_signal() should have been superseded''"
| "disabled_message RunForever = ''This is not a sync loop''"
| "disabled_message RunUntilComplete = ''This is not a sync loop''"
| "disabled_message Stop = ''override me''"
| "disabled_message Aenter = ''You need to use 'async with open_loop()'.''"
| "disabled_message Aexit = ''You need to use 'async with open_loop()'.''"
| "disabled_message Enter = ''You need to use a sync loop, or 'async with open_loop()'.''"
| "disabled_message Exit = ''You need to use a sync loop, or 'async with open_loop()'.''"

definition disabled :: "disabled_method \<Rightarrow> ('s, unit) py" where
  "disabled m = py_raise (RuntimeError (disabled_message m))"

section \<open>The watcher when it is closed\<close>

lemma watcher_fields_of_more:
  "loop.more s' = loop.more s \<Longrightarrow> watcher_callbacks s' = watcher_callbacks s"
  by (cases s; cases s') simp

text \<open>Nothing of the watcher is left after \<open>close\<close> returned, and every handler was asked to
  cancel.\<close>

lemma close_handlers_forget:
  fixes M :: "('q, 'z) service_loop_scheme methods"
  assumes lm: "loop_methods C msgs cap (=) M" and "close_handlers M pids s = (s', Inr ())"
  shows "watcher_callbacks s' = filter (\<lambda>x. fst x \<notin> set pids) (watcher_callbacks s)"
  using assms(2)
proof (induction pids arbitrary: s)
  case Nil
  then show ?case by simp
next
  case (Cons pid pids)
  obtain s1 r where r: "remove_child_handler M pid s = (s1, r)" by fastforce
  then obtain ok where ok: "r = Inr ok" "close_handlers M pids s1 = (s', Inr ())"
    using Cons.prems by (auto simp: py_bind_def split: sum.splits)
  have "watcher_callbacks s1 = filter (\<lambda>x. fst x \<noteq> pid) (watcher_callbacks s)"
  proof (cases "map_of (watcher_callbacks s) pid")
    case None
    then have "filter (\<lambda>x. fst x \<noteq> pid) (watcher_callbacks s) = watcher_callbacks s"
      by (auto simp: filter_id_conv map_of_eq_None_iff)
    then show ?thesis using r None by (simp add: remove_child_handler_def)
  next
    case (Some f)
    define s0 where "s0 = s\<lparr>watcher_callbacks := AList.delete pid (watcher_callbacks s)\<rparr>"
    have "s1 = fst (fut_cancel M f None s0)"
      using r Some ok by (auto simp: s0_def remove_child_handler_def py_bind_def split: prod.splits sum.splits)
    then have "(=)\<^sup>*\<^sup>* (loop.more s0) (loop.more s1)"
      using pre_frame_more [OF api_frame_pre [OF loop_methods.fut_cancel_frame [OF lm]], of s0 f None] by simp
    then have "loop.more s1 = loop.more s0" by (induction rule: rtranclp_induct) simp_all
    then have "watcher_callbacks s1 = watcher_callbacks s0" by (rule watcher_fields_of_more)
    then show ?thesis by (simp add: s0_def AList.delete_eq) (auto intro: filter_cong)
  qed
  then show ?case using Cons.IH [OF ok(2)] by (simp add: conj_commute)
qed

lemma watcher_close_forgets:
  fixes M :: "('q, 'z) service_loop_scheme methods"
  assumes "loop_methods C msgs cap (=) M" and "watcher_exit M s = (s', Inr ())"
  shows "watcher_callbacks s' = [] \<and> \<not> watcher_attached s'"
proof -
  obtain s1 where c: "close_handlers M (map fst (watcher_callbacks s)) s = (s1, Inr ())" "s' = attach_loop False s1"
    using assms(2) by (auto simp: watcher_exit_def watcher_close_def py_bind_def split: prod.splits sum.splits)
  have "filter (\<lambda>x. fst x \<notin> set (map fst (watcher_callbacks s))) (watcher_callbacks s) = []"
    by (simp add: filter_empty_conv)
  then show ?thesis using close_handlers_forget [OF assms(1) c(1)] c(2) by (simp add: attach_loop_def)
qed

section \<open>Signals: what is restored\<close>

text \<open>The tables agree: a signal is handled exactly if its disposition is the loop's, and the
  disposition it had before, \<open>orig\<close>, is kept.\<close>

definition signal_inv :: "(int \<Rightarrow> disposition) \<Rightarrow> ('q, 'z) service_loop_scheme \<Rightarrow> bool" where
  "signal_inv orig s \<longleftrightarrow>
     (\<forall>sig. case signal_handlers s sig of
        None \<Rightarrow> orig_signals s sig = None \<and> dispositions s sig = orig sig
      | Some h \<Rightarrow> orig_signals s sig = Some (orig sig) \<and> dispositions s sig = HandleSig)"

lemma signal_invD:
  "signal_inv orig s \<Longrightarrow> signal_handlers s sig = None \<Longrightarrow> orig_signals s sig = None \<and> dispositions s sig = orig sig"
  "signal_inv orig s \<Longrightarrow> signal_handlers s sig = Some h \<Longrightarrow>
     orig_signals s sig = Some (orig sig) \<and> dispositions s sig = HandleSig"
  unfolding signal_inv_def by (drule spec [of _ sig], simp)+

lemma signal_inv_upd:
  assumes "signal_inv orig s" and "signal_handlers s' = (signal_handlers s)(sig := h)"
    and "orig_signals s' = (orig_signals s)(sig := d)" and "dispositions s' = (dispositions s)(sig := x)"
    and "h = None \<and> d = None \<and> x = orig sig \<or> h \<noteq> None \<and> d = Some (orig sig) \<and> x = HandleSig"
  shows "signal_inv orig s'"
  unfolding signal_inv_def
proof
  fix g
  show "case signal_handlers s' g of
      None \<Rightarrow> orig_signals s' g = None \<and> dispositions s' g = orig g
    | Some h \<Rightarrow> orig_signals s' g = Some (orig g) \<and> dispositions s' g = HandleSig"
    using assms(2-5) signal_invD [OF assms(1), of g] by (cases "g = sig") (auto split: option.split)
qed

lemma signal_inv_same:
  "signal_inv orig s \<Longrightarrow> signal_handlers s' = signal_handlers s \<Longrightarrow> orig_signals s' = orig_signals s \<Longrightarrow>
   dispositions s' = dispositions s \<Longrightarrow> signal_inv orig s'"
  unfolding signal_inv_def by metis

lemma add_signal_inv:
  assumes "signal_inv orig s"
  shows "signal_inv orig (fst (add_signal_handler valid can_catch sig cb s))"
proof -
  obtain s1 h where a: "alloc_handle PlainHandle cb s = (s1, h)" by fastforce
  then have s1: "signal_handlers s1 = signal_handlers s" "orig_signals s1 = orig_signals s"
    "dispositions s1 = dispositions s" by (auto simp: alloc_handle_def)
  have inv: "signal_inv orig s1" using signal_inv_same [OF assms s1] .
  show ?thesis
  proof (cases "signal_handlers s sig")
    case None
    let ?s = "s1\<lparr>dispositions := (dispositions s1)(sig := HandleSig), orig_signals := (orig_signals s1)(sig := Some (dispositions s1 sig)),
        signal_handlers := (signal_handlers s1)(sig := Some h)\<rparr>"
    have "signal_inv orig ?s"
      by (rule signal_inv_upd [OF inv, where sig = sig and h = "Some h" and d = "Some (dispositions s1 sig)" and x = HandleSig])
        (use signal_invD(1) [OF assms None] s1 in simp_all)
    then show ?thesis using assms inv None s1
      by (simp add: add_signal_handler_def py_bind_def check_closed_def a set_disposition_def)
  next
    case (Some x)
    then show ?thesis using assms inv s1
      by (simp add: add_signal_handler_def py_bind_def check_closed_def a)
  qed
qed

lemma handle_cancel_service:
  "signal_handlers (handle_cancel h s) = signal_handlers s" "orig_signals (handle_cancel h s) = orig_signals s"
  "dispositions (handle_cancel h s) = dispositions s"
  "hcancelled (handles (handle_cancel h s) h)"
  by (simp_all add: handle_cancel_def upd_handle_def)

lemma remove_signal_effect:
  assumes "signal_inv orig s" and "signal_handlers s sig = Some h" and "can_catch sig"
  shows "\<exists>s'. remove_signal_handler can_catch sig s = (s', Inr True) \<and> signal_inv orig s' \<and>
    signal_handlers s' sig = None \<and> dispositions s' sig = orig sig \<and> hcancelled (handles s' h)"
proof -
  let ?s1 = "handle_cancel h (s\<lparr>signal_handlers := (signal_handlers s)(sig := None)\<rparr>)"
  let ?s2 = "?s1\<lparr>dispositions := (dispositions ?s1)(sig := orig sig), orig_signals := (orig_signals ?s1)(sig := None)\<rparr>"
  have "signal_inv orig ?s2"
    by (rule signal_inv_upd [OF assms(1), where sig = sig and h = None and d = None and x = "orig sig"])
      (simp_all add: handle_cancel_service)
  moreover have "remove_signal_handler can_catch sig s = (?s2, Inr True)"
    using assms(2,3) signal_invD(2) [OF assms(1,2)]
    by (simp add: remove_signal_handler_def handle_cancel_service py_bind_def set_disposition_def)
  ultimately show ?thesis by (simp add: handle_cancel_service)
qed

lemma signal_op_inv:
  assumes "signal_inv orig s" and "\<forall>sig. signal_handlers s sig \<noteq> None \<longrightarrow> can_catch sig"
  shows "signal_inv orig (signal_op_run valid can_catch op s) \<and>
    (\<forall>sig. signal_handlers (signal_op_run valid can_catch op s) sig \<noteq> None \<longrightarrow> can_catch sig)"
proof (cases op)
  case (AddSignal sig cb)
  then show ?thesis
    using assms add_signal_inv [OF assms(1)]
    by (auto simp: add_signal_handler_def py_bind_def check_closed_def alloc_handle_def set_disposition_def)
next
  case (RemoveSignal sig)
  show ?thesis
  proof (cases "signal_handlers s sig")
    case None
    then show ?thesis using assms RemoveSignal by (simp add: remove_signal_handler_def)
  next
    case (Some h)
    obtain s' where "remove_signal_handler can_catch sig s = (s', Inr True)" "signal_inv orig s'"
      using remove_signal_effect [OF assms(1) Some] assms(2) Some by blast
    moreover from this(1) have "signal_handlers s' = (signal_handlers s)(sig := None)"
      using Some by (auto simp: remove_signal_handler_def Let_def handle_cancel_service py_bind_def set_disposition_def
          split: option.splits if_splits)
    ultimately show ?thesis using assms(2) RemoveSignal by simp
  qed
next
  case (Arrives sig)
  then show ?thesis using assms
    by (auto simp: handle_sig_def split: option.split elim!: signal_inv_same)
qed

lemma signal_ops_inv:
  assumes "signal_inv orig s" and "\<forall>sig. signal_handlers s sig \<noteq> None \<longrightarrow> can_catch sig"
  shows "signal_inv orig (fold (signal_op_run valid can_catch) ops s) \<and>
    (\<forall>sig. signal_handlers (fold (signal_op_run valid can_catch) ops s) sig \<noteq> None \<longrightarrow> can_catch sig)"
  using assms
proof (induction ops arbitrary: s)
  case (Cons op ops)
  note step = signal_op_inv [OF Cons.prems, of valid op]
  show ?case using Cons.IH [OF conjunct1 [OF step] conjunct2 [OF step]] by simp
qed simp

text \<open>C39: signal handlers are undone: however handlers were added and removed and signals
  arrived since a state with none, \<open>remove_signal_handler\<close> of a signal that is handled returns
  \<open>True\<close>, gives the signal the disposition it had at first, and cancels the handle, so that a
  delivery still under way does not run it; for any other signal it returns \<open>False\<close>, and its
  disposition is that of the start already.\<close>

theorem signal_handlers_restored:
  assumes "\<And>sig. signal_handlers s0 sig = None \<and> orig_signals s0 sig = None"
    and "s = fold (signal_op_run valid can_catch) ops s0" and "remove_signal_handler can_catch sig s = (s', r)"
  shows "dispositions s' sig = dispositions s0 sig \<and> signal_handlers s' sig = None \<and>
    (case signal_handlers s sig of
       None \<Rightarrow> r = Inr False \<and> s' = s
     | Some h \<Rightarrow> r = Inr True \<and> hcancelled (handles s' h))"
proof -
  have "signal_inv (dispositions s0) s0" using assms(1) by (simp add: signal_inv_def)
  then have inv: "signal_inv (dispositions s0) s" "\<forall>sig. signal_handlers s sig \<noteq> None \<longrightarrow> can_catch sig"
    using signal_ops_inv [of "dispositions s0" s0 can_catch valid ops] assms(1,2) by simp_all
  show ?thesis
  proof (cases "signal_handlers s sig")
    case None
    then show ?thesis using assms(3) signal_invD(1) [OF inv(1) None] by (simp add: remove_signal_handler_def)
  next
    case (Some h)
    then have "can_catch sig" using inv(2) by simp
    from remove_signal_effect [of "dispositions s0" s sig h can_catch, OF inv(1) Some this] assms(3) Some
    show ?thesis by auto
  qed
qed

text \<open>A loop that has been entered, with no signals handled.\<close>

definition plain_services :: "(hid list \<times> nat option) service_loop" where
  "plain_services = loop.extend ((bare_loop no_program ([], None) 0 None trio_hooks)\<lparr>token := True\<rparr>)
     (service_loop.fields (\<lambda>_. None) (\<lambda>_. None) (\<lambda>sig. Other (nat sig)) (TrioExecutor (executor_init None None)) False [])"

definition some_signals :: "signal_op list" where
  "some_signals = [AddSignal 2 read_from_self, Arrives 2, AddSignal 15 read_from_self, RemoveSignal 15, Arrives 15]"

theorem signal_handlers_restored_witness:
  "dispositions (fst (remove_signal_handler (\<lambda>_. True) 2
     (fold (signal_op_run (\<lambda>_. True) (\<lambda>_. True)) some_signals plain_services))) 2 = Other 2"
proof -
  let ?s = "fold (signal_op_run (\<lambda>_. True) (\<lambda>_. True)) some_signals plain_services"
  obtain s' r where r: "remove_signal_handler (\<lambda>_. True) 2 ?s = (s', r)" by fastforce
  have "signal_handlers plain_services sig = None \<and> orig_signals plain_services sig = None" for sig
    by (simp add: plain_services_def loop.defs service_loop.defs)
  from signal_handlers_restored [OF this refl r] have "dispositions s' 2 = dispositions plain_services 2" by simp
  also have "... = Other 2" by code_simp
  finally show ?thesis by (simp only: r fst_conv)
qed

end
