(* ===== verification/Open_Loop.thy ===== *)
theory Open_Loop
  imports Async_Properties Policy Services
begin

text \<open>
  The life of a loop made by \<open>open_loop()\<close> (\<open>_loop.py\<close>): the block's task from one of its
  waits to the next, as steps beside those of the main loop. Trio's nurseries are not code of
  the repository: what they make of several exceptions is the parameter \<open>combine\<close>, and that
  the tasks of a nursery are over is a condition of the step that leaves it.
\<close>

section \<open>The state of the block\<close>

text \<open>
  Where the block's task is: in the body; about to synchronize; waiting in the
  \<open>sync_nursery\<close> for the event of \<open>synchronize\<close> (\<open>None\<close> if the loop was closed
  already); leaving the cancelled \<open>tasks_nursery\<close>, in which \<open>run_aio_future\<close> waits for the
  given asyncio tasks; waiting for \<open>asyncgens_done\<close>; past the \<open>finally\<close>.
\<close>

datatype phase =
    InBody
  | SyncStart
  | Syncing "eid option"
  | Unwinding "fid list"
  | Finalizing eid
  | Over

text \<open>
  The loop object and where the task of \<open>_main_loop\<close> is; the variable \<open>current_loop\<close> in the
  block's context, and what \<open>old_loop\<close> restores; whether \<open>body_scope\<close> was cancelled;
  \<open>forwarded_cancellation\<close>; the exception on its way out of the block; the exceptions raised
  by tasks of the \<open>loop_nursery\<close>; the first step of \<open>shutdown_asyncgens_from_aio\<close> while the
  Trio task that is to schedule it has not run; whether the warning was given. The last three are
  history: what \<open>synchronize()\<close>, \<open>_main_loop_exit()\<close> and \<open>loop.close()\<close> raised at the end of the
  block, if they did.
\<close>

record 'q opened =
  inner :: "'q loop"
  main_pc :: pc
  phase :: phase
  current :: "lid option"
  old_loop :: "lid option"
  body_cancelled :: bool
  forwarded :: "exn option"
  in_flight :: "exn option"
  nursery_errors :: "exn list"
  agens_task :: "callback option"
  warned :: bool
  sync_error :: "exn option"
  exit_error :: "exn option"
  close_error :: "exn option"

section \<open>From one wait to the next\<close>

text \<open>\<open>except Cancelled\<close> and \<open>except BaseExceptionGroup\<close>: the cancellation to forward, and
  what goes on from the body.\<close>

definition body_end :: "exn option \<Rightarrow> exn option \<times> exn option" where
  "body_end r =
     (case r of
        None \<Rightarrow> (None, None)
      | Some exc \<Rightarrow>
          if is_Cancelled exc then (Some exc, None)
          else if is_group exc then split_exn is_Cancelled exc
          else (None, Some exc))"

text \<open>\<open>wait_for_sync\<close>: an error of \<open>synchronize\<close> leaves the \<open>sync_nursery\<close>, and no asyncio
  task is waited for.\<close>

definition sync_begin ::
  "'q channel_ops \<Rightarrow> (exn list \<Rightarrow> exn option) \<Rightarrow> 'q opened \<Rightarrow> 'q opened" where
  "sync_begin C combine b =
     (if closed_flag (inner b) then b\<lparr>phase := Syncing None\<rparr>
      else case synchronize_begin (async_methods C) (inner b) of
        (s, Inr w) \<Rightarrow> b\<lparr>inner := s, phase := Syncing (Some w)\<rparr>
      | (s, Inl e) \<Rightarrow> b\<lparr>inner := s, phase := Unwinding [], in_flight := combine [e], sync_error := Some e\<rparr>)"

text \<open>The outer \<open>finally\<close> up to its wait. \<open>step\<close> is the first step of the coroutine that shuts
  down the async generators, if there are any.\<close>

definition finalize_begin :: "callback option \<Rightarrow> 'q opened \<Rightarrow> 'q opened" where
  "finalize_begin step b =
     (let errors = (case forwarded b of None \<Rightarrow> nursery_errors b | Some e \<Rightarrow> nursery_errors b @ [e])
      in case alloc_event (inner b) of
        (s, w) \<Rightarrow>
          if step = None then
            b\<lparr>inner := set_event w s, phase := Finalizing w, nursery_errors := errors\<rparr>
          else if \<not> is_running s then
            b\<lparr>inner := set_event w s, phase := Finalizing w, nursery_errors := errors, warned := True\<rparr>
          else b\<lparr>inner := s, phase := Finalizing w, nursery_errors := errors, agens_task := step\<rparr>)"

text \<open>Trio closes a nursery to new tasks when its block and its last task have ended.\<close>

definition close_nursery :: "'q opened \<Rightarrow> 'q opened" where
  "close_nursery b = b\<lparr>inner := (inner b)\<lparr>nursery_closed := True\<rparr>\<rparr>"

text \<open>The end of the \<open>tasks_nursery\<close>, whose tasks may have raised.\<close>

definition unwound :: "(exn list \<Rightarrow> exn option) \<Rightarrow> callback option \<Rightarrow> 'q opened \<Rightarrow> 'q opened" where
  "unwound combine step b =
     finalize_begin step
       (b\<lparr>in_flight := combine ((case in_flight b of None \<Rightarrow> [] | Some e \<Rightarrow> [e]) @ task_errors (inner b))\<rparr>)"

text \<open>\<open>shutdown_asyncgens_from_trio\<close> up to its wait.\<close>

definition agens_begin :: "'q channel_ops \<Rightarrow> callback \<Rightarrow> 'q opened \<Rightarrow> 'q opened" where
  "agens_begin C step b =
     (case fst (run_aio_coroutine_begin (async_methods C) step (inner b)) of
        (s, Inr _) \<Rightarrow> b\<lparr>inner := s, agens_task := None\<rparr>
      | (s, Inl e) \<Rightarrow> b\<lparr>inner := s, agens_task := None, nursery_errors := nursery_errors b @ [e]\<rparr>)"

text \<open>The end of the block, after \<open>_main_loop_exit\<close>: \<open>loop.close()\<close> and the reset of
  \<open>current_loop\<close>. An exception of either replaces the one on its way.\<close>

definition open_end :: "'q loop \<times> (exn + unit) \<Rightarrow> pc \<Rightarrow> 'q opened \<Rightarrow> 'q opened" where
  "open_end x p b =
     (let b1 = b\<lparr>main_pc := p, phase := Over,
            in_flight := (case snd x of Inl e \<Rightarrow> Some e | Inr _ \<Rightarrow> in_flight b),
            exit_error := (case snd x of Inl e \<Rightarrow> Some e | Inr _ \<Rightarrow> None)\<rparr>
      in case close_loop close_hook (fst x) of
        (s, Inr _) \<Rightarrow> b1\<lparr>inner := s, current := old_loop b\<rparr>
      | (s, Inl e) \<Rightarrow> b1\<lparr>inner := s, in_flight := Some e, close_error := Some e\<rparr>)"

text \<open>
  The beginning: the loop, whose application is \<open>prog\<close>, is constructed on the channel \<open>q\<close> and entered. An error of
  \<open>_main_loop_init\<close> goes to the outer \<open>finally\<close>. \<open>me\<close> is the new loop.
\<close>

definition open_begin ::
  "(nat \<Rightarrow> nat \<Rightarrow> trace) \<Rightarrow> 'q channel_ops \<Rightarrow> (exn list \<Rightarrow> exn option) \<Rightarrow> lid \<Rightarrow> lid option \<Rightarrow> 'q \<Rightarrow> fd \<Rightarrow> instant \<Rightarrow> string option \<Rightarrow> hooks_state \<Rightarrow> 'q opened" where
  "open_begin prog C combine me old q ssock tm library hooks =
     (let fresh = (\<lambda>s p ph e.
          \<lparr>inner = s, main_pc = p, phase = ph, current = Some me, old_loop = old,
           body_cancelled = False, forwarded = None, in_flight = e, nursery_errors = [],
           agens_task = None, warned = False, sync_error = None, exit_error = None, close_error = None\<rparr>)
      in case enter_loop ((loop_init prog (async_methods C) q ssock tm library hooks)\<lparr>closed_flag := False\<rparr>) of
        ((s, p), Inr _) \<Rightarrow> fresh s p InBody None
      | ((s, p), Inl e) \<Rightarrow> finalize_begin None (close_nursery (fresh s p (Unwinding []) (combine [e]))))"

section \<open>The steps\<close>

text \<open>
  \<open>run\<close>: the main loop and everything around it. \<open>outer_cancel\<close>: a cancellation from outside
  is forwarded into the body. \<open>tasks_over\<close>: the last task of the \<open>tasks_nursery\<close> has ended,
  be it the task of an \<open>AsyncHandle\<close>, of a reader or writer, or of a \<open>run_aio_future\<close>; until the
  block's task is resumed (\<open>unwind\<close>) the others go on. \<open>leave_waiting\<close>: \<open>_main_loop_exit\<close> waits for the main loop,
  which runs until it is gone, and drains the channel, while the others go on; \<open>leave_now\<close>: it does not get that far, because the loop is
  closed or \<open>stop()\<close> raises.
\<close>

inductive open_step ::
  "'q channel_ops \<Rightarrow> (exn list \<Rightarrow> exn option) \<Rightarrow> 'q opened \<Rightarrow> 'q opened \<Rightarrow> bool"
  for C combine where
  run: "loop_steps C (async_methods C) (inner b, main_pc b) (s, p) \<Longrightarrow> phase b \<noteq> Over \<Longrightarrow>
    open_step C combine b (b\<lparr>inner := s, main_pc := p\<rparr>)"
| outer_cancel: "phase b = InBody \<Longrightarrow> open_step C combine b (b\<lparr>body_cancelled := True\<rparr>)"
| body: "phase b = InBody \<Longrightarrow> body_end r = (f, e) \<Longrightarrow>
    open_step C combine b (b\<lparr>phase := SyncStart, forwarded := f, in_flight := e\<rparr>)"
| sync: "phase b = SyncStart \<Longrightarrow> open_step C combine b (sync_begin C combine b)"
| synced: "phase b = Syncing w \<Longrightarrow> (\<forall>e. w = Some e \<longrightarrow> events (inner b) e \<or> stopped (inner b)) \<Longrightarrow>
    open_step C combine b (b\<lparr>phase := Unwinding aio_tasks\<rparr>)"
| tasks_over: "phase b = Unwinding aio_tasks \<Longrightarrow>
    (\<forall>h \<in> set (started_tasks (inner b)). hfinished (handles (inner b) h)) \<Longrightarrow>
    (\<forall>(fd, h, reading) \<in> set (io_tasks (inner b)). io_over (io_state (inner b) h)) \<Longrightarrow>
    (\<forall>f \<in> set aio_tasks. fut_done f (inner b)) \<Longrightarrow>
    open_step C combine b (close_nursery b)"
| unwind: "phase b = Unwinding aio_tasks \<Longrightarrow> nursery_closed (inner b) \<Longrightarrow>
    open_step C combine b (unwound combine step b)"
| agens: "agens_task b = Some step \<Longrightarrow> phase b \<noteq> Over \<Longrightarrow> open_step C combine b (agens_begin C step b)"
| leave_waiting: "phase b = Finalizing w \<Longrightarrow> events (inner b) w \<Longrightarrow> \<not> closed_flag (inner b) \<Longrightarrow>
    m_stop (async_methods C) None (inner b) = (s1, Inr u) \<Longrightarrow>
    loop_steps C (async_methods C) (s1, main_pc b) (s2, Exited e) \<Longrightarrow>
    (\<forall>i t. meanwhile C (async_methods C) t (others i t)) \<Longrightarrow>
    main_loop_exit C (async_methods C) (\<lambda>_. s2) others (inner b) = Some x \<Longrightarrow>
    open_step C combine b (open_end x (Exited e) b)"
| leave_now: "phase b = Finalizing w \<Longrightarrow> events (inner b) w \<Longrightarrow>
    closed_flag (inner b) \<or> m_stop (async_methods C) None (inner b) = (s1, Inl e) \<Longrightarrow>
    main_loop_exit C (async_methods C) (\<lambda>s. s) (\<lambda>_ s. s) (inner b) = Some x \<Longrightarrow>
    open_step C combine b (open_end x (main_pc b) b)"

abbreviation open_steps ::
  "'q channel_ops \<Rightarrow> (exn list \<Rightarrow> exn option) \<Rightarrow> 'q opened \<Rightarrow> 'q opened \<Rightarrow> bool" where
  "open_steps C combine \<equiv> (open_step C combine)\<^sup>*\<^sup>*"

end
