(* ===== verification/Open_Properties.thy ===== *)
theory Open_Properties
  imports Open_Loop
begin

text \<open>
  The properties of \<open>open_loop()\<close>: what holds while the block runs, how it ends, where a
  cancellation of its body goes, and when the async generators are never finalized.
\<close>

section \<open>While the block runs\<close>

text \<open>The loop is open, its invariant holds and \<open>_main_loop_exit\<close> will find what it needs:
  \<open>k\<close> other loops of the thread use the dispatcher of the hooks.\<close>

definition live :: "('q \<Rightarrow> hid list) \<Rightarrow> hooks \<Rightarrow> nat \<Rightarrow> 'q loop \<times> pc \<Rightarrow> bool" where
  "live msgs orig k c \<longleftrightarrow> conf_inv msgs c \<and> finite (waiting_futures (fst c)) \<and> task (fst c) \<and>
     \<not> closed_flag (fst c) \<and> (\<exists>d. exit_ready orig k d (fst c))"

lemma exit_ready_outer: "outer s' = outer s \<Longrightarrow> exit_ready orig k d s \<Longrightarrow> exit_ready orig k d s'"
  by (simp add: exit_ready_def outer_def)

lemma live_outer:
  "live msgs orig k (s, p) \<Longrightarrow> outer s' = outer s \<Longrightarrow> conf_inv msgs (s', p') \<Longrightarrow> finite (waiting_futures s') \<Longrightarrow>
   live msgs orig k (s', p')"
  using exit_ready_outer [of s' s] by (auto simp: live_def outer_def)

context memory_channel
begin

lemma live_steps:
  assumes "live msgs orig k c" and "loop_steps C (async_methods C) c c'"
  shows "live msgs orig k c'"
  using async.loop_steps_outer [OF assms(2)] assms(1) live_outer [of msgs orig k "fst c" "snd c" "fst c'" "snd c'"]
  by (simp add: live_def)

lemma live_costs:
  assumes "live msgs orig k (s, p)" and "costs rk (=) msgs cap n s s'"
  shows "live msgs orig k (s', p)"
proof (rule live_outer [OF assms(1) api_outer [OF costs_frame [OF assms(2)]]])
  have inv: "conf_inv msgs (s, p)" "finite (waiting_futures s)" using assms(1) by (simp_all add: live_def)
  show "conf_inv msgs (s', p)" using async.frame_conf [OF costs_frame [OF assms(2)] inv(1)] by simp
  have "bounded msgs s" using inv by (intro inv_bounded) (simp_all add: conf_inv_def)
  then show "finite (waiting_futures s')" using costs_bounded [OF assms(2)] by (simp add: bounded_def)
qed

lemma synchronize_cost: "costs rk (=) msgs cap 3 s (fst (synchronize_begin (async_methods C) s))"
proof -
  obtain s1 w where a: "alloc_event s = (s1, w)" by fastforce
  have "costs rk (=) msgs cap 0 s s1" using costs_alloc_event [of rk "(=)" msgs cap s] a by simp
  moreover have "costs rk (=) msgs cap 3 s1 (fst (queue_new (queue_handle_async C) PlainHandle (SetEvent w) s1))"
    using async.queue_new_cost [where cb = "SetEvent w" and s = s1 and k = PlainHandle] by simp
  ultimately have "costs rk (=) msgs cap (0 + 3) s (fst (queue_new (queue_handle_async C) PlainHandle (SetEvent w) s1))"
    by (rule costs_trans)
  then show ?thesis by (auto simp: synchronize_begin_def a py_bind_def split: prod.split sum.split)
qed

lemma run_aio_coroutine_cost:
  "costs rk (=) msgs cap (3 + cb_work rk cb) s (fst (fst (run_aio_coroutine_begin (async_methods C) cb s)))"
proof -
  obtain s1 f where a: "alloc_future s = (s1, f)" by fastforce
  have "costs rk (=) msgs cap 0 s s1" using costs_alloc_future [of rk "(=)" msgs cap s] a by simp
  then have "costs rk (=) msgs cap (0 + (3 + cb_work rk cb)) s (fst (call_soon (async_methods C) cb s1))"
    by (rule costs_trans) (rule async.call_soon_cost)
  then show ?thesis
    by (auto simp: run_aio_coroutine_begin_def a py_bind_def check_closed_def split: prod.split sum.split)
qed

end

section \<open>The invariant of the block\<close>

definition block_inv ::
  "('q \<Rightarrow> hid list) \<Rightarrow> hooks \<Rightarrow> nat \<Rightarrow> lid \<Rightarrow> 'q opened \<Rightarrow> bool" where
  "block_inv msgs orig k me b \<longleftrightarrow> live msgs orig k (inner b, main_pc b) \<and> current b = Some me"

lemma fresh_event_cost: "alloc_event s = (s1, w) \<Longrightarrow> costs rk (=) msgs cap 0 s (set_event w s1)"
  using costs_trans [OF _ costs_set_event, of rk "(=)" msgs cap 0 s s1 w] costs_alloc_event [of rk "(=)" msgs cap s] by simp

lemma finalize_begin_phase: "phase (finalize_begin step b) \<noteq> Over"
  by (simp add: finalize_begin_def Let_def split: prod.split)

context memory_channel
begin

lemma finalize_begin_block:
  assumes "live msgs orig k (inner b, main_pc b)"
  shows "live msgs orig k (inner (finalize_begin step b), main_pc (finalize_begin step b)) \<and>
    current (finalize_begin step b) = current b \<and> old_loop (finalize_begin step b) = old_loop b \<and>
    (\<exists>w. phase (finalize_begin step b) = Finalizing w)"
proof -
  obtain s w where a: "alloc_event (inner b) = (s, w)" by fastforce
  have "live msgs orig k (s, main_pc b)" "live msgs orig k (set_event w s, main_pc b)"
    using live_costs [OF assms fresh_event_cost [OF a]] live_costs [OF assms] costs_alloc_event [of rk "(=)" msgs cap "inner b"] a
    by auto
  then show ?thesis by (simp add: finalize_begin_def a Let_def)
qed

lemma close_nursery_block:
  assumes "live msgs orig k (inner b, main_pc b)"
  shows "live msgs orig k (inner (close_nursery b), main_pc (close_nursery b)) \<and>
    current (close_nursery b) = current b \<and> old_loop (close_nursery b) = old_loop b"
proof -
  let ?s = "inner b"
  have "loop_inv msgs (?s\<lparr>nursery_closed := True\<rparr>)"
    using loop_inv_cong [of "?s\<lparr>nursery_closed := True\<rparr>" ?s msgs] assms by (simp add: live_def conf_inv_def)
  then have "conf_inv msgs (?s\<lparr>nursery_closed := True\<rparr>, main_pc b)"
    using assms by (cases "main_pc b") (auto simp: live_def conf_inv_def root_deadline_def)
  then show ?thesis using assms by (simp add: live_def close_nursery_def waiting_futures_def exit_ready_def)
qed

lemma unwound_block:
  assumes "live msgs orig k (inner b, main_pc b)"
  shows "live msgs orig k (inner (unwound combine step b), main_pc (unwound combine step b)) \<and>
    current (unwound combine step b) = current b \<and> old_loop (unwound combine step b) = old_loop b"
  unfolding unwound_def
  by (rule finalize_begin_block [where b = "b\<lparr>in_flight := _\<rparr>" and step = step, simplified, OF assms, THEN conjE]) blast

lemma sync_begin_block:
  assumes "live msgs orig k (inner b, main_pc b)"
  shows "live msgs orig k (inner (sync_begin C combine b), main_pc (sync_begin C combine b)) \<and>
    current (sync_begin C combine b) = current b \<and> old_loop (sync_begin C combine b) = old_loop b"
  using live_costs [OF assms synchronize_cost] assms
  by (auto simp: sync_begin_def split: prod.split sum.split)

lemma agens_begin_block:
  assumes "live msgs orig k (inner b, main_pc b)"
  shows "live msgs orig k (inner (agens_begin C step b), main_pc (agens_begin C step b)) \<and>
    current (agens_begin C step b) = current b \<and> old_loop (agens_begin C step b) = old_loop b"
  using live_costs [OF assms run_aio_coroutine_cost [where cb = step and rk = "\<lambda>_. 0"]]
  by (auto simp: agens_begin_def split: prod.split sum.split)

lemma block_step:
  assumes "open_step C combine b b'" and "block_inv msgs orig k me b" and "phase b' \<noteq> Over"
  shows "block_inv msgs orig k me b' \<and> old_loop b' = old_loop b"
  using assms
proof (induction rule: open_step.induct)
  case (run b s p)
  then show ?case using live_steps [of orig k "(inner b, main_pc b)" "(s, p)"] by (simp add: block_inv_def)
next
  case (tasks_over b aio_tasks)
  then show ?case using close_nursery_block [of orig k b] by (simp add: block_inv_def)
next
  case (unwind b aio_tasks step)
  then show ?case using unwound_block [of orig k b combine step] by (simp add: block_inv_def)
next
  case (leave_waiting b w s1 u s2 e x)
  then show ?case by (auto simp: open_end_def Let_def split: prod.splits sum.splits)
next
  case (leave_now b w s1 e x)
  then show ?case by (auto simp: open_end_def Let_def split: prod.splits sum.splits)
qed (auto simp: block_inv_def sync_begin_block agens_begin_block)

end

section \<open>The end of the block\<close>

definition cannot_close :: exn where
  "cannot_close = RuntimeError ''You need to stop the loop before closing it''"

text \<open>What a block that is over leaves: a closed loop that does not run, and \<open>current_loop\<close> restored;
  with all its work done, if \<open>_main_loop_exit\<close> raised nothing; else it raised an exit or
  the refusal to start a task in the closed nursery, with which the block is left. Or, when \<open>stop()\<close> found
  the bounded channel full, a running loop and \<open>current_loop\<close> as it was.\<close>

definition left_behind ::
  "('q \<Rightarrow> hid list) \<Rightarrow> ('q \<Rightarrow> nat option) \<Rightarrow> hooks \<Rightarrow> nat \<Rightarrow> lid \<Rightarrow> lid option \<Rightarrow> 'q opened \<Rightarrow> bool" where
  "left_behind msgs cap orig k me old b \<longleftrightarrow>
     (if closed_flag (inner b) then \<not> is_running (inner b) \<and> current b = old \<and> close_error b = None \<and>
        (case exit_error b of
           None \<Rightarrow> msgs (queue (inner b)) = [] \<and> timers (inner b) = [] \<and> \<not> nursery (inner b) \<and>
             (\<exists>d. hooks_inv orig k d (asyncgen (inner b)))
         | Some e \<Rightarrow> in_flight b = Some e \<and> (is_exit e \<and> e \<noteq> TrioAsyncioExit \<or> e = nursery_is_closed))
      else is_running (inner b) \<and> current b = Some me \<and> exit_error b = Some WouldBlock \<and>
        close_error b = Some cannot_close \<and> in_flight b = Some cannot_close \<and>
        (\<exists>n. cap (queue (inner b)) = Some n \<and> n \<le> length (msgs (queue (inner b)))))"

text \<open>Nothing of the end of the block has been raised before it.\<close>

definition not_ended :: "'q opened \<Rightarrow> bool" where
  "not_ended b \<longleftrightarrow> exit_error b = None \<and> close_error b = None"

lemma open_end_closes:
  assumes "stopped (fst x)" and "\<not> closed_flag (fst x)"
  shows "inner (open_end x p b) = (fst x)\<lparr>closed_flag := True\<rparr>" and "current (open_end x p b) = old_loop b"
    and "in_flight (open_end x p b) = (case snd x of Inl e \<Rightarrow> Some e | Inr _ \<Rightarrow> in_flight b)"
    and "exit_error (open_end x p b) = (case snd x of Inl e \<Rightarrow> Some e | Inr _ \<Rightarrow> None)"
    and "close_error (open_end x p b) = close_error b" and "sync_error (open_end x p b) = sync_error b"
  using assms
  by (simp_all add: open_end_def close_loop_def close_hook_def asyncio_close_def is_running_def py_bind_def Let_def)

context memory_channel
begin

lemma leave_waiting_end:
  assumes inv: "block_inv msgs orig k me b" and "\<not> closed_flag (inner b)" and new: "not_ended b"
    and stop: "m_stop (async_methods C) None (inner b) = (s1, Inr u)"
    and wait: "loop_steps C (async_methods C) (s1, main_pc b) (s2, Exited e)"
    and w: "\<forall>i t. meanwhile C (async_methods C) t (others i t)"
    and x: "main_loop_exit C (async_methods C) (\<lambda>_. s2) others (inner b) = Some x"
  shows "left_behind msgs cap orig k me (old_loop b) (open_end x p b)"
proof -
  note l = inv [unfolded block_inv_def live_def fst_conv]
  obtain d where ready: "exit_ready orig k d (inner b)" using l by blast
  obtain s' r where xr: "x = (s', r)" by fastforce
  obtain t2 r2 where e: "x = (s', r)" "drained msgs t2 r2" "outer t2 = outer (inner b)" "stopped t2"
    "case r2 of Inr _ \<Rightarrow> r = Inr () \<and> cleaned orig k d t2 s' | Inl e \<Rightarrow> r = Inl e \<and> s' = t2"
    using async.main_loop_exit_effect [OF assms(2) _ _ _ ready stop wait _ x [unfolded xr]] l w xr by auto
  have open': "\<not> closed_flag t2" using e(3) assms(2) by (simp add: outer_def)
  show ?thesis
  proof (cases r2)
    case (Inl a)
    then have "stopped (fst x)" "\<not> closed_flag (fst x)" "snd x = Inl a" "is_exit a \<and> a \<noteq> TrioAsyncioExit \<or> a = nursery_is_closed"
      using e(1,2,4,5) open' by (auto simp: drained_def)
    then show ?thesis using open_end_closes [of x p b] new by (simp add: left_behind_def not_ended_def is_running_def)
  next
    case (Inr v)
    then have c: "cleaned orig k d t2 (fst x)" using e(1,5) by simp
    then have "stopped (fst x)" "\<not> closed_flag (fst x)" "msgs (queue (fst x)) = []" "timers (fst x) = []"
      "\<not> nursery (fst x)" "hooks_inv orig k d (asyncgen (fst x))"
      using e(2,4) open' Inr by (simp_all add: cleaned_def drained_def)
    moreover have "snd x = Inr ()" using e(1,5) Inr by simp
    ultimately show ?thesis using open_end_closes [of x p b] new by (auto simp: left_behind_def not_ended_def is_running_def)
  qed
qed

lemma leave_waiting_step:
  fixes others :: "nat \<Rightarrow> 'q loop \<Rightarrow> 'q loop"
  assumes inv: "block_inv msgs orig k me b" and ph: "phase b = Finalizing w" and ev: "events (inner b) w"
    and stop: "m_stop (async_methods C) None (inner b) = (s1, Inr u)"
    and wait: "loop_steps C (async_methods C) (s1, main_pc b) (s2, Exited e)"
    and rk: "ranked rk (inner b)" "adds_no_work msgs rk others N" and w: "\<And>i t. meanwhile C (async_methods C) t (others i t)"
  shows "\<exists>b'. open_step C combine b b' \<and> phase b' = Over"
proof -
  have o: "\<not> closed_flag (inner b)" using inv by (simp add: block_inv_def live_def)
  note l = inv [unfolded block_inv_def live_def fst_conv]
  obtain x where x: "main_loop_exit C (async_methods C) (\<lambda>_. s2) others (inner b) = Some x"
    using async.main_loop_exit_returns [OF o _ _ _ stop wait w rk] l by auto
  have "phase (open_end x (Exited e) b) = Over" by (auto simp: open_end_def Let_def split: prod.splits sum.splits)
  then show ?thesis using open_step.leave_waiting [OF ph ev o stop wait _ x] w by blast
qed

lemma stop_error_full:
  assumes "m_stop (async_methods C) None s = (s1, Inl e)" and "\<not> closed_flag s"
  shows "e = WouldBlock \<and> \<not> stopped s1 \<and> \<not> closed_flag s1 \<and> queue s1 = queue s \<and>
    (\<exists>n. cap (queue s) = Some n \<and> n \<le> length (msgs (queue s)))"
  using assms send_None_iff [of "queue s" "next_hid s"]
  by (auto simp: discard_def stop_async_def alloc_event_def stop_with_def queue_new_def alloc_handle_def
      queue_handle_async_def py_bind_def check_closed_def split: option.splits if_splits)

lemma leave_now_end:
  assumes inv: "block_inv msgs orig k me b"
    and stop: "closed_flag (inner b) \<or> m_stop (async_methods C) None (inner b) = (s1, Inl e)"
    and x: "main_loop_exit C (async_methods C) (\<lambda>s. s) (\<lambda>_ s. s) (inner b) = Some x"
  shows "left_behind msgs cap orig k me (old_loop b) (open_end x p b)"
proof -
  have open': "\<not> closed_flag (inner b)" using inv by (simp add: block_inv_def live_def)
  then have st: "m_stop (async_methods C) None (inner b) = (s1, Inl e)" using stop by simp
  then have "x = (s1, Inl e)" using x open' by (simp add: main_loop_exit_def del: async_methods_simps)
  then show ?thesis
    using stop_error_full [OF st open'] inv
    by (auto simp: open_end_def close_loop_def close_hook_def py_bind_def left_behind_def is_running_def
        cannot_close_def block_inv_def)
qed

lemma not_ended_step: "open_step C combine b b' \<Longrightarrow> not_ended b \<Longrightarrow> phase b' \<noteq> Over \<Longrightarrow> not_ended b'"
  by (induction rule: open_step.induct)
    (auto simp: not_ended_def sync_begin_def agens_begin_def unwound_def finalize_begin_def close_nursery_def open_end_def
      Let_def split: prod.splits sum.splits)

lemma block_reach:
  assumes "open_steps C combine b0 b" and "block_inv msgs orig k me b0" and "phase b0 \<noteq> Over" and "not_ended b0"
  shows "if phase b = Over then left_behind msgs cap orig k me (old_loop b0) b
    else block_inv msgs orig k me b \<and> old_loop b = old_loop b0 \<and> not_ended b"
  using assms
proof (induction rule: rtranclp_induct)
  case base
  then show ?case by simp
next
  case (step b b')
  have live: "phase b \<noteq> Over" using step.hyps(2) by (auto elim!: open_step.cases)
  then have b: "block_inv msgs orig k me b" "old_loop b = old_loop b0" "not_ended b" using step by auto
  show ?case
  proof (cases "phase b' = Over")
    case True
    from step.hyps(2) show ?thesis
    proof cases
      case leave_waiting
      then show ?thesis using leave_waiting_end [OF b(1) _ b(3)] b(2) True by fastforce
    next
      case leave_now
      then show ?thesis using leave_now_end [OF b(1)] b(2) True by fastforce
    next
      case (tasks_over fs)
      then show ?thesis using True by (simp add: close_nursery_def)
    next
      case (unwind fs st)
      then show ?thesis using True finalize_begin_phase by (auto simp: unwound_def)
    qed (use True live in \<open>auto simp: sync_begin_def agens_begin_def split: prod.splits sum.splits if_splits\<close>)
  next
    case False
    then show ?thesis using block_step [OF step.hyps(2) b(1)] not_ended_step [OF step.hyps(2) b(3)] b(2) by simp
  qed
qed

end

section \<open>Properties\<close>

lemma open_begin_ok:
  fixes C :: "'q channel_ops"
  assumes "msgs q = []" and "foreign orig" and "hooks_inv orig k d hooks"
  shows "block_inv msgs orig k me (open_begin prog C combine me old q ssock tm library hooks)"
    and "phase (open_begin prog C combine me old q ssock tm library hooks) = InBody"
    and "old_loop (open_begin prog C combine me old q ssock tm library hooks) = old"
    and "not_ended (open_begin prog C combine me old q ssock tm library hooks)"
proof -
  let ?s = "(loop_init prog (async_methods C) q ssock tm library hooks)\<lparr>closed_flag := False\<rparr>"
  note new = loop_init_new [where C = C and prog = prog and ssock = ssock and now = tm and library = library
      and hooks = hooks and msgs = msgs, OF assms(1)]
  have "new_state msgs ?s" "hooks_inv orig k d (asyncgen ?s)" "\<not> closed_flag ?s"
    "waiting_futures ?s = {}"
    using new assms(3) by (simp_all add: new_state_def waiting_futures_def)
  note fresh = this
  then obtain s' d' where e: "enter_loop ?s = ((s', Top), Inr ())" "conf_inv msgs (s', Top)" "exit_ready orig k d' s'"
    "task s'" "futures s' = futures ?s" "\<not> closed_flag s'"
    using enter_loop_inv [of msgs ?s orig k d] assms(2) by auto
  moreover from e(5) have "waiting_futures s' = {}"
    using \<open>waiting_futures ?s = {}\<close> by (simp add: waiting_futures_def)
  ultimately show "block_inv msgs orig k me (open_begin prog C combine me old q ssock tm library hooks)"
    "phase (open_begin prog C combine me old q ssock tm library hooks) = InBody"
    "old_loop (open_begin prog C combine me old q ssock tm library hooks) = old"
    "not_ended (open_begin prog C combine me old q ssock tm library hooks)"
    by (auto simp: open_begin_def block_inv_def live_def not_ended_def)
qed


text \<open>Where exceptions of the body go.\<close>

definition forwarded_ok :: "exn option \<Rightarrow> 'q opened \<Rightarrow> bool" where
  "forwarded_ok f b \<longleftrightarrow> (case phase b of
     InBody \<Rightarrow> False
   | Finalizing _ \<Rightarrow> \<forall>c. f = Some c \<longrightarrow> c \<in> set (nursery_errors b)
   | Over \<Rightarrow> \<forall>c. f = Some c \<longrightarrow> c \<in> set (nursery_errors b)
   | _ \<Rightarrow> forwarded b = f)"

lemma forwarded_step: "open_step C combine b b' \<Longrightarrow> forwarded_ok f b \<Longrightarrow> forwarded_ok f b'"
proof (induction rule: open_step.induct)
  case (run b s p)
  then show ?case by (simp add: forwarded_ok_def split: phase.splits)
next
  case (agens b step)
  then show ?case
    by (auto simp: forwarded_ok_def agens_begin_def split: phase.splits prod.splits sum.splits)
next
  case (tasks_over b aio_tasks)
  then show ?case by (simp add: forwarded_ok_def close_nursery_def)
qed (auto simp: forwarded_ok_def sync_begin_def unwound_def finalize_begin_def open_end_def Let_def
    split: prod.splits sum.splits option.splits)

text \<open>C16: exceptions of the body: all the cancellations in it, alone or in groups, are taken out
  and raised in the \<open>loop_nursery\<close> when the tasks of the loop are over; every other
  exception goes on from the body, and none is lost or doubled.\<close>

theorem body_exceptions_forwarded:
  assumes "wf_exn x" and "phase b = InBody" and "body_end (Some x) = (f, e)"
    and "open_steps C combine (b\<lparr>phase := SyncStart, forwarded := f, in_flight := e\<rparr>) b'"
    and "phase b' = Over \<or> phase b' = Finalizing w"
  shows "leaves_opt f = filter is_Cancelled (leaves x) \<and> leaves_opt e = filter (\<lambda>y. \<not> is_Cancelled y) (leaves x) \<and>
    (\<forall>c. f = Some c \<longrightarrow> c \<in> set (nursery_errors b'))"
proof -
  have "forwarded_ok f (b\<lparr>phase := SyncStart, forwarded := f, in_flight := e\<rparr>)" by (simp add: forwarded_ok_def)
  with assms(4) have "forwarded_ok f b'" by (induction rule: rtranclp_induct) (auto intro: forwarded_step)
  moreover have "leaves_opt f = filter is_Cancelled (leaves x) \<and> leaves_opt e = filter (\<lambda>y. \<not> is_Cancelled y) (leaves x)"
  proof (cases "is_Cancelled x")
    case True
    then show ?thesis using assms(3) by (cases x) (auto simp: body_end_def)
  next
    case False
    then show ?thesis using assms(3) cancelled.split_leaves [of x] by (auto simp: body_end_def split: if_splits)
  qed
  ultimately show ?thesis using assms(5) by (auto simp: forwarded_ok_def)
qed

section \<open>Async generators of a stopped loop\<close>

context memory_channel
begin

text \<open>Once the loop's task is gone, messages only pile up, and only readers and writers run.\<close>

definition only_io :: "'q loop \<Rightarrow> 'q loop \<Rightarrow> bool" where
  "only_io s s' \<longleftrightarrow> (\<exists>new. msgs (queue s') = msgs (queue s) @ new) \<and>
     (\<forall>h \<in> set (ran s'). h \<in> set (ran s) \<or> kind (handles s' h) = ScopedHandle)"

lemma only_io_frame: "api_frame (=) msgs cap s s' \<Longrightarrow> only_io s s'"
  using api_frame_queue [of "(=)" msgs cap s s'] by (auto simp: only_io_def api_frame_fields)

lemma left_step:
  assumes "loop_step C (async_methods C) (s, Exited x) c" and "conf_inv msgs (s, Exited x)"
  shows "snd c = Exited x \<and> only_io s (fst c)"
  using assms(1)
proof cases
  case (call a s' r)
  then show ?thesis using only_io_frame [OF async.exec_api_frame, of s a] by simp
next
  case (soon s' u)
  then show ?thesis using send_msgs
    by (auto simp: only_io_def run_sync_soon_one_def Let_def split: list.splits option.splits)
next
  case (async_end h b s' r)
  then show ?thesis using only_io_frame [OF async.async_run_end_frame, of s h b]
    by (auto simp: only_io_def split: sum.splits)
next
  case (io fd h reading wake)
  have k: "h < next_hid s" "kind (handles s h) = ScopedHandle"
    using assms(2) io(2) io_inv_task [of s fd h reading] by (simp_all add: conf_inv_def loop_inv_def)
  obtain s' pc where st: "io_step (async_methods C) h wake s (io_state s h) = (s', pc)" by fastforce
  then have "only_io s s'"
  proof (cases rule: io_step_cases)
    case (failed e)
    then show ?thesis using only_io_frame [OF async.io_except_frame, of s e] by simp
  next
    case runs
    then have f: "api_frame (=) msgs cap (s\<lparr>ran := ran s @ [h]\<rparr>) s'" using async.io_run_frame [of s h] by simp
    then have "kind (handles s' h) = ScopedHandle" using api_frame_handle [OF f, of h] k by (simp add: handle_frame_def)
    then show ?thesis using only_io_frame [OF f] by (auto simp: only_io_def)
  qed (simp add: only_io_def)
  then show ?thesis using io(1) by (simp add: only_io_def io_advance_def st)
qed (simp_all add: only_io_def)

lemma left_steps:
  assumes "loop_steps C (async_methods C) (s, Exited x) c" and "conf_inv msgs (s, Exited x)"
  shows "snd c = Exited x \<and> conf_inv msgs c \<and> evolves (=) msgs s (fst c) \<and> only_io s (fst c)"
  using assms
proof (induction rule: rtranclp_induct)
  case base
  then show ?case by (simp add: only_io_def)
next
  case (step c1 c2)
  then have c1: "snd c1 = Exited x" "conf_inv msgs c1" "evolves (=) msgs s (fst c1)" "only_io s (fst c1)" by blast+
  then have st: "loop_step C (async_methods C) (fst c1, Exited x) c2" "conf_inv msgs (fst c1, Exited x)"
    using step.hyps(2) by (metis prod.collapse)+
  have c2: "conf_inv msgs c2" "evolves (=) msgs (fst c1) (fst c2)"
    using async.loop_step_inv [OF st] by (simp_all only: fst_conv)
  have "kind (handles (fst c2) h) = ScopedHandle" if "h \<in> set (ran (fst c1))" "kind (handles (fst c1) h) = ScopedHandle" for h
    using evolves_handle [OF c2(2), of h] that c1(2) by (auto simp: handle_frame_def conf_inv_def loop_inv_def ids_ok_def)
  then have "only_io s (fst c2)" using left_step [OF st] c1(4) by (auto simp: only_io_def)
  then show ?case using left_step [OF st] c2(1) evolves_trans [OF c1(3) c2(2)] by blast
qed

lemma agens_queued:
  assumes "fst (run_aio_coroutine_begin (async_methods C) cb s) = (s', Inr f)"
  shows "msgs (queue s') = msgs (queue s) @ [next_hid s] \<and> ran s' = ran s \<and> next_hid s < next_hid s' \<and>
    kind (handles s' (next_hid s)) = PlainHandle \<and> hcallback (handles s' (next_hid s)) = Some cb \<and> events s' = events s"
  using assms send_msgs
  by (auto simp: run_aio_coroutine_begin_def py_bind_def check_closed_def check_callback_def alloc_future_def
      call_soon_def queue_new_def alloc_handle_def queue_handle_async_def new_handle_obj_def
      split: option.splits if_splits)

end

lemma over_final: "open_step C combine b b' \<Longrightarrow> phase b \<noteq> Over"
  by (auto elim!: open_step.cases)

definition never_run :: "('q \<Rightarrow> hid list) \<Rightarrow> eid \<Rightarrow> hid \<Rightarrow> exn option \<Rightarrow> 'q opened \<Rightarrow> bool" where
  "never_run msgs w h x b \<longleftrightarrow> phase b = Finalizing w \<and> \<not> events (inner b) w \<and> agens_task b = None \<and>
     main_pc b = Exited x \<and> conf_inv msgs (inner b, Exited x) \<and> h < next_hid (inner b) \<and>
     kind (handles (inner b) h) = PlainHandle \<and> h \<in> set (msgs (queue (inner b))) \<and> h \<notin> set (ran (inner b))"

text \<open>A step in which nobody sets the event \<open>w\<close> but the callback of the handle \<open>h\<close>: \<open>asyncgens_done\<close>
  is a local variable of \<open>open_loop()\<close>, which only the coroutine it makes sees.\<close>

definition private_event_step ::
  "'q channel_ops \<Rightarrow> (exn list \<Rightarrow> exn option) \<Rightarrow> eid \<Rightarrow> hid \<Rightarrow> 'q opened \<Rightarrow> 'q opened \<Rightarrow> bool" where
  "private_event_step C combine w h b b' \<longleftrightarrow>
     open_step C combine b b' \<and> (events (inner b') w \<longrightarrow> events (inner b) w \<or> h \<in> set (ran (inner b')))"

lemma never_run_step:
  assumes "memory_channel C msgs cap" and "private_event_step C combine w h b b'" and "never_run msgs w h x b"
  shows "never_run msgs w h x b'"
proof -
  have st: "open_step C combine b b'" and ev: "events (inner b') w \<longrightarrow> h \<in> set (ran (inner b'))"
    using assms(2,3) by (auto simp: private_event_step_def never_run_def)
  from st ev assms(3) show ?thesis
  proof (induction rule: open_step.induct)
    case (run b s p)
    then have "loop_steps C (async_methods C) (inner b, Exited x) (s, p)" "conf_inv msgs (inner b, Exited x)"
      by (simp_all add: never_run_def)
    note e = memory_channel.left_steps [OF assms(1) this]
    then have "handle_frame (handles (inner b) h) (handles s h)" "next_hid (inner b) \<le> next_hid s"
      using run evolves_handle [of "(=)" msgs "inner b" s h] evolves_next [of "(=)" msgs "inner b" s]
      by (simp_all add: never_run_def)
    then show ?case using e run by (auto simp: never_run_def memory_channel.only_io_def [OF assms(1)] handle_frame_def)
  qed (auto simp: never_run_def)
qed

lemma never_run_steps:
  assumes mc: "memory_channel C msgs cap" and steps: "(private_event_step C combine w h)\<^sup>*\<^sup>* b b'"
    and b: "never_run msgs w h x b"
  shows "never_run msgs w h x b'"
  using steps b
proof (induction rule: rtranclp_induct)
  case (step b1 b2)
  then show ?case using never_run_step [OF mc step.hyps(2)] by blast
qed simp

text \<open>C17: when the loop stops after its async generators were found alive and before the task
  that is to finalize them has run, they never are, and the block is never left: that task puts its coroutine into the
  channel of a loop that takes no more messages, and whatever happens, the coroutine is not run,
  \<open>asyncgens_done\<close>, which nothing but the coroutine sets, is not set, and the block waits for it. The wait is
  shielded, so it cannot be cancelled either.\<close>

theorem late_asyncgens_never_finalized:
  assumes "memory_channel C msgs cap" and "block_inv msgs orig k me b" and "phase b = Finalizing w"
    and "\<not> events (inner b) w" and "agens_task b = Some step" and "main_pc b = Exited x"
    and "fst (run_aio_coroutine_begin (async_methods C) step (inner b)) = (s, Inr f)"
    and "(private_event_step C combine w (next_hid (inner b)))\<^sup>*\<^sup>* (agens_begin C step b) b'"
  shows "hcallback (handles (inner (agens_begin C step b)) (next_hid (inner b))) = Some step \<and>
    next_hid (inner b) \<in> set (msgs (queue (inner b'))) \<and> next_hid (inner b) \<notin> set (ran (inner b')) \<and>
    \<not> events (inner b') w \<and> phase b' = Finalizing w"
proof -
  let ?h = "next_hid (inner b)"
  note q = memory_channel.agens_queued [OF assms(1,7)]
  have a: "agens_begin C step b = b\<lparr>inner := s, agens_task := None\<rparr>"
    using assms(7) by (simp add: agens_begin_def)
  note live = assms(2) [unfolded block_inv_def]
  have "loop_inv msgs (inner b)" using live by (simp add: live_def conf_inv_def)
  then have "?h \<notin> set (ran (inner b))" by (auto simp: loop_inv_def ids_ok_def)
  moreover have "conf_inv msgs (s, Exited x)"
    using memory_channel.agens_begin_block [OF assms(1), of orig k b step] live assms(6) by (simp add: live_def a)
  ultimately have "never_run msgs w ?h x (agens_begin C step b)"
    using assms(3,4,6) q by (simp add: never_run_def a)
  then have "never_run msgs w ?h x b'" by (rule never_run_steps [OF assms(1,8)])
  then show ?thesis using q by (simp add: never_run_def a)
qed

section \<open>A block that is run\<close>

text \<open>Nurseries that group what was raised, as Trio does.\<close>

definition grouped :: "exn list \<Rightarrow> exn option" where
  "grouped es = (if es = [] then None else Some (ExcGroup False es))"

definition opened_block :: "nat option \<Rightarrow> (hid list \<times> nat option) opened" where
  "opened_block c = open_begin no_program fifo_ops grouped 7 None ([], c) 5 0 None trio_hooks"

text \<open>Steps of the main loop alone, a call of its interface, and the exit when the main loop
  needs \<open>n\<close> steps to stop.\<close>

definition own_run :: "nat \<Rightarrow> (hid list \<times> nat option) opened \<Rightarrow> (hid list \<times> nat option) opened" where
  "own_run n b = (case (own_step fifo_ops aio ^^ n) (inner b, main_pc b) of (s, p) \<Rightarrow> b\<lparr>inner := s, main_pc := p\<rparr>)"

definition api_run :: "api \<Rightarrow> (hid list \<times> nat option) opened \<Rightarrow> (hid list \<times> nat option) opened" where
  "api_run a b = b\<lparr>inner := fst (exec_api aio a (inner b))\<rparr>"

definition body_left :: "exn option \<Rightarrow> (hid list \<times> nat option) opened \<Rightarrow> (hid list \<times> nat option) opened" where
  "body_left r b = b\<lparr>phase := SyncStart, forwarded := fst (body_end r), in_flight := snd (body_end r)\<rparr>"

text \<open>The block with the body's outcome \<open>r\<close>, up to its wait for \<open>asyncgens_done\<close>.\<close>

definition synced_block :: "exn option \<Rightarrow> (hid list \<times> nat option) opened \<Rightarrow> (hid list \<times> nat option) opened" where
  "synced_block r b = own_run 2 (sync_begin fifo_ops grouped (body_left r b))"

definition finalizing ::
  "exn option \<Rightarrow> callback option \<Rightarrow> (hid list \<times> nat option) opened \<Rightarrow> (hid list \<times> nat option) opened" where
  "finalizing r step b = unwound grouped step (close_nursery (synced_block r b\<lparr>phase := Unwinding []\<rparr>))"

lemma own_run_steps:
  assumes "phase b \<noteq> Over"
  shows "open_steps fifo_ops combine b (own_run n b)"
proof -
  obtain s p where q: "(own_step fifo_ops aio ^^ n) (inner b, main_pc b) = (s, p)" by fastforce
  have "open_step fifo_ops combine b (b\<lparr>inner := s, main_pc := p\<rparr>)"
    using own_steps_steps [of fifo_ops aio "(inner b, main_pc b)" n, unfolded q] assms
    by (intro open_step.run) (simp_all add: own_run_def q)
  then show ?thesis by (simp add: own_run_def q)
qed

lemma api_run_step:
  assumes "phase b \<noteq> Over"
  shows "open_step fifo_ops combine b (api_run a b)"
proof -
  have "loop_step fifo_ops aio (inner b, main_pc b) (fst (exec_api aio a (inner b)), main_pc b)"
    by (rule loop_step.call [of aio a _ _ "snd (exec_api aio a (inner b))"]) simp
  then have "open_step fifo_ops combine b (b\<lparr>inner := fst (exec_api aio a (inner b)), main_pc := main_pc b\<rparr>)"
    using assms by (intro open_step.run) auto
  then show ?thesis by (simp add: api_run_def)
qed

text \<open>The body's end is synchronized, and no task was started in the nursery.\<close>

definition quiet_sync :: "exn option \<Rightarrow> (hid list \<times> nat option) opened \<Rightarrow> bool" where
  "quiet_sync r b \<longleftrightarrow> phase b = InBody \<and> phase (synced_block r b) = Syncing (Some 0) \<and>
     events (inner (synced_block r b)) 0 \<and> started_tasks (inner (synced_block r b)) = [] \<and>
     io_tasks (inner (synced_block r b)) = []"

lemma finalizing_steps:
  assumes "quiet_sync r b"
  shows "open_steps fifo_ops grouped (body_left r b) (finalizing r step b)"
proof -
  note q = assms [unfolded quiet_sync_def]
  let ?s = "sync_begin fifo_ops grouped (body_left r b)"
  have "open_step fifo_ops grouped (body_left r b) ?s"
    by (rule open_step.sync) (simp add: body_left_def)
  moreover have "phase ?s \<noteq> Over"
    by (auto simp: sync_begin_def body_left_def split: prod.split sum.split)
  then have "open_steps fifo_ops grouped ?s (synced_block r b)"
    using own_run_steps [of ?s grouped 2] by (simp add: synced_block_def)
  moreover have "open_step fifo_ops grouped (synced_block r b) (synced_block r b\<lparr>phase := Unwinding []\<rparr>)"
    by (rule open_step.synced [where w = "Some 0"]) (simp_all add: q)
  moreover have "open_step fifo_ops grouped (synced_block r b\<lparr>phase := Unwinding []\<rparr>)
      (close_nursery (synced_block r b\<lparr>phase := Unwinding []\<rparr>))"
    by (rule open_step.tasks_over [where aio_tasks = "[]"]) (simp_all add: q)
  moreover have "open_step fifo_ops grouped (close_nursery (synced_block r b\<lparr>phase := Unwinding []\<rparr>)) (finalizing r step b)"
    unfolding finalizing_def by (rule open_step.unwind [where aio_tasks = "[]"]) (simp_all add: close_nursery_def)
  ultimately show ?thesis by (meson converse_rtranclp_into_rtranclp rtranclp.rtrancl_into_rtrancl rtranclp_trans)
qed

lemma body_left_step: "phase b = InBody \<Longrightarrow> open_step fifo_ops combine b (body_left r b)"
  unfolding body_left_def by (rule open_step.body) simp_all

lemma opened_block_ok:
  "block_inv fst (current_hooks trio_hooks) 0 7 (opened_block c)" "phase (opened_block c) = InBody"
  "not_ended (opened_block c)"
proof -
  have h: "foreign (current_hooks trio_hooks)" "hooks_inv (current_hooks trio_hooks) 0 0 trio_hooks"
    by (simp_all add: hooks_inv_def trio_hooks_def foreign_def)
  show "block_inv fst (current_hooks trio_hooks) 0 7 (opened_block c)" "phase (opened_block c) = InBody"
    "not_ended (opened_block c)"
    unfolding opened_block_def using open_begin_ok(1,2,4) [where msgs = fst and q = "([], c)", OF _ h] by simp_all
qed

lemma finalizing_reach:
  assumes "quiet_sync r (opened_block c)"
  shows "open_steps fifo_ops grouped (opened_block c) (finalizing r step (opened_block c))"
  using finalizing_steps [OF assms] body_left_step [OF opened_block_ok(2), of grouped c r]
  by (simp add: converse_rtranclp_into_rtranclp)

lemma quiet_sync_None: "quiet_sync None (opened_block None)"
  by code_simp

theorem body_exceptions_forwarded_witness:
  "\<exists>e. leaves_opt (Some e) = [Cancelled] \<and>
     e \<in> set (nursery_errors (finalizing (Some (ExcGroup True [Cancelled, KeyError])) None (opened_block None)))"
proof -
  let ?x = "ExcGroup True [Cancelled, KeyError]"
  let ?b = "opened_block None"
  have s: "quiet_sync (Some ?x) ?b" by code_simp
  have f: "phase (finalizing (Some ?x) None ?b) = Finalizing 1" by code_simp
  have e: "body_end (Some ?x) = (Some (ExcGroup True [Cancelled]), Some (ExcGroup True [KeyError]))" by code_simp
  have "open_steps fifo_ops grouped (?b\<lparr>phase := SyncStart, forwarded := Some (ExcGroup True [Cancelled]),
      in_flight := Some (ExcGroup True [KeyError])\<rparr>) (finalizing (Some ?x) None ?b)"
    using finalizing_steps [OF s, where step = None] by (simp add: body_left_def e)
  from body_exceptions_forwarded [OF _ opened_block_ok(2) e this disjI2 [OF f]] show ?thesis
    by (intro exI [of _ "ExcGroup True [Cancelled]"]) simp
qed



text \<open>The loop is stopped just before the task that finalizes the generators runs.\<close>

definition stopped_late :: "(hid list \<times> nat option) opened" where
  "stopped_late = own_run 2 (api_run (StopLoop None) (finalizing None (Some noop) (opened_block None)))"

theorem late_asyncgens_never_finalized_witness:
  "phase (api_run (CallSoon noop) (agens_begin fifo_ops noop stopped_late)) = Finalizing 1 \<and>
   next_hid (inner stopped_late) \<notin> set (ran (inner (api_run (CallSoon noop) (agens_begin fifo_ops noop stopped_late))))"
proof -
  let ?b = "opened_block None" and ?f = "finalizing None (Some noop) (opened_block None)"
  have p: "phase ?f \<noteq> Over" "phase (api_run (StopLoop None) ?f) \<noteq> Over" by (code_simp, code_simp)
  have "open_steps fifo_ops grouped ?b stopped_late"
    unfolding stopped_late_def
    by (rule rtranclp_trans [OF rtranclp.rtrancl_into_rtrancl [OF finalizing_reach [OF quiet_sync_None] api_run_step [OF p(1)]]
        own_run_steps [OF p(2)]])
  moreover have l: "phase stopped_late = Finalizing 1" "\<not> events (inner stopped_late) 1" "agens_task stopped_late = Some noop"
    "main_pc stopped_late = Exited None"
    by (code_simp, code_simp, code_simp, code_simp)
  ultimately have inv: "block_inv fst (current_hooks trio_hooks) 0 7 stopped_late"
    using fifo.block_reach [OF _ opened_block_ok(1)] opened_block_ok(2,3) by fastforce
  have "snd (fst (run_aio_coroutine_begin aio noop (inner stopped_late))) = Inr 0" by code_simp
  then obtain t where t: "fst (run_aio_coroutine_begin aio noop (inner stopped_late)) = (t, Inr 0)"
    by (metis prod.collapse)
  have n: "phase (agens_begin fifo_ops noop stopped_late) \<noteq> Over" by code_simp
  have "\<not> events (inner (api_run (CallSoon noop) (agens_begin fifo_ops noop stopped_late))) 1" by code_simp
  then have "(private_event_step fifo_ops grouped 1 h)\<^sup>*\<^sup>* (agens_begin fifo_ops noop stopped_late)
      (api_run (CallSoon noop) (agens_begin fifo_ops noop stopped_late))" for h
    using api_run_step [OF n] by (intro r_into_rtranclp) (simp add: private_event_step_def)
  from late_asyncgens_never_finalized [OF fifo.memory_channel_axioms inv l t this]
  show ?thesis by blast
qed

end
