(* ===== verification/Open_Closing.thy ===== *)
theory Open_Closing
  imports Open_Properties
begin

text \<open>
  The end of the \<open>tasks_nursery\<close> of \<open>open_loop()\<close>: once Trio has closed it, no Trio function and
  no reader or writer of the loop is started any more, and the main loop does not survive the
  attempt.
\<close>

section \<open>The main loop after its nursery was closed\<close>

definition same_tasks :: "('q, 'z) loop_scheme \<Rightarrow> ('q, 'z) loop_scheme \<Rightarrow> bool" where
  "same_tasks s s' \<longleftrightarrow> (nursery_closed s \<longrightarrow>
     nursery_closed s' \<and> started_tasks s' = started_tasks s \<and> io_tasks s' = io_tasks s)"

lemma same_tasks_refl [simp]: "same_tasks s s"
  by (simp add: same_tasks_def)

lemma same_tasks_trans: "same_tasks a b \<Longrightarrow> same_tasks b c \<Longrightarrow> same_tasks a c"
  by (auto simp: same_tasks_def)

lemma same_tasks_cong:
  "nursery_closed s' = nursery_closed s \<Longrightarrow> started_tasks s' = started_tasks s \<Longrightarrow> io_tasks s' = io_tasks s \<Longrightarrow>
   same_tasks s s'"
  by (simp add: same_tasks_def)

lemma same_tasks_frame: "api_frame ext msgs cap s s' \<Longrightarrow> same_tasks s s'"
  by (simp add: same_tasks_def api_frame_fields api_frame_closed)

lemma same_tasks_receive: "receive C s = Some (h, s') \<Longrightarrow> same_tasks s s'"
  by (auto simp: receive_def same_tasks_def split: option.splits)

lemma same_tasks_after_one: "same_tasks s s' \<Longrightarrow> same_tasks s (fst (after_one (s', r)))"
  by (auto simp: after_one_def leave_loop_def same_tasks_def split: sum.split)

lemma cancel_fd_list_same: "same_tasks s (fst (cancel_fd_list sel s))"
proof (induction sel arbitrary: s)
  case (Cons x sel)
  have flag: "same_tasks s (fst (cancel_fd_flag b h s))" for b h and s :: "('a, 'b) loop_scheme"
    by (simp add: cancel_fd_flag_def upd_handle_def same_tasks_def split: option.split)
  have "same_tasks s (fst (cancel_fd_list sel (if b then s\<lparr>closed_fds := fds\<rparr> else s)))" for b fds and s :: "('a, 'b) loop_scheme"
    using Cons [of "if b then s\<lparr>closed_fds := fds\<rparr> else s"] by (auto simp: same_tasks_def split: if_splits)
  then show ?case
    by (cases x) (auto intro!: py_bind_rel [where R = same_tasks] flag intro: same_tasks_trans)
qed simp

lemma same_tasks_cleanup: "exit_cleanup s = (s', r) \<Longrightarrow> same_tasks s s'"
proof -
  assume x: "exit_cleanup s = (s', r)"
  have "same_tasks t (fst (cancel_fds t))" for t :: "('a, 'b) loop_scheme"
    by (simp add: cancel_fds_def cancel_fd_list_same)
  then have "same_tasks t (fst (py_bind cancel_fds (\<lambda>_ s2.
      py_return () ((cancel_timers s2)\<lparr>nursery := False, task := False, token := False\<rparr>)) t))" for t :: "('a, 'b) loop_scheme"
    by (rule py_bind_rel [where R = same_tasks])
      (auto simp: cancel_timers_effect same_tasks_cong intro: same_tasks_trans)
  from this [of "s\<lparr>asyncgen := fst (uninstall (the (dispatcher s)) (asyncgen s)), dispatcher := None\<rparr>"] show ?thesis
    using x by (auto simp: exit_cleanup_def same_tasks_def split: option.splits prod.splits sum.splits)
qed

context loop_methods
begin

lemma dispatch_same:
  assumes "dispatch M obj s = (s', r)"
  shows "same_tasks s s'"
proof (cases "\<exists>f. kind (handles s obj) = AsyncHandle f")
  case True
  then show ?thesis using assms by (cases "nursery_closed s") (auto simp: dispatch_def same_tasks_def split: if_splits)
next
  case False
  let ?s0 = "s\<lparr>sniffio := Some ''asyncio'', ran := ran s @ [obj]\<rparr>"
  obtain s1 q where b: "handle_run M obj ?s0 = (s1, q)" by fastforce
  have "same_tasks ?s0 s1" using same_tasks_frame [OF handle_run_frame, of ?s0 obj] b by simp
  moreover have "s' = s \<or> s' = s1\<lparr>sniffio := sniffio s\<rparr>"
    using assms False b by (auto simp: dispatch_def split: hkind.splits if_splits)
  ultimately show ?thesis by (auto simp: same_tasks_def)
qed

lemma accept_same: "accept M obj s = (s', r) \<Longrightarrow> same_tasks s s'"
  by (auto simp: accept_def same_tasks_cong dest: dispatch_same split: hkind.splits)

lemma top_same: "same_tasks s (fst (loop_top M s))"
proof (cases s rule: poll_timers_cases)
  case (due w obj ts t)
  obtain s2 r where d: "dispatch M obj (s\<lparr>timers := ts\<rparr>) = (s2, r)" by fastforce
  have "same_tasks s s2" using dispatch_same [OF d] by (simp add: same_tasks_def)
  then show ?thesis using due(1) d by (simp add: loop_top_def same_tasks_after_one) (simp add: leave_loop_def same_tasks_def)
qed (simp_all add: loop_top_def leave_loop_def same_tasks_def)

lemma message_same:
  assumes "loop_receive C M s = Some c"
  shows "same_tasks s (fst c)"
proof -
  obtain h s1 where rc: "receive C s = Some (h, s1)" and c': "c = after_one (accept M h s1)"
    using assms by (auto simp: loop_receive_def split: option.splits)
  obtain s2 r where a: "accept M h s1 = (s2, r)" by fastforce
  show ?thesis
    using same_tasks_after_one [OF same_tasks_trans [OF same_tasks_receive [OF rc] accept_same [OF a]]] by (simp add: c' a)
qed

lemma soon_same: "run_sync_soon_one C s = (s', r) \<Longrightarrow> same_tasks s s'"
  by (auto simp: run_sync_soon_one_def same_tasks_def Let_def split: list.splits option.splits)

lemma io_advance_same: "same_tasks s (io_advance M h wake s)"
proof -
  obtain s' pc where st: "io_step M h wake s (io_state s h) = (s', pc)" by fastforce
  then have "same_tasks s s'"
  proof (cases rule: io_step_cases)
    case (failed e)
    then show ?thesis using same_tasks_frame [OF io_except_frame, of s e] by simp
  next
    case runs
    then show ?thesis using same_tasks_frame [OF io_run_frame, of s h] by (simp add: same_tasks_def)
  qed simp
  then show ?thesis by (simp add: io_advance_def st same_tasks_def)
qed

lemma loop_step_same: "loop_step C M c c' \<Longrightarrow> same_tasks (fst c) (fst c')"
proof (induction rule: loop_step.induct)
  case (call a s s' r p)
  then show ?case using same_tasks_frame [OF exec_api_frame, of s a] by simp
next
  case (async_end h s b s' r p)
  then show ?case using same_tasks_frame [OF async_run_end_frame, of s h b]
    by (auto simp: same_tasks_def split: sum.split)
qed (auto simp: top_same message_same soon_same io_advance_same same_tasks_cong)

lemma loop_steps_same: "loop_steps C M c c' \<Longrightarrow> same_tasks (fst c) (fst c')"
  by (induction rule: rtranclp_induct) (auto intro: same_tasks_trans loop_step_same)

lemma one_nowait_same: "main_loop_one_nowait C M s = (s', r) \<Longrightarrow> same_tasks s s'"
proof -
  assume one: "main_loop_one_nowait C M s = (s', r)"
  show ?thesis
  proof (cases s rule: poll_timers_cases)
    case (due w obj ts t)
    then have "dispatch M obj (s\<lparr>timers := ts\<rparr>) = (s', r)"
      using one by (simp add: main_loop_one_nowait_def py_bind_def)
    from dispatch_same [OF this] show ?thesis by (simp add: same_tasks_def)
  next
    case (idle t)
    then show ?thesis
      using one same_tasks_trans [OF same_tasks_receive accept_same]
      by (auto simp: main_loop_one_nowait_def py_bind_def split: option.splits)
  qed (use one in \<open>simp add: main_loop_one_nowait_def py_bind_def\<close>)
qed

lemma meanwhile_same: "meanwhile C M s s' \<Longrightarrow> same_tasks s s'"
  using loop_steps_same [OF meanwhile_steps [where p = Top]] by fastforce

lemma drain_same:
  assumes "drain C M others i s = Some y" and w: "\<And>i t. meanwhile C M t (others i t)"
  shows "same_tasks s (fst y)"
  using assms(1)
proof (rule drain_induct [where P = "same_tasks s" and Q = "\<lambda>_ y. same_tasks s (fst y)"])
  fix u u' e
  assume "same_tasks s u" "main_loop_one_nowait C M u = (u', Inl e)"
  then show "same_tasks s (fst (u', if e = WouldBlock then Inr () else Inl e))"
    using same_tasks_trans one_nowait_same by fastforce
next
  fix j u u' r
  assume "same_tasks s u" "main_loop_one_nowait C M u = (u', r)"
  then have "same_tasks s (others j u')" using same_tasks_trans one_nowait_same meanwhile_same [OF w] by metis
  then show "same_tasks s (others j u') \<and> (\<forall>x. same_tasks s (fst x) \<longrightarrow> same_tasks s (fst x))" by simp
qed simp

lemma main_loop_exit_same:
  assumes "\<And>s1 u. m_stop M None s = (s1, Inr u) \<Longrightarrow> same_tasks s1 (wait s1)"
    and "main_loop_exit C M wait others s = Some x" and w: "\<And>i t. meanwhile C M t (others i t)"
  shows "same_tasks s (fst x)"
proof -
  obtain s1 r where st: "m_stop M None s = (s1, r)" by fastforce
  have s1: "same_tasks s s1" using same_tasks_frame [OF stop_frame, of s None] st by simp
  show ?thesis
  proof (cases "closed_flag s \<or> (\<exists>e. r = Inl e)")
    case True
    then have "fst x = s \<or> fst x = s1" using assms(2) unfolding main_loop_exit_def st by (auto split: if_splits)
    then show ?thesis using s1 by auto
  next
    case False
    then obtain u where r: "r = Inr u" by (cases r) auto
    obtain s2 q where d: "drain C M others 0 (wait s1) = Some (s2, q)"
      and x: "x = (case q of Inl e \<Rightarrow> (s2, Inl e) | Inr _ \<Rightarrow> exit_cleanup s2)"
      using assms(2) False st r by (auto simp: main_loop_exit_def split: option.splits sum.splits)
    have "same_tasks s s2"
      using same_tasks_trans [OF s1 same_tasks_trans [OF assms(1) drain_same [OF d w]]] st r by simp
    then show ?thesis
      using x same_tasks_cleanup [of s2] by (cases q; cases "exit_cleanup s2") (auto intro: same_tasks_trans)
  qed
qed

end

section \<open>The block\<close>

lemma open_step_same:
  assumes "memory_channel C msgs cap" and "open_step C combine b b'"
  shows "same_tasks (inner b) (inner b')"
proof -
  note lm = loop_methods_async [OF assms(1)]
  have alloc: "same_tasks s (fst (alloc_event s))" "same_tasks s (set_event w s)" for s :: "'q loop" and w
    by (simp_all add: alloc_event_def set_event_def same_tasks_def)
  have event: "same_tasks s s' \<and> same_tasks s (set_event w s')" if "alloc_event s = (s', w)" for s s' :: "'q loop" and w
    using alloc(1) [of s] same_tasks_trans [OF alloc(1) alloc(2), of s w] that by simp
  have fin: "same_tasks (inner b) (inner (finalize_begin step b))" for b :: "'q opened" and step
    by (cases "alloc_event (inner b)") (simp add: finalize_begin_def Let_def event)
  have close: "same_tasks s (fst (close_loop close_hook s))" for s :: "'q loop"
    by (simp add: close_loop_def close_hook_def asyncio_close_def py_bind_def same_tasks_def split: prod.split sum.split)
  have end': "same_tasks s (inner (open_end x p b))" if "same_tasks s (fst x)" for s x p and b :: "'q opened"
    using same_tasks_trans [OF that close] by (cases "close_loop close_hook (fst x)") (auto simp: open_end_def Let_def split: sum.split)
  from assms(2) show ?thesis
  proof (induction rule: open_step.induct)
    case (run b s p)
    then show ?case using loop_methods.loop_steps_same [OF lm] by fastforce
  next
    case (sync b)
    then show ?case
      using same_tasks_frame [OF loop_methods.synchronize_begin_frame [OF lm], of "inner b"]
      by (auto simp: sync_begin_def split: prod.split sum.split)
  next
    case (tasks_over b aio_tasks)
    then show ?case by (simp add: close_nursery_def same_tasks_def)
  next
    case (unwind b aio_tasks step)
    then show ?case using fin [of "b\<lparr>in_flight := _\<rparr>"] by (simp add: unwound_def)
  next
    case (agens b step)
    then show ?case
      using same_tasks_frame [OF costs_frame [OF memory_channel.run_aio_coroutine_cost [OF assms(1)]], of "inner b" step]
      by (auto simp: agens_begin_def split: prod.split sum.split)
  next
    case (leave_waiting b w s1 u s2 e others x)
    have "same_tasks s1 s2" using loop_methods.loop_steps_same [OF lm] leave_waiting(5) by fastforce
    then have "same_tasks (inner b) (fst x)"
      using loop_methods.main_loop_exit_same [OF lm _ leave_waiting(7)] leave_waiting(4,6) \<open>same_tasks s1 s2\<close> by simp
    then show ?case by (rule end')
  next
    case (leave_now b w s1 e x)
    then have "same_tasks (inner b) (fst x)" using loop_methods.main_loop_exit_same [OF lm, where wait = "\<lambda>s. s" and others = "\<lambda>_ s. s"] by simp
    then show ?case by (rule end')
  qed simp_all
qed

lemma open_steps_same:
  assumes "memory_channel C msgs cap" and "open_steps C combine b b'"
  shows "same_tasks (inner b) (inner b')"
  using assms(2) by (induction rule: rtranclp_induct) (auto intro: same_tasks_trans open_step_same [OF assms(1)])

text \<open>The last phases come after the nursery was closed.\<close>

definition closed_late :: "'q opened \<Rightarrow> bool" where
  "closed_late b \<longleftrightarrow> (phase b = Over \<or> (\<exists>w. phase b = Finalizing w) \<longrightarrow> nursery_closed (inner b))"

lemma finalize_closed: "nursery_closed (inner (finalize_begin step b)) = nursery_closed (inner b)"
  by (simp add: finalize_begin_def alloc_event_def set_event_def Let_def)

lemma closed_late_step:
  assumes "memory_channel C msgs cap" and "open_step C combine b b'" and "closed_late b"
  shows "closed_late b'"
proof -
  have s: "nursery_closed (inner b) \<Longrightarrow> nursery_closed (inner b')"
    using open_step_same [OF assms(1,2)] by (simp add: same_tasks_def)
  from assms(2) have "nursery_closed (inner b) \<or> (phase b' \<noteq> Over \<and> (\<forall>w. phase b' \<noteq> Finalizing w))"
  proof cases
    case sync
    then show ?thesis by (auto simp: sync_begin_def split: prod.split sum.split)
  next
    case agens
    then show ?thesis using assms(3)
      by (auto simp: agens_begin_def closed_late_def split: prod.split sum.split)
  next
    case tasks_over
    then show ?thesis by (simp add: close_nursery_def)
  qed (use assms(3) in \<open>auto simp: closed_late_def\<close>)
  then show ?thesis using s by (auto simp: closed_late_def)
qed

lemma closed_late_reach:
  assumes "memory_channel C msgs cap" and "open_steps C combine (open_begin prog C combine me old q ssock tm library hooks) b"
  shows "closed_late b"
  using assms(2)
proof (induction rule: rtranclp_induct)
  case base
  then show ?case
    by (auto simp: open_begin_def closed_late_def finalize_closed close_nursery_def Let_def split: prod.split sum.split)
next
  case (step b b')
  then show ?case using closed_late_step [OF assms(1)] by blast
qed

text \<open>C18: once the block of \<open>open_loop()\<close> has left the \<open>tasks_nursery\<close>, the loop starts no Trio
  function and no task of a reader or writer any more, whatever callbacks, other tasks and
  threads ask for; if the main loop takes the handle of a Trio function from the channel, it
  ends with Trio's \<open>RuntimeError\<close>, and the function's future is left as it was.\<close>

theorem nothing_starts_after_closing:
  assumes "memory_channel C msgs cap" and "msgs q = []" and "foreign orig" and "hooks_inv orig k d hooks"
    and "open_steps C combine (open_begin prog C combine me old q ssock tm library hooks) b" and "phase b = Finalizing w"
    and "open_steps C combine b b'"
  shows "started_tasks (inner b') = started_tasks (inner b) \<and> io_tasks (inner b') = io_tasks (inner b) \<and>
    (\<forall>h f rest dl. phase b' \<noteq> Over \<and> main_pc b' = Waiting dl \<and> msgs (queue (inner b')) = h # rest \<and>
         kind (handles (inner b') h) = AsyncHandle f \<longrightarrow>
       (\<exists>s. loop_receive C (async_methods C) (inner b') = Some (s, Exited (Some nursery_is_closed)) \<and>
          futures s = futures (inner b')))"
proof -
  let ?b0 = "open_begin prog C combine me old q ssock tm library hooks"
  have nc: "nursery_closed (inner b)" using closed_late_reach [OF assms(1,5)] assms(6) by (simp add: closed_late_def)
  then have same: "nursery_closed (inner b')" "started_tasks (inner b') = started_tasks (inner b)"
    "io_tasks (inner b') = io_tasks (inner b)"
    using open_steps_same [OF assms(1,7)] by (simp_all add: same_tasks_def)
  have "\<exists>s. loop_receive C (async_methods C) (inner b') = Some (s, Exited (Some nursery_is_closed)) \<and>
      futures s = futures (inner b')"
    if b': "phase b' \<noteq> Over" "msgs (queue (inner b')) = h # rest" "kind (handles (inner b') h) = AsyncHandle f" for h f rest
  proof -
    note ok = open_begin_ok [where msgs = msgs and q = q, OF assms(2-4), where C = C and combine = combine and me = me
        and old = old and ssock = ssock and tm = tm and library = library]
    have "open_steps C combine ?b0 b'" using assms(5,7) by simp
    then have "block_inv msgs orig k me b'"
      using memory_channel.block_reach [OF assms(1) _ ok(1)] ok(2,4) b'(1) by fastforce
    then have "nursery (inner b')" by (simp add: block_inv_def live_def conf_inv_def loop_inv_def)
    moreover obtain s1 where rc: "receive C (inner b') = Some (h, s1)"
      using memory_channel.receive_None_iff [OF assms(1), of "queue (inner b')"]
        memory_channel.receive_msgs [OF assms(1), of "queue (inner b')"] b'(2)
      by (cases "receive_nowait C (queue (inner b'))") (auto simp: receive_def)
    then have "nursery s1 = nursery (inner b')" "nursery_closed s1" "handles s1 = handles (inner b')" "futures s1 = futures (inner b')"
      using same(1) by (auto simp: receive_def split: option.splits)
    ultimately have "accept (async_methods C) h s1 = (s1, Inl nursery_is_closed)" using b'(3)
      by (simp add: accept_def dispatch_def)
    then show ?thesis using rc \<open>futures s1 = futures (inner b')\<close>
      by (simp add: loop_receive_def after_one_def leave_loop_def)
  qed
  then show ?thesis using same(2,3) by blast
qed

text \<open>A callback asks for a Trio function after the nursery was closed.\<close>

definition asked_late :: "(hid list \<times> nat option) opened" where
  "asked_late = own_run 1 (api_run (TrioAsFuture (TrioProc 0)) (own_run 1 (finalizing None None (opened_block None))))"

theorem nothing_starts_after_closing_witness:
  "started_tasks (inner asked_late) = started_tasks (inner (finalizing None None (opened_block None))) \<and>
   main_pc asked_late = Exited (Some nursery_is_closed) \<and> fstate (futures (inner asked_late) 0) = Pending"
proof -
  let ?b = "opened_block None" and ?f = "finalizing None None (opened_block None)"
  have p: "phase ?f = Finalizing 1" "phase (own_run 1 ?f) \<noteq> Over" "main_pc asked_late = Exited (Some nursery_is_closed)"
    "phase (api_run (TrioAsFuture (TrioProc 0)) (own_run 1 ?f)) \<noteq> Over" "fstate (futures (inner asked_late) 0) = Pending"
    by (code_simp, code_simp, code_simp, code_simp, code_simp)
  have r: "open_steps fifo_ops grouped (open_begin no_program fifo_ops grouped 7 None ([], None) 5 0 None trio_hooks) ?f"
    using finalizing_reach [OF quiet_sync_None, where step = None] by (simp add: opened_block_def)
  have s: "open_steps fifo_ops grouped ?f asked_late"
    unfolding asked_late_def
    by (rule rtranclp_trans [OF rtranclp.rtrancl_into_rtrancl [OF own_run_steps api_run_step] own_run_steps]) (use p in simp_all)
  have h: "foreign (current_hooks trio_hooks)" "hooks_inv (current_hooks trio_hooks) 0 0 trio_hooks"
    by (simp_all add: hooks_inv_def trio_hooks_def foreign_def)
  have "fst ([], None :: nat option) = ([] :: hid list)" by simp
  from conjunct1 [OF nothing_starts_after_closing [OF fifo.memory_channel_axioms this h r p(1) s]] p(3,5)
  show ?thesis by (intro conjI)
qed

end
