(* ===== verification/Public_Api.thy ===== *)
theory Public_Api
  imports Adapter Open_Closing
begin

text \<open>
  The functions of the package that stand beside the loop's methods: \<open>run\<close>,
  \<open>run_trio\<close>, \<open>run_trio_task\<close> and \<open>run_aio_coroutine\<close> of \<open>_loop.py\<close>, and what becomes of a
  request made by a wrapper of \<open>_adapter.py\<close>. The caller's thread and the loops it may mean
  come together here.
\<close>

section \<open>The current loop's methods\<close>

text \<open>The caller's thread, and the loops by number.\<close>

record ('p, 'q) world =
  caller :: "'p thread"
  loop_of :: "lid \<Rightarrow> 'q loop"

definition in_caller :: "('p thread, 'a) py \<Rightarrow> (('p, 'q) world, 'a) py" where
  "in_caller f w = (case f (caller w) of (t, r) \<Rightarrow> (w\<lparr>caller := t\<rparr>, r))"

definition in_loop :: "lid \<Rightarrow> ('q loop, 'a) py \<Rightarrow> (('p, 'q) world, 'a) py" where
  "in_loop l f w = (case f (loop_of w l) of (s, r) \<Rightarrow> (w\<lparr>loop_of := (loop_of w)(l := s)\<rparr>, r))"

text \<open>Trio functions are numbered, a coroutine is given by its first step. The coroutine of
  \<open>run_aio_coroutine\<close> waits for the future returned here by \<open>run_aio_future\<close>.\<close>

definition api_run_trio :: "'q loop methods \<Rightarrow> nat \<Rightarrow> (('p, 'q) world, fid) py" where
  "api_run_trio M n = py_bind (in_caller running_loop_or_raise) (\<lambda>l. in_loop l (trio_as_future M (TrioProc n)))"

definition api_run_trio_task :: "'q loop methods \<Rightarrow> nat \<Rightarrow> (('p, 'q) world, unit) py" where
  "api_run_trio_task M n =
     py_bind (in_caller running_loop_or_raise)
       (\<lambda>l. py_bind (in_loop l (run_trio_task M (TrioProc n))) (\<lambda>_. py_return ()))"

definition api_run_aio_coroutine :: "'q loop methods \<Rightarrow> callback \<Rightarrow> (('p, 'q) world, fid) py" where
  "api_run_aio_coroutine M step =
     py_bind (in_caller running_loop_or_raise) (\<lambda>l. in_loop l (\<lambda>s. fst (run_aio_coroutine_begin M step s)))"

text \<open>The request of a wrapper, when it is made of a loop at once: \<open>code\<close> numbers the Trio
  functions, \<open>first\<close> gives the first steps of coroutines.\<close>

definition serve ::
  "'q loop methods \<Rightarrow> (job \<Rightarrow> nat) \<Rightarrow> (job \<Rightarrow> callback) \<Rightarrow> exn + request \<Rightarrow> (('p, 'q) world, fid option) py" where
  "serve M code first r =
     (case r of
        Inl e \<Rightarrow> py_raise e
      | Inr (request.TrioAsFuture l j) \<Rightarrow> py_bind (in_loop l (trio_as_future M (TrioProc (code j)))) (\<lambda>f. py_return (Some f))
      | Inr (request.RunAioCoroutine l j) \<Rightarrow>
          py_bind (in_loop l (\<lambda>s. fst (run_aio_coroutine_begin M (first j) s))) (\<lambda>f. py_return (Some f))
      | Inr _ \<Rightarrow> py_return None)"

text \<open>A wrapper that was given no loop does what the function of the module does.\<close>

lemma wrapped_call_is_run_trio:
  assumes "current_loop_get (caller w) = Some l"
  shows "serve M code first (trio_call (trio_as_aio p None) xs (caller w)) w =
      py_bind (api_run_trio M (code (CallOf p xs))) (\<lambda>f. py_return (Some f)) w"
    and "serve M code first (aio_call (aio_as_trio p None) xs (caller w)) w =
      py_bind (api_run_aio_coroutine M (first (CallDefer p xs))) (\<lambda>f. py_return (Some f)) w"
  using assms
  by (simp_all add: serve_def trio_call_def trio_as_aio_def trio_wrapper_loop_def aio_call_def aio_as_trio_def wrapper_loop_def
      on_loop_def api_run_trio_def api_run_aio_coroutine_def in_caller_def running_loop_or_raise_def py_bind_def)

section \<open>run\<close>





section \<open>Exceptions reach the caller of run\<close>

text \<open>Trio's nurseries lose no exceptions but cancellations, which end at the scope that was
  cancelled.\<close>

definition errors_in :: "exn \<Rightarrow> exn set" where
  "errors_in e = {y \<in> set (leaves e). \<not> is_Cancelled y}"

definition errors_opt :: "exn option \<Rightarrow> exn set" where
  "errors_opt m = (case m of None \<Rightarrow> {} | Some e \<Rightarrow> errors_in e)"

lemma errors_opt_simps [simp]: "errors_opt None = {}" "errors_opt (Some e) = errors_in e"
  by (simp_all add: errors_opt_def)














end
