(* ===== verification/Asyncio_Patches.thy ===== *)
theory Asyncio_Patches
  imports Policy
begin

text \<open>
  What importing \<open>_loop.py\<close> does to asyncio: eight of its functions are replaced in the
  modules that export them, the interpreter's policy becomes a \<open>TrioPolicy\<close>. What can be
  noticed of this outside Trio: the loops that are made are of another class, as the comment at
  the head of \<open>_loop.py\<close> says, and a loop that was set before the import is forgotten.
\<close>

section \<open>asyncio's functions\<close>

datatype api =
    GetPolicy
  | SetPolicy
  | GetRunning
  | GetRunningOrThrow
  | GetLoop
  | SetLoop
  | NewLoop
  | CurrentTask

text \<open>A function object: asyncio's own, or the one of \<open>_loop.py\<close> meant for its place. A name
  is looked up in a module.\<close>

datatype impl = Std api | New api

datatype modname = Asyncio | Events | Tasks

datatype arg = NoArg | PolicyArg policy_arg | LoopArg "lid option"

datatype answer = IsNone | IsPolicy policy | IsLoop "lid option" | IsTask nat

text \<open>
  The interpreter: its thread, the policy that asyncio itself goes by, \<open>_original_policy\<close>, the
  module attributes, and the variables \<open>_orig_...\<close>.
\<close>

record 'p process =
  thr :: "'p thread"
  actual :: policy
  original_policy :: "policy option"
  names :: "modname \<times> api \<Rightarrow> impl option"
  saved :: "api \<Rightarrow> impl option"

definition in_thread :: "('p thread, 'a) py \<Rightarrow> ('p process, 'a) py" where
  "in_thread f P = (case f (thr P) of (t, r) \<Rightarrow> (P\<lparr>thr := t\<rparr>, r))"

definition answer_with :: "('a \<Rightarrow> answer) \<Rightarrow> ('s, 'a) py \<Rightarrow> ('s, answer) py" where
  "answer_with g f = py_bind f (\<lambda>x. py_return (g x))"

text \<open>
  The methods of the policy that asyncio goes by. \<open>OriginalPolicy\<close> is asyncio's default policy.
\<close>

fun policy_new :: "'p user_policy \<Rightarrow> policy \<Rightarrow> ('p thread, lid) py" where
  "policy_new U TheTrioPolicy = new_event_loop U"
| "policy_new U OriginalPolicy = make_loop StockEventLoop"
| "policy_new U (UserPolicy p) = in_user (u_new U p)"

fun policy_get :: "'p user_policy \<Rightarrow> policy \<Rightarrow> ('p thread, lid option) py" where
  "policy_get U TheTrioPolicy = get_event_loop U"
| "policy_get U OriginalPolicy =
     base_get_event_loop OriginalPolicy (make_loop StockEventLoop) (base_set_event_loop OriginalPolicy)"
| "policy_get U (UserPolicy p) = in_user (u_get U p)"

fun policy_set :: "'p user_policy \<Rightarrow> policy \<Rightarrow> lid option \<Rightarrow> ('p thread, unit) py" where
  "policy_set U TheTrioPolicy l = set_event_loop U l"
| "policy_set U OriginalPolicy l = base_set_event_loop OriginalPolicy l"
| "policy_set U (UserPolicy p) l = in_user (u_set U p l)"

text \<open>A policy object that was just constructed. Setting the policy to \<open>None\<close> makes asyncio
  start a default policy afresh.\<close>

definition fresh_policy :: "policy \<Rightarrow> 'p thread \<Rightarrow> 'p thread" where
  "fresh_policy p t =
     t\<lparr>local_loop := (local_loop t)(p := None), set_called := (set_called t)(p := False), watcher := (watcher t)(p := None)\<rparr>"

fun std_policy_set :: "bool \<Rightarrow> policy_arg \<Rightarrow> ('p process, unit) py" where
  "std_policy_set py311 ATrioPolicy P = py_return () (P\<lparr>actual := TheTrioPolicy\<rparr>)"
| "std_policy_set py311 NoPolicy P =
     py_return () (P\<lparr>actual := OriginalPolicy, thr := fresh_policy OriginalPolicy (thr P)\<rparr>)"
| "std_policy_set py311 (APolicy p) P = py_return () (P\<lparr>actual := UserPolicy p\<rparr>)"
| "std_policy_set py311 NotAPolicy P = py_raise (if py311 then TypeError else AssertionError) P"

text \<open>asyncio's functions, and those of \<open>_loop.py\<close>; \<open>tasks_of\<close> gives the current task of a
  loop, whose argument may be left out (\<open>LoopArg None\<close>). A call with the wrong arguments is a
  \<open>TypeError\<close>.\<close>

fun std_call ::
  "'p user_policy \<Rightarrow> (lid option \<Rightarrow> nat) \<Rightarrow> bool \<Rightarrow> api \<Rightarrow> arg \<Rightarrow> ('p process, answer) py" where
  "std_call U tasks_of v GetPolicy NoArg P = py_return (IsPolicy (actual P)) P"
| "std_call U tasks_of v SetPolicy (PolicyArg p) P = answer_with (\<lambda>_. IsNone) (std_policy_set v p) P"
| "std_call U tasks_of v GetRunning NoArg P = py_return (IsLoop (c_running (thr P))) P"
| "std_call U tasks_of v GetRunningOrThrow NoArg P =
     (case c_running (thr P) of None \<Rightarrow> py_raise (RuntimeError ''no running event loop'') P
      | Some l \<Rightarrow> py_return (IsLoop (Some l)) P)"
| "std_call U tasks_of v GetLoop NoArg P =
     (case c_running (thr P) of
        Some l \<Rightarrow> py_return (IsLoop (Some l)) P
      | None \<Rightarrow> answer_with IsLoop (in_thread (policy_get U (actual P))) P)"
| "std_call U tasks_of v SetLoop (LoopArg l) P = answer_with (\<lambda>_. IsNone) (in_thread (policy_set U (actual P) l)) P"
| "std_call U tasks_of v NewLoop NoArg P = answer_with (\<lambda>l. IsLoop (Some l)) (in_thread (policy_new U (actual P))) P"
| "std_call U tasks_of v CurrentTask (LoopArg l) P =
     py_return (IsTask (tasks_of (case l of Some _ \<Rightarrow> l | None \<Rightarrow> c_running (thr P)))) P"
| "std_call U tasks_of v _ _ P = py_raise TypeError P"

definition original_or :: "'p process \<Rightarrow> policy \<Rightarrow> ('p process, answer) py" where
  "original_or P p =
     (case p of
        OriginalPolicy \<Rightarrow> (case original_policy P of None \<Rightarrow> py_raise AttributeError | Some q \<Rightarrow> py_return (IsPolicy q))
      | _ \<Rightarrow> py_return (IsPolicy p))"

fun new_call ::
  "'p user_policy \<Rightarrow> (lid option \<Rightarrow> nat) \<Rightarrow> bool \<Rightarrow> api \<Rightarrow> arg \<Rightarrow> ('p process, answer) py" where
  "new_call U tasks_of v GetPolicy NoArg P = original_or P (new_policy_get (thr P)) P"
| "new_call U tasks_of v SetPolicy (PolicyArg p) P = answer_with (\<lambda>_. IsNone) (in_thread (new_policy_set v p)) P"
| "new_call U tasks_of v GetRunning NoArg P = py_return (IsLoop (new_run_get (thr P))) P"
| "new_call U tasks_of v GetRunningOrThrow NoArg P =
     answer_with (\<lambda>l. IsLoop (Some l)) (in_thread new_run_get_or_throw) P"
| "new_call U tasks_of v GetLoop NoArg P = answer_with IsLoop (in_thread (new_loop_get U)) P"
| "new_call U tasks_of v SetLoop (LoopArg l) P = answer_with (\<lambda>_. IsNone) (in_thread (new_loop_set U l)) P"
| "new_call U tasks_of v NewLoop NoArg P = answer_with (\<lambda>l. IsLoop (Some l)) (in_thread (new_loop_new U)) P"
| "new_call U tasks_of v CurrentTask (LoopArg l) P = py_return (IsTask (new_current_task tasks_of l (thr P))) P"
| "new_call U tasks_of v _ _ P = py_raise TypeError P"

definition call_impl ::
  "'p user_policy \<Rightarrow> (lid option \<Rightarrow> nat) \<Rightarrow> bool \<Rightarrow> impl option \<Rightarrow> arg \<Rightarrow> ('p process, answer) py" where
  "call_impl U tasks_of v f x =
     (case f of
        None \<Rightarrow> py_raise AttributeError
      | Some (Std a) \<Rightarrow> std_call U tasks_of v a x
      | Some (New a) \<Rightarrow> new_call U tasks_of v a x)"

text \<open>A call written \<open>m.a(x)\<close>.\<close>

definition asyncio_call ::
  "'p user_policy \<Rightarrow> (lid option \<Rightarrow> nat) \<Rightarrow> bool \<Rightarrow> modname \<times> api \<times> arg \<Rightarrow> ('p process, answer) py" where
  "asyncio_call U tasks_of v c P = (case c of (m, a, x) \<Rightarrow> call_impl U tasks_of v (names P (m, a)) x P)"

section \<open>The import of the module\<close>

definition save :: "api \<Rightarrow> modname \<Rightarrow> 'p process \<Rightarrow> 'p process" where
  "save a m P = P\<lparr>saved := (saved P)(a := names P (m, a))\<rparr>"

definition put :: "modname \<Rightarrow> api \<Rightarrow> api \<Rightarrow> 'p process \<Rightarrow> 'p process" where
  "put m a f P = P\<lparr>names := (names P)((m, a) \<mapsto> New f)\<rparr>"

definition patch_policy :: "'p process \<Rightarrow> 'p process" where
  "patch_policy P =
     (let P = save SetPolicy Events (save GetPolicy Events P);
          P = put Events SetPolicy SetPolicy (put Events GetPolicy GetPolicy P)
      in put Asyncio SetPolicy SetPolicy (put Asyncio GetPolicy GetPolicy P))"

definition patch_running :: "'p process \<Rightarrow> 'p process" where
  "patch_running P =
     (let P = save GetRunning Events P;
          P = put Events GetRunningOrThrow GetRunningOrThrow (put Events GetRunning GetRunning P)
      in put Asyncio GetRunningOrThrow GetRunningOrThrow (put Asyncio GetRunning GetRunning P))"

definition patch_loops :: "'p process \<Rightarrow> 'p process" where
  "patch_loops P =
     (let P = save NewLoop Events (save SetLoop Events (save GetLoop Events P));
          P = put Events NewLoop NewLoop (put Events SetLoop SetLoop (put Events GetLoop GetLoop P))
      in put Asyncio NewLoop NewLoop (put Asyncio SetLoop SetLoop (put Asyncio GetLoop GetLoop P)))"

definition patch_current_task :: "'p process \<Rightarrow> 'p process" where
  "patch_current_task P =
     (let P = save CurrentTask Asyncio P
      in put Asyncio CurrentTask CurrentTask (put Tasks CurrentTask CurrentTask P))"

text \<open>\<open>_original_policy = _orig_policy_get()\<close>, \<open>_trio_policy = TrioPolicy()\<close> and
  \<open>_orig_policy_set(_trio_policy)\<close>\<close>

definition install_policy ::
  "'p user_policy \<Rightarrow> (lid option \<Rightarrow> nat) \<Rightarrow> bool \<Rightarrow> ('p process, unit) py" where
  "install_policy U tasks_of v P =
     py_bind (call_impl U tasks_of v (saved P GetPolicy) NoArg)
       (\<lambda>q. py_bind
          (\<lambda>P. py_return () (P\<lparr>original_policy := (case q of IsPolicy p \<Rightarrow> Some p | _ \<Rightarrow> None),
             thr := fresh_policy TheTrioPolicy (thr P)\<rparr>))
          (\<lambda>_. py_bind (call_impl U tasks_of v (saved P SetPolicy) (PolicyArg ATrioPolicy)) (\<lambda>_. py_return ()))) P"

definition import_loop ::
  "'p user_policy \<Rightarrow> (lid option \<Rightarrow> nat) \<Rightarrow> bool \<Rightarrow> ('p process, unit) py" where
  "import_loop U tasks_of v P =
     install_policy U tasks_of v (patch_current_task (patch_loops (patch_running (patch_policy P))))"

section \<open>Outside Trio\<close>

text \<open>An interpreter with asyncio alone, outside Trio, on its default policy. \<open>asyncio\<close> exports
  all the functions, \<open>asyncio.events\<close> all but \<open>current_task\<close>.\<close>

definition stock_names :: "modname \<times> api \<Rightarrow> impl option" where
  "stock_names k =
     (case k of
        (Asyncio, a) \<Rightarrow> Some (Std a)
      | (Events, a) \<Rightarrow> if a = CurrentTask then None else Some (Std a)
      | (Tasks, a) \<Rightarrow> if a = CurrentTask then Some (Std a) else None)"

definition stock_process :: "'p process \<Rightarrow> bool" where
  "stock_process P \<longleftrightarrow> names P = stock_names \<and> actual P = OriginalPolicy \<and>
     trio_task (thr P) = None \<and> faked (thr P) = None"

fun calls ::
  "'p user_policy \<Rightarrow> (lid option \<Rightarrow> nat) \<Rightarrow> bool \<Rightarrow> (modname \<times> api \<times> arg) list \<Rightarrow> 'p process \<Rightarrow>
   'p process \<times> (exn + answer) list" where
  "calls U tasks_of v [] P = (P, [])"
| "calls U tasks_of v (c # cs) P =
     (case asyncio_call U tasks_of v c P of
        (P', r) \<Rightarrow> (case calls U tasks_of v cs P' of (P'', rs) \<Rightarrow> (P'', r # rs)))"

text \<open>The thread with trio-asyncio imported, beside the one without: Trio's policy has here what
  the default policy has there, and the loops made since (from number \<open>n\<close> on) are of another class.\<close>

definition loops_from :: "lid \<Rightarrow> loop_class \<Rightarrow> (lid \<Rightarrow> loop_class option) \<Rightarrow> lid \<Rightarrow> lid \<Rightarrow> loop_class option" where
  "loops_from n c old m l = (if n \<le> l \<and> l < m then Some c else old l)"

definition same_thread :: "lid \<Rightarrow> (lid \<Rightarrow> loop_class option) \<Rightarrow> 'p thread \<Rightarrow> 'p thread \<Rightarrow> bool" where
  "same_thread n old t u \<longleftrightarrow>
     trio_task t = None \<and> trio_task u = None \<and> contexts t = contexts u \<and> context_now t = context_now u \<and>
     local_loop t TheTrioPolicy = local_loop u OriginalPolicy \<and> set_called t TheTrioPolicy = set_called u OriginalPolicy \<and>
     watcher t TheTrioPolicy = watcher u OriginalPolicy \<and> c_running t = c_running u \<and> main_thread t = main_thread u \<and>
     next_loop t = next_loop u \<and> n \<le> next_loop u \<and> users t = users u \<and>
     class_of t = loops_from n SyncTrioEventLoop old (next_loop t) \<and>
     class_of u = loops_from n StockEventLoop old (next_loop u)"

abbreviation in_force :: "policy_id option \<Rightarrow> policy" where
  "in_force f \<equiv> (case f of None \<Rightarrow> OriginalPolicy | Some p \<Rightarrow> UserPolicy p)"

definition alike :: "lid \<Rightarrow> (lid \<Rightarrow> loop_class option) \<Rightarrow> 'p process \<Rightarrow> 'p process \<Rightarrow> bool" where
  "alike n old P Q \<longleftrightarrow>
     names P = (\<lambda>k. map_option (\<lambda>f. New (snd k)) (stock_names k)) \<and> actual P = TheTrioPolicy \<and>
     original_policy P = Some OriginalPolicy \<and> names Q = stock_names \<and>
     same_thread n old (thr P) (thr Q) \<and> actual Q = in_force (faked (thr P))"

text \<open>The same method of the two policies.\<close>

definition same_result :: "lid \<Rightarrow> (lid \<Rightarrow> loop_class option) \<Rightarrow> policy_id option \<Rightarrow> 'p thread \<times> 'a \<Rightarrow> 'p thread \<times> 'a \<Rightarrow> bool" where
  "same_result n old f x y \<longleftrightarrow> same_thread n old (fst x) (fst y) \<and> faked (fst x) = f \<and> snd x = snd y"

lemma same_in_user:
  "same_thread n old t u \<Longrightarrow> same_result n old (faked t) (in_user m t) (in_user m u)"
  by (auto simp: in_user_def same_result_def same_thread_def split: prod.split)

lemma same_make:
  "same_thread n old t u \<Longrightarrow>
   same_result n old (faked t) (make_loop SyncTrioEventLoop t) (make_loop StockEventLoop u)"
  by (auto simp: make_loop_def same_result_def same_thread_def loops_from_def fun_eq_iff)

lemma same_set:
  "same_thread n old t u \<Longrightarrow>
   same_result n old (faked t) (base_set_event_loop TheTrioPolicy l t) (base_set_event_loop OriginalPolicy l u)"
  by (simp add: base_set_event_loop_def same_result_def same_thread_def)

lemma same_bind:
  assumes "same_result n old f (g t) (h u)"
    and "\<And>x t' u'. same_thread n old t' u' \<Longrightarrow> faked t' = f \<Longrightarrow> same_result n old f (g' x t') (h' x u')"
  shows "same_result n old f (py_bind g g' t) (py_bind h h' u)"
  using assms by (auto simp: py_bind_def same_result_def split: prod.splits sum.splits)

lemma same_get:
  assumes st: "same_thread n old t u" and f: "faked t = None"
  shows "same_result n old None
    (base_get_event_loop TheTrioPolicy (new_event_loop U) (set_event_loop U) t)
    (base_get_event_loop OriginalPolicy (make_loop StockEventLoop) (base_set_event_loop OriginalPolicy) u)"
proof -
  have outside: "\<not> in_trio_context x \<and> \<not> in_trio_context_other_than_sync_loop x" if "same_thread n old x y" for x y
    using that by (simp add: same_thread_def in_trio_context_def in_trio_context_other_than_sync_loop_def)
  have mk: "same_result n old None (new_event_loop U x) (make_loop StockEventLoop y)"
    if "same_thread n old x y" "faked x = None" for x y
    using same_make [OF that(1)] outside [OF that(1)] that(2) by (simp add: new_event_loop_def)
  have give: "same_result n old None (set_event_loop U l x) (base_set_event_loop OriginalPolicy l y)"
    if "same_thread n old x y" "faked x = None" for l x y
    using same_set [OF that(1)] outside [OF that(1)] that(2) by (simp add: set_event_loop_def)
  have init: "same_result n old None
      (py_bind (new_event_loop U) (\<lambda>l. set_event_loop U (Some l)) t)
      (py_bind (make_loop StockEventLoop) (\<lambda>l. base_set_event_loop OriginalPolicy (Some l)) u)"
    by (rule same_bind) (use mk [OF st f] give in simp_all)
  show ?thesis unfolding base_get_event_loop_def
  proof (rule same_bind)
    show "same_result n old None
      (if local_loop t TheTrioPolicy = None \<and> \<not> set_called t TheTrioPolicy \<and> main_thread t
       then py_bind (new_event_loop U) (\<lambda>l. set_event_loop U (Some l)) t else py_return () t)
      (if local_loop u OriginalPolicy = None \<and> \<not> set_called u OriginalPolicy \<and> main_thread u
       then py_bind (make_loop StockEventLoop) (\<lambda>l. base_set_event_loop OriginalPolicy (Some l)) u else py_return () u)"
      using init st f by (simp add: same_thread_def same_result_def)
  qed (simp add: same_thread_def same_result_def)
qed

lemma same_methods:
  assumes st: "same_thread n old t u"
  shows "same_result n old (faked t) (new_event_loop U t) (policy_new U (in_force (faked t)) u)"
    and "same_result n old (faked t) (get_event_loop U t) (policy_get U (in_force (faked t)) u)"
    and "same_result n old (faked t) (set_event_loop U l t) (policy_set U (in_force (faked t)) l u)"
proof -
  have outside: "\<not> in_trio_context t" "\<not> in_trio_context_other_than_sync_loop t" "trio_task t = None"
    using st by (simp_all add: same_thread_def in_trio_context_def in_trio_context_other_than_sync_loop_def)
  show "same_result n old (faked t) (new_event_loop U t) (policy_new U (in_force (faked t)) u)"
    using outside same_make [OF st] same_in_user [OF st, where m = "u_new U _"]
    by (cases "faked t") (simp_all add: new_event_loop_def)
  show "same_result n old (faked t) (get_event_loop U t) (policy_get U (in_force (faked t)) u)"
  proof (cases "faked t")
    case None
    then show ?thesis using same_get [OF st None, of U] outside by (simp add: get_event_loop_def)
  next
    case (Some p)
    then show ?thesis using same_in_user [OF st, of "u_get U p"] outside by (simp add: get_event_loop_def)
  qed
  show "same_result n old (faked t) (set_event_loop U l t) (policy_set U (in_force (faked t)) l u)"
    using outside same_set [OF st] same_in_user [OF st, where m = "u_set U _ l"]
    by (cases "faked t") (simp_all add: set_event_loop_def)
qed

text \<open>A policy is set; \<open>None\<close> and Trio's policy are told apart from the others below.\<close>

definition plain_call :: "modname \<times> api \<times> arg \<Rightarrow> bool" where
  "plain_call c \<longleftrightarrow> snd (snd c) \<noteq> PolicyArg ATrioPolicy \<and> snd (snd c) \<noteq> PolicyArg NoPolicy"

lemma alike_answer:
  assumes "alike n old P Q" and "same_result n old (faked (thr P)) (g' (thr P)) (g (thr Q))"
  shows "snd (answer_with h (in_thread g') P) = snd (answer_with h (in_thread g) Q) \<and>
    alike n old (fst (answer_with h (in_thread g') P)) (fst (answer_with h (in_thread g) Q))"
proof -
  obtain t r where "g (thr Q) = (t, r)" by (cases "g (thr Q)")
  moreover from this obtain t' where "g' (thr P) = (t', r)" "same_thread n old t' t" "faked t' = faked (thr P)"
    using assms(2) by (cases "g' (thr P)") (simp add: same_result_def)
  ultimately show ?thesis
    using assms(1) by (cases r) (auto simp: answer_with_def py_bind_def in_thread_def alike_def)
qed

lemma alike_call:
  assumes al: "alike n old P Q" and c: "plain_call (m, a, x)"
  shows "snd (new_call U tasks_of v a x P) = snd (std_call U tasks_of v a x Q) \<and>
    alike n old (fst (new_call U tasks_of v a x P)) (fst (std_call U tasks_of v a x Q))"
proof -
  have st: "same_thread n old (thr P) (thr Q)" and f: "actual Q = in_force (faked (thr P))"
    and t: "trio_task (thr P) = None" using al by (simp_all add: alike_def same_thread_def)
  note methods = same_methods [OF st, of U]
  note answer = alike_answer [OF al]
  have run: "new_run_get (thr P) = c_running (thr Q)" using st by (simp add: new_run_get_def same_thread_def)
  show ?thesis
  proof (cases a)
    case GetPolicy
    then show ?thesis
      using al f t by (cases x; cases "faked (thr P)") (simp_all add: original_or_def new_policy_get_def in_trio_context_def alike_def)
  next
    case SetPolicy
    then show ?thesis
      using al f t c
      by (cases x rule: arg.exhaust [case_names a p l]; cases "case x of PolicyArg p \<Rightarrow> p | _ \<Rightarrow> NoPolicy")
        (auto simp: plain_call_def new_policy_set_def in_trio_context_other_than_sync_loop_def alike_def answer_with_def py_bind_def
          in_thread_def same_thread_def)
  next
    case GetRunning
    then show ?thesis using al run by (cases x) simp_all
  next
    case GetRunningOrThrow
    then show ?thesis using al run
      by (cases x) (auto simp: new_run_get_or_throw_def answer_with_def py_bind_def in_thread_def split: option.split)
  next
    case GetLoop
    show ?thesis
    proof (cases "x = NoArg \<and> c_running (thr Q) = None")
      case True
      have "same_result n old (faked (thr P)) (new_loop_get U (thr P)) (policy_get U (actual Q) (thr Q))"
        using run True methods(2) f by (simp add: new_loop_get_def)
      from answer [where g' = "new_loop_get U" and g = "policy_get U (actual Q)" and h = IsLoop, OF this] GetLoop True show ?thesis by simp
    next
      case False
      then show ?thesis using al run GetLoop
        by (cases x) (auto simp: new_loop_get_def answer_with_def py_bind_def in_thread_def split: option.split)
    qed
  next
    case SetLoop
    have "same_result n old (faked (thr P)) (new_loop_set U l (thr P)) (policy_set U (actual Q) l (thr Q))" for l
      using methods(3) f by (simp add: new_loop_set_def)
    from answer [where g' = "new_loop_set U l" and g = "policy_set U (actual Q) l" and h = "\<lambda>_. IsNone" for l, OF this]
      SetLoop al show ?thesis by (cases x) simp_all
  next
    case NewLoop
    have "same_result n old (faked (thr P)) (new_loop_new U (thr P)) (policy_new U (actual Q) (thr Q))"
      using methods(1) f by (simp add: new_loop_new_def)
    from answer [where g' = "new_loop_new U" and g = "policy_new U (actual Q)" and h = "\<lambda>l. IsLoop (Some l)", OF this]
      NewLoop al show ?thesis by (cases x) simp_all
  next
    case CurrentTask
    then show ?thesis using al run by (cases x) (simp_all add: new_current_task_def split: option.split)
  qed
qed

lemma alike_calls:
  assumes "alike n old P Q" and "list_all plain_call cs"
  shows "snd (calls U tasks_of v cs P) = snd (calls U tasks_of v cs Q) \<and>
    alike n old (fst (calls U tasks_of v cs P)) (fst (calls U tasks_of v cs Q))"
  using assms
proof (induction cs arbitrary: P Q)
  case (Cons c cs)
  obtain m a x where c: "c = (m, a, x)" by (cases c)
  obtain P' r where P: "asyncio_call U tasks_of v c P = (P', r)" by fastforce
  obtain Q' q where Q: "asyncio_call U tasks_of v c Q = (Q', q)" by fastforce
  have "r = q \<and> alike n old P' Q'"
  proof (cases "stock_names (m, a)")
    case None
    then show ?thesis using Cons.prems P Q by (simp add: c asyncio_call_def call_impl_def alike_def)
  next
    case (Some f)
    then have "f = Std a" by (cases m) (auto simp: stock_names_def split: if_splits)
    then show ?thesis
      using Cons.prems P Q Some alike_call [OF Cons.prems(1), of m a x U tasks_of v]
      by (simp add: c asyncio_call_def call_impl_def alike_def)
  qed
  then show ?case using Cons.IH [of P' Q'] Cons.prems by (simp add: P Q case_prod_beta)
qed simp

text \<open>The interpreter with asyncio alone in which the default policy was just made, so that this
  thread has never set a loop.\<close>

definition loop_forgotten :: "'p process \<Rightarrow> 'p process" where
  "loop_forgotten P = P\<lparr>thr := fresh_policy OriginalPolicy (thr P)\<rparr>"

lemma import_alike:
  assumes "stock_process P"
  shows "snd (import_loop U tasks_of v P) = Inr () \<and>
    alike (next_loop (thr P)) (class_of (thr P)) (fst (import_loop U tasks_of v P)) (loop_forgotten P)"
proof -
  let ?P = "patch_current_task (patch_loops (patch_running (patch_policy P)))"
  note put = patch_current_task_def patch_loops_def patch_running_def patch_policy_def put_def save_def Let_def
  have s: "saved ?P GetPolicy = Some (Std GetPolicy)" "saved ?P SetPolicy = Some (Std SetPolicy)"
    "actual ?P = OriginalPolicy" "thr ?P = thr P"
    using assms by (simp_all add: put stock_process_def stock_names_def)
  have "names ?P (m, a) = map_option (\<lambda>f. New a) (stock_names (m, a))" for m a
    using assms by (cases m; cases a) (simp_all add: put stock_process_def stock_names_def)
  then have "names ?P = (\<lambda>k. map_option (\<lambda>f. New (snd k)) (stock_names k))" by auto
  moreover have "loops_from n c old n = old" for n c old by (auto simp: loops_from_def fun_eq_iff)
  ultimately show ?thesis
    using assms s
    by (simp add: import_loop_def install_policy_def call_impl_def py_bind_def alike_def answer_with_def stock_process_def
        loop_forgotten_def fresh_policy_def same_thread_def)
qed

text \<open>C37: what importing trio-asyncio changes outside Trio: any sequence of calls of asyncio's
  functions for policies, loops, the running loop and the current task, through \<open>asyncio\<close> or
  the modules that define them, gets the answers, errors included, that asyncio alone would give
  in a thread in which no loop was ever set: a loop that was set before the import is forgotten.
  The loops that are made are \<open>SyncTrioEventLoop\<close>s instead of asyncio's own. The calls may
  install policies of the user, but neither \<open>None\<close> nor a \<open>TrioPolicy\<close>; the policy that asyncio's
  own code goes by stays the \<open>TrioPolicy\<close> all along.\<close>

theorem import_outside_trio:
  assumes "stock_process P" and "list_all plain_call cs"
    and "import_loop U tasks_of v P = (P', r)" and "calls U tasks_of v cs P' = (P'', answers)"
    and "calls U tasks_of v cs (loop_forgotten P) = (Q, stock_answers)"
  shows "r = Inr () \<and> answers = stock_answers \<and> actual P'' = TheTrioPolicy \<and> next_loop (thr P'') = next_loop (thr Q) \<and>
    class_of (thr P'') = loops_from (next_loop (thr P)) SyncTrioEventLoop (class_of (thr P)) (next_loop (thr P'')) \<and>
    class_of (thr Q) = loops_from (next_loop (thr P)) StockEventLoop (class_of (thr P)) (next_loop (thr Q)) \<and>
    (c_running (thr P) = None \<and> main_thread (thr P) \<longrightarrow>
       snd (asyncio_call U tasks_of v (Asyncio, GetLoop, NoArg) P') = Inr (IsLoop (Some (next_loop (thr P)))))"
proof -
  have i: "r = Inr ()" "alike (next_loop (thr P)) (class_of (thr P)) P' (loop_forgotten P)"
    using import_alike [OF assms(1), of U tasks_of v] assms(3) by simp_all
  have "asyncio_call U tasks_of v (Asyncio, GetLoop, NoArg) P' = new_call U tasks_of v GetLoop NoArg P'"
    using i(2) by (simp add: asyncio_call_def call_impl_def alike_def stock_names_def)
  moreover have "plain_call (Asyncio, GetLoop, NoArg)" by (simp add: plain_call_def)
  ultimately have g: "snd (asyncio_call U tasks_of v (Asyncio, GetLoop, NoArg) P') = snd (std_call U tasks_of v GetLoop NoArg (loop_forgotten P))"
    using alike_call [OF i(2), of Asyncio GetLoop NoArg U tasks_of v] by simp
  have "snd (std_call U tasks_of v GetLoop NoArg (loop_forgotten P)) = Inr (IsLoop (Some (next_loop (thr P))))"
    if "c_running (thr P) = None" "main_thread (thr P)"
    using that assms(1)
    by (simp add: loop_forgotten_def fresh_policy_def stock_process_def answer_with_def in_thread_def py_bind_def
        base_get_event_loop_def make_loop_def base_set_event_loop_def)
  then show ?thesis using g i alike_calls [OF i(2) assms(2), of U tasks_of v] assms(4,5)
    by (auto simp: alike_def same_thread_def)
qed

text \<open>A user's policy is installed, makes a loop, and is asked for its loop and for itself.\<close>

definition stock_interpreter :: "nat process" where
  "stock_interpreter =
     \<lparr>thr = plain_thread, actual = OriginalPolicy, original_policy = None, names = stock_names, saved = (\<lambda>_. None)\<rparr>"

definition some_calls :: "(modname \<times> api \<times> arg) list" where
  "some_calls =
     [(Asyncio, GetPolicy, NoArg), (Events, NewLoop, NoArg), (Asyncio, SetPolicy, PolicyArg (APolicy 3)),
      (Asyncio, NewLoop, NoArg), (Events, GetLoop, NoArg), (Tasks, CurrentTask, LoopArg None), (Asyncio, GetPolicy, NoArg),
      (Asyncio, GetRunningOrThrow, NoArg), (Tasks, GetLoop, NoArg)]"

theorem import_outside_trio_witness:
  "snd (calls counting (\<lambda>l. case l of None \<Rightarrow> 0 | Some n \<Rightarrow> Suc n) True some_calls
     (fst (import_loop counting (\<lambda>l. case l of None \<Rightarrow> 0 | Some n \<Rightarrow> Suc n) True stock_interpreter))) =
   [Inr (IsPolicy OriginalPolicy), Inr (IsLoop (Some 0)), Inr IsNone, Inr (IsLoop (Some 300)), Inr (IsLoop (Some 3)),
    Inr (IsTask 0), Inr (IsPolicy (UserPolicy 3)), Inl (RuntimeError ''no running event loop''), Inl AttributeError]"
proof -
  let ?t = "\<lambda>l. case l of None \<Rightarrow> 0 | Some n \<Rightarrow> Suc n"
  have "stock_process stock_interpreter" by (simp add: stock_process_def stock_interpreter_def plain_thread_def)
  moreover have "list_all plain_call some_calls" by (simp add: some_calls_def plain_call_def)
  moreover obtain P r where "import_loop counting ?t True stock_interpreter = (P, r)" by fastforce
  moreover obtain Q rs where "calls counting ?t True some_calls P = (Q, rs)" by fastforce
  moreover obtain Q' rs' where "calls counting ?t True some_calls (loop_forgotten stock_interpreter) = (Q', rs')" by fastforce
  ultimately have "snd (calls counting ?t True some_calls (fst (import_loop counting ?t True stock_interpreter))) =
      snd (calls counting ?t True some_calls (loop_forgotten stock_interpreter))"
    using import_outside_trio [of stock_interpreter some_calls counting ?t True P r Q rs Q' rs'] by simp
  then show ?thesis
    by (simp add: some_calls_def stock_interpreter_def plain_thread_def counting_def asyncio_call_def call_impl_def
        stock_names_def answer_with_def py_bind_def in_thread_def in_user_def make_loop_def loop_forgotten_def fresh_policy_def)
qed

text \<open>A loop that was set before the import is not found after it.\<close>

definition set_before :: "nat process" where
  "set_before = fst (calls counting (\<lambda>_. 0) True [(Asyncio, NewLoop, NoArg), (Asyncio, SetLoop, LoopArg (Some 0))] stock_interpreter)"

lemma set_loop_forgotten:
  "snd (asyncio_call counting (\<lambda>_. 0) True (Asyncio, GetLoop, NoArg) set_before) = Inr (IsLoop (Some 0))"
  "snd (asyncio_call counting (\<lambda>_. 0) True (Asyncio, GetLoop, NoArg) (fst (import_loop counting (\<lambda>_. 0) True set_before))) =
     Inr (IsLoop (Some 1))"
  by code_simp+

end
