(* ===== verification/Trio_State.thy ===== *)
theory Trio_State
  imports Aio_Prelude
begin

text \<open>
  \<open>clean_trio_state\<close> (\<open>_sync.py\<close>): Trio keeps the state of its run in the fields of a
  thread-local object and in the thread's signal wakeup descriptor. The sync loop has a Trio run
  in a greenlet of its own, on the same thread; every switch from one greenlet to another is
  made inside \<open>clean_trio_state\<close>. What this amounts to: every greenlet has a state of its own.
\<close>

section \<open>The state of the thread\<close>

text \<open>\<open>GLOBAL_RUN_CONTEXT.__dict__\<close>, with numbered values, the descriptor given to
  \<open>signal.set_wakeup_fd\<close> with its flag \<open>warn_on_full_buffer\<close>, and whether the thread is the
  main one; only there \<open>set_wakeup_fd\<close> does not raise \<open>ValueError\<close>.\<close>

record trio_thread =
  run_context :: "string \<Rightarrow> nat option"
  wakeup_fd :: int
  warn_full :: bool
  on_main_thread :: bool

definition set_wakeup_fd :: "int \<Rightarrow> bool \<Rightarrow> (trio_thread, int) py" where
  "set_wakeup_fd fd warn t =
     (if on_main_thread t then py_return (wakeup_fd t) (t\<lparr>wakeup_fd := fd, warn_full := warn\<rparr>)
      else py_raise ValueError t)"

section \<open>The context manager\<close>

text \<open>What is kept in the frame of the generator: \<open>old_state\<close> and \<open>old_wakeup_fd\<close>.\<close>

type_synonym saved_state = "(string \<Rightarrow> nat option) \<times> int option"

definition clean_enter :: "trio_thread \<Rightarrow> trio_thread \<times> saved_state" where
  "clean_enter t =
     (let old_state = run_context t
      in case set_wakeup_fd (-1) True t of
           (t', Inr fd) \<Rightarrow> (t'\<lparr>run_context := Map.empty\<rparr>, (old_state, Some fd))
         | (t', Inl _) \<Rightarrow> (t'\<lparr>run_context := Map.empty\<rparr>, (old_state, None)))"

definition clean_exit :: "saved_state \<Rightarrow> trio_thread \<Rightarrow> trio_thread" where
  "clean_exit old t =
     (case old of (old_state, old_fd) \<Rightarrow>
       (let t' = (case old_fd of None \<Rightarrow> t | Some fd \<Rightarrow> fst (set_wakeup_fd fd (old_state = Map.empty) t))
        in t'\<lparr>run_context := old_state\<rparr>))"

section \<open>Greenlets\<close>

text \<open>
  The greenlets of the thread by number: \<open>me\<close> runs; \<open>frames\<close> has what the others saved when
  they switched away, \<open>None\<close> for a greenlet that was not started yet; \<open>ended\<close> are those that
  have returned.
\<close>

record greenlets =
  thread_state :: trio_thread
  me :: nat
  frames :: "nat \<Rightarrow> saved_state option"
  ended :: "nat set"

definition resume :: "nat \<Rightarrow> trio_thread \<Rightarrow> greenlets \<Rightarrow> greenlets" where
  "resume g t s =
     (case frames s g of
        None \<Rightarrow> s\<lparr>thread_state := t, me := g\<rparr>
      | Some old \<Rightarrow> s\<lparr>thread_state := clean_exit old t, me := g, frames := (frames s)(g := None)\<rparr>)"

definition switch_to :: "nat \<Rightarrow> greenlets \<Rightarrow> greenlets" where
  "switch_to g s =
     (case clean_enter (thread_state s) of
        (t, old) \<Rightarrow> resume g t (s\<lparr>frames := (frames s)(me s := Some old)\<rparr>))"

text \<open>
  What the running greenlet does. \<open>Work\<close>: it writes the run context and, on the main thread, the
  wakeup descriptor and its flag. \<open>Switch g\<close> is \<open>with clean_trio_state(): g.switch(...)\<close> up to the
  point where \<open>g\<close> goes on, at its first line or at the end of its own \<open>with\<close>. \<open>Ends g\<close>: it
  returns, which resumes the waiting \<open>g\<close> without saving anything. \<open>None\<close>: there is no such
  greenlet to go on with.
\<close>

datatype deed = Work "string \<Rightarrow> nat option" int bool | Switch nat | Ends nat

fun deed_exec :: "deed \<Rightarrow> greenlets \<Rightarrow> greenlets option" where
  "deed_exec (Work c fd w) s =
     (let t = (thread_state s)\<lparr>run_context := c\<rparr>
      in Some (s\<lparr>thread_state := (if on_main_thread t then t\<lparr>wakeup_fd := fd, warn_full := w\<rparr> else t)\<rparr>))"
| "deed_exec (Switch g) s = (if g = me s \<or> g \<in> ended s then None else Some (switch_to g s))"
| "deed_exec (Ends g) s =
     (if frames s g = None then None
      else Some (resume g (thread_state s) (s\<lparr>ended := insert (me s) (ended s)\<rparr>)))"

fun deeds_exec :: "deed list \<Rightarrow> greenlets \<Rightarrow> greenlets option" where
  "deeds_exec [] s = Some s"
| "deeds_exec (d # ds) s = (case deed_exec d s of None \<Rightarrow> None | Some s' \<Rightarrow> deeds_exec ds s')"

section \<open>Private states\<close>

text \<open>The specification: each greenlet has a run context and, on the main thread, a wakeup
  descriptor with its flag, and only \<open>Work\<close> of its own writes them. Except for the flag, which
  Python cannot read: who switches away finds it as it goes with the run context, set without and
  clear with a Trio run.\<close>

type_synonym trio_state = "(string \<Rightarrow> nat option) \<times> (int \<times> bool) option"

record private_states =
  running :: nat
  own :: "nat \<Rightarrow> trio_state"

definition flag_by_context :: "trio_state \<Rightarrow> trio_state" where
  "flag_by_context x = (fst x, map_option (\<lambda>(fd, _). (fd, fst x = Map.empty)) (snd x))"

definition gone :: trio_state where
  "gone = (Map.empty, None)"

fun private_deed :: "deed \<Rightarrow> private_states \<Rightarrow> private_states" where
  "private_deed (Work c fd w) p =
     p\<lparr>own := (own p)(running p := (c, map_option (\<lambda>_. (fd, w)) (snd (own p (running p)))))\<rparr>"
| "private_deed (Switch g) p =
     p\<lparr>running := g, own := (own p)(running p := flag_by_context (own p (running p)))\<rparr>"
| "private_deed (Ends g) p = p\<lparr>running := g, own := (own p)(running p := gone)\<rparr>"

text \<open>The running greenlet's state is the thread's; the others' is what they saved, or what a
  greenlet starts with.\<close>

definition owned :: "greenlets \<Rightarrow> nat \<Rightarrow> trio_state" where
  "owned s g =
     (let main = on_main_thread (thread_state s)
      in if g \<in> ended s then gone
      else if g = me s then (run_context (thread_state s),
        if main then Some (wakeup_fd (thread_state s), warn_full (thread_state s)) else None)
      else case frames s g of
        None \<Rightarrow> (Map.empty, if main then Some (-1, True) else None)
      | Some (c, fd) \<Rightarrow> (c, map_option (\<lambda>fd. (fd, c = Map.empty)) fd))"

definition abs_greenlets :: "greenlets \<Rightarrow> private_states" where
  "abs_greenlets s = \<lparr>running = me s, own = owned s\<rparr>"

text \<open>The running greenlet and those that ended have nothing saved, and descriptors were saved on
  the main thread only.\<close>

definition frames_ok :: "greenlets \<Rightarrow> bool" where
  "frames_ok s \<longleftrightarrow> me s \<notin> ended s \<and> frames s (me s) = None \<and> (\<forall>g \<in> ended s. frames s g = None) \<and>
     (\<forall>g old. frames s g = Some old \<longrightarrow> (snd old \<noteq> None) = on_main_thread (thread_state s))"

lemma clean_enter_fields:
  assumes "clean_enter t = (t', old)"
  shows "run_context t' = Map.empty" "on_main_thread t' = on_main_thread t"
    "on_main_thread t \<Longrightarrow> wakeup_fd t' = -1 \<and> warn_full t'"
    "old = (run_context t, if on_main_thread t then Some (wakeup_fd t) else None)"
  using assms by (auto simp: clean_enter_def set_wakeup_fd_def Let_def split: if_splits)

lemma clean_exit_fields:
  "run_context (clean_exit (c, fd) t) = c" "on_main_thread (clean_exit (c, fd) t) = on_main_thread t"
  "on_main_thread t \<Longrightarrow> wakeup_fd (clean_exit (c, Some fd') t) = fd'"
  "on_main_thread t \<Longrightarrow> warn_full (clean_exit (c, Some fd') t) = (c = Map.empty)"
  by (simp_all add: clean_exit_def set_wakeup_fd_def Let_def split: option.split)

lemma resume_waiting:
  assumes "frames s g = Some (c, fd)" and "(fd \<noteq> None) = on_main_thread t" and "g \<notin> ended s"
  shows "run_context (thread_state (resume g t s)) = c" "on_main_thread (thread_state (resume g t s)) = on_main_thread t"
    "owned (resume g t s) g = (c, map_option (\<lambda>fd. (fd, c = Map.empty)) fd)"
    "frames (resume g t s) = (frames s)(g := None)" "me (resume g t s) = g" "ended (resume g t s) = ended s"
  using assms by (auto simp: resume_def owned_def Let_def clean_exit_fields)

lemma switch_to_private:
  assumes ok: "frames_ok s" and g: "g \<noteq> me s" "g \<notin> ended s"
  shows "frames_ok (switch_to g s) \<and> abs_greenlets (switch_to g s) = private_deed (Switch g) (abs_greenlets s)"
proof -
  obtain t old where e: "clean_enter (thread_state s) = (t, old)" by (cases "clean_enter (thread_state s)")
  note f = clean_enter_fields [OF e]
  let ?s = "s\<lparr>frames := (frames s)(me s := Some old)\<rparr>"
  have sw: "switch_to g s = resume g t ?s" by (simp add: switch_to_def e)
  show ?thesis
  proof (cases "frames s g")
    case None
    then show ?thesis
      using ok g f
      by (auto simp: sw resume_def frames_ok_def abs_greenlets_def owned_def fun_eq_iff flag_by_context_def Let_def)
  next
    case (Some sv)
    obtain c fd where sv: "sv = (c, fd)" by fastforce
    have w: "frames ?s g = Some (c, fd)" "(fd \<noteq> None) = on_main_thread t" "g \<notin> ended ?s"
      using ok Some sv g f(2) by (auto simp: frames_ok_def)
    note r = resume_waiting [OF w]
    have "owned (resume g t ?s) x = (own (private_deed (Switch g) (abs_greenlets s))) x" for x
    proof (cases "x = g")
      case True
      then show ?thesis using r(3) Some sv g by (simp add: abs_greenlets_def owned_def Let_def)
    next
      case False
      then show ?thesis using r ok g f
        by (auto simp: abs_greenlets_def owned_def Let_def flag_by_context_def frames_ok_def split: option.split)
    qed
    moreover have "frames_ok (resume g t ?s)" using r ok g f by (auto simp: frames_ok_def)
    ultimately show ?thesis using r(5) by (simp add: sw abs_greenlets_def fun_eq_iff)
  qed
qed

lemma deed_private:
  assumes "deed_exec d s = Some s'" and ok: "frames_ok s"
  shows "frames_ok s' \<and> abs_greenlets s' = private_deed d (abs_greenlets s)"
proof (cases d)
  case (Work c fd w)
  define t where "t = thread_state s'"
  have s': "s' = s\<lparr>thread_state := t\<rparr>" "on_main_thread t = on_main_thread (thread_state s)" "run_context t = c"
      "on_main_thread t \<Longrightarrow> wakeup_fd t = fd \<and> warn_full t = w"
    using assms(1) Work by (auto simp: t_def Let_def split: if_splits)
  have "owned s' x = own (private_deed d (abs_greenlets s)) x" for x
    using ok s' Work by (cases "x = me s") (simp_all add: abs_greenlets_def owned_def frames_ok_def Let_def)
  then have "owned s' = own (private_deed d (abs_greenlets s))" by blast
  then show ?thesis using ok s'(1,2) Work by (simp add: frames_ok_def abs_greenlets_def)
next
  case (Switch g)
  then show ?thesis using assms switch_to_private [OF ok, of g] by (simp split: if_splits)
next
  case (Ends g)
  then obtain c fd where old: "frames s g = Some (c, fd)" using assms(1) by (auto split: if_splits)
  let ?s = "s\<lparr>ended := insert (me s) (ended s)\<rparr>"
  have s': "s' = resume g (thread_state s) ?s" using assms(1) Ends old by simp
  have w: "frames ?s g = Some (c, fd)" "(fd \<noteq> None) = on_main_thread (thread_state s)" "g \<notin> ended ?s"
    using ok old by (auto simp: frames_ok_def)
  note r = resume_waiting [OF w]
  have "owned s' x = own (private_deed d (abs_greenlets s)) x" for x
  proof (cases "x = g")
    case True
    then show ?thesis using r(3) old w Ends by (auto simp: s' abs_greenlets_def owned_def Let_def)
  next
    case False
    then show ?thesis using r old w Ends
      by (auto simp: s' abs_greenlets_def owned_def Let_def split: option.split)
  qed
  moreover have "frames_ok s'" using r ok w by (auto simp: s' frames_ok_def)
  ultimately show ?thesis using r(5) Ends by (simp add: s' abs_greenlets_def fun_eq_iff)
qed

lemma deeds_private:
  "deeds_exec ds s = Some s' \<Longrightarrow> frames_ok s \<Longrightarrow>
   frames_ok s' \<and> abs_greenlets s' = fold private_deed ds (abs_greenlets s)"
proof (induction ds arbitrary: s)
  case (Cons d ds)
  then show ?case using deed_private by (auto split: option.splits)
qed simp

text \<open>What a greenlet owns without working.\<close>

fun idle_in :: "nat \<Rightarrow> deed list \<Rightarrow> private_states \<Rightarrow> bool" where
  "idle_in g [] p = True"
| "idle_in g (d # ds) p = ((running p = g \<longrightarrow> (\<exists>h. d = Switch h)) \<and> idle_in g ds (private_deed d p))"

lemma flag_by_context_simps [simp]:
  "fst (flag_by_context x) = fst x" "map_option fst (snd (flag_by_context x)) = map_option fst (snd x)"
  "flag_by_context (flag_by_context x) = flag_by_context x"
  by (cases x; cases "snd x"; auto simp: flag_by_context_def)+

lemma idle_keeps:
  "idle_in g ds p \<Longrightarrow> own (fold private_deed ds p) g \<in> {own p g, flag_by_context (own p g)}"
proof (induction ds arbitrary: p)
  case (Cons d ds)
  have "own (private_deed d p) g \<in> {own p g, flag_by_context (own p g)}"
    using Cons.prems by (cases d) auto
  then show ?case using Cons.IH [of "private_deed d p"] Cons.prems by auto
qed simp

text \<open>C36: switching in \<open>clean_trio_state\<close> gives every greenlet a Trio state of its own: whatever
  the greenlets of a thread do and however they switch, what each of them finds is what it itself
  did to a private state, step by step. So a greenlet that does nothing but switch away, the
  caller of the sync loop or the loop's Trio run, finds the run context and the wakeup
  descriptor as it left them whenever it is resumed, and the flag of the descriptor too, if it went with the
  run context as Python and Trio set it.\<close>

theorem greenlets_have_private_state:
  assumes "frames_ok s" and "deeds_exec ds s = Some s'"
  shows "abs_greenlets s' = fold private_deed ds (abs_greenlets s) \<and>
    (idle_in (me s) ds (abs_greenlets s) \<and> me s' = me s \<longrightarrow>
      run_context (thread_state s') = run_context (thread_state s) \<and>
      (on_main_thread (thread_state s) \<longrightarrow> wakeup_fd (thread_state s') = wakeup_fd (thread_state s) \<and>
        (warn_full (thread_state s) = (run_context (thread_state s) = Map.empty) \<longrightarrow>
         warn_full (thread_state s') = warn_full (thread_state s))))"
proof -
  note d = deeds_private [OF assms(2,1)]
  have mine: "own (abs_greenlets x) (me x) = (run_context (thread_state x), if on_main_thread (thread_state x)
      then Some (wakeup_fd (thread_state x), warn_full (thread_state x)) else None)" if "frames_ok x" for x
    using that by (simp add: abs_greenlets_def owned_def frames_ok_def Let_def)
  show ?thesis
  proof (intro conjI impI)
    assume i: "idle_in (me s) ds (abs_greenlets s) \<and> me s' = me s"
    then have "own (abs_greenlets s') (me s') \<in> {own (abs_greenlets s) (me s), flag_by_context (own (abs_greenlets s) (me s))}"
      using idle_keeps [of "me s" ds "abs_greenlets s"] d by simp
    then have k: "run_context (thread_state s') = run_context (thread_state s) \<and>
        (on_main_thread (thread_state s) \<longrightarrow> wakeup_fd (thread_state s') = wakeup_fd (thread_state s) \<and>
          warn_full (thread_state s') \<in> {warn_full (thread_state s), run_context (thread_state s) = Map.empty})"
      using mine [OF assms(1)] mine [of s'] d by (auto simp: flag_by_context_def split: if_splits)
    show "run_context (thread_state s') = run_context (thread_state s)"
      "on_main_thread (thread_state s) \<Longrightarrow> wakeup_fd (thread_state s') = wakeup_fd (thread_state s)"
      "on_main_thread (thread_state s) \<Longrightarrow> warn_full (thread_state s) = (run_context (thread_state s) = Map.empty) \<Longrightarrow>
        warn_full (thread_state s') = warn_full (thread_state s)"
      using k by auto
  qed (use d in simp)
qed

text \<open>A caller outside Trio starts the loop's greenlet, whose run sets its fields, and is
  resumed.\<close>

definition calling_thread :: trio_thread where
  "calling_thread = \<lparr>run_context = Map.empty, wakeup_fd = 9, warn_full = True, on_main_thread = True\<rparr>"

definition calling_greenlet :: greenlets where
  "calling_greenlet = \<lparr>thread_state = calling_thread, me = 0, frames = Map.empty, ended = {}\<rparr>"

definition starting_loop :: "deed list" where
  "starting_loop = [Switch 1, Work [''runner'' \<mapsto> 1] 4 False, Switch 0]"

theorem greenlets_have_private_state_witness:
  "map_option thread_state (deeds_exec starting_loop calling_greenlet) = Some calling_thread \<and>
   map_option (\<lambda>s. own (abs_greenlets s) 1) (deeds_exec starting_loop calling_greenlet) =
     Some ([''runner'' \<mapsto> 1], Some (4, False))"
proof -
  have ok: "frames_ok calling_greenlet" by (simp add: frames_ok_def calling_greenlet_def)
  obtain s where run: "deeds_exec starting_loop calling_greenlet = Some s"
    and s: "me s = 0" "on_main_thread (thread_state s)"
    by (simp add: starting_loop_def calling_greenlet_def calling_thread_def switch_to_def resume_def Let_def
        clean_enter_def clean_exit_def set_wakeup_fd_def)
  note p = greenlets_have_private_state [OF ok run]
  have "idle_in 0 starting_loop (abs_greenlets calling_greenlet)"
    by (simp add: starting_loop_def abs_greenlets_def calling_greenlet_def)
  then have t: "run_context (thread_state s) = Map.empty \<and> wakeup_fd (thread_state s) = 9 \<and> warn_full (thread_state s)"
    using p s by (simp add: calling_greenlet_def calling_thread_def)
  have "own (abs_greenlets s) 1 = ([''runner'' \<mapsto> 1], Some (4, False))"
    using p by (simp add: starting_loop_def abs_greenlets_def calling_greenlet_def calling_thread_def owned_def
        flag_by_context_def Let_def)
  then show ?thesis using t s(2) by (simp add: run calling_thread_def)
qed

end
