(* ===== verification/Module_Names.thy ===== *)
theory Module_Names
  imports Aio_Prelude
begin

text \<open>
  The public face of the package: \<open>fixup_module_metadata\<close> (\<open>_util.py\<close>), which makes the
  objects of the package's namespace look as if they were defined there, and the deprecated
  attributes of the module (\<open>_deprecate.py\<close>).
\<close>

section \<open>Objects\<close>

text \<open>\<open>__module__\<close> and \<open>__name__\<close>, \<open>None\<close> if the object has no such attribute,
  \<open>__qualname__\<close>, whether the object is a class, and the items of its \<open>__dict__\<close>, in
  order. Objects are numbered.\<close>

record named =
  obj_module :: "string option"
  obj_name :: "string option"
  obj_qualname :: string
  is_class :: bool
  members :: "(string \<times> nat) list"

record fixing =
  seen_ids :: "nat set"
  objs :: "nat \<Rightarrow> named"

definition startswith :: "string \<Rightarrow> string \<Rightarrow> bool" where
  "startswith s p \<longleftrightarrow> take (length p) s = p"

definition internal :: "named \<Rightarrow> bool" where
  "internal x \<longleftrightarrow> (case obj_module x of None \<Rightarrow> False | Some m \<Rightarrow> startswith m ''trio_asyncio.'')"

section \<open>fixup_module_metadata\<close>

definition rename_obj :: "string \<Rightarrow> string \<Rightarrow> string \<Rightarrow> named \<Rightarrow> named" where
  "rename_obj module_name qualname name x =
     (case obj_name x of
        Some n \<Rightarrow>
          if CHR ''.'' \<notin> set n
          then x\<lparr>obj_module := Some module_name, obj_name := Some name, obj_qualname := qualname\<rparr>
          else x\<lparr>obj_module := Some module_name\<rparr>
      | None \<Rightarrow> x\<lparr>obj_module := Some module_name\<rparr>)"

text \<open>
  \<open>fix_one\<close> and its loop over the members of a class, to a depth of \<open>fuel\<close> calls, \<open>None\<close>
  beyond it. \<open>objname\<close> is the variable of the enclosing loop over the namespace, which
  \<open>fix_one\<close> refers to.
\<close>

fun fix_one :: "nat \<Rightarrow> string \<Rightarrow> string \<Rightarrow> string \<Rightarrow> string \<Rightarrow> nat \<Rightarrow> fixing \<Rightarrow> fixing option"
  and fix_members :: "nat \<Rightarrow> string \<Rightarrow> string \<Rightarrow> (string \<times> nat) list \<Rightarrow> fixing \<Rightarrow> fixing option" where
  "fix_one 0 module_name objname qualname name i s = None"
| "fix_one (Suc fuel) module_name objname qualname name i s =
     (if i \<in> seen_ids s then Some s
      else
        (let s1 = s\<lparr>seen_ids := insert i (seen_ids s)\<rparr>
         in if internal (objs s1 i) then
              (let s2 = s1\<lparr>objs := (objs s1)(i := rename_obj module_name qualname name (objs s1 i))\<rparr>
               in if is_class (objs s2 i)
                  then fix_members fuel module_name objname (members (objs s2 i)) s2
                  else Some s2)
            else Some s1))"
| "fix_members fuel module_name objname [] s = Some s"
| "fix_members fuel module_name objname ((attr_name, attr_value) # attrs) s =
     (case fix_one fuel module_name objname (objname @ ''.'' @ attr_name) attr_name attr_value s of
        None \<Rightarrow> None
      | Some s' \<Rightarrow> fix_members fuel module_name objname attrs s')"

fun fix_namespace :: "nat \<Rightarrow> string \<Rightarrow> (string \<times> nat) list \<Rightarrow> fixing \<Rightarrow> fixing option" where
  "fix_namespace fuel module_name [] s = Some s"
| "fix_namespace fuel module_name ((objname, obj) # namespace) s =
     (if \<not> startswith objname ''_'' then
        (case fix_one fuel module_name objname objname objname obj s of
           None \<Rightarrow> None
         | Some s' \<Rightarrow> fix_namespace fuel module_name namespace s')
      else fix_namespace fuel module_name namespace s)"

definition fixup_module_metadata ::
  "nat \<Rightarrow> string \<Rightarrow> (string \<times> nat) list \<Rightarrow> (nat \<Rightarrow> named) \<Rightarrow> fixing option" where
  "fixup_module_metadata fuel module_name namespace os =
     fix_namespace fuel module_name namespace \<lparr>seen_ids = {}, objs = os\<rparr>"

section \<open>Which objects it reaches\<close>

text \<open>The specification: the objects with a public name, and the members of internal classes
  among them.\<close>

inductive public_obj :: "(string \<times> nat) list \<Rightarrow> (nat \<Rightarrow> named) \<Rightarrow> nat \<Rightarrow> bool"
  for namespace os where
  named: "(n, i) \<in> set namespace \<Longrightarrow> \<not> startswith n ''_'' \<Longrightarrow> public_obj namespace os i"
| member: "public_obj namespace os i \<Longrightarrow> internal (os i) \<Longrightarrow> is_class (os i) \<Longrightarrow> (a, j) \<in> set (members (os i)) \<Longrightarrow>
    public_obj namespace os j"

definition succs :: "(nat \<Rightarrow> named) \<Rightarrow> nat \<Rightarrow> nat set" where
  "succs os i = (if internal (os i) \<and> is_class (os i) then snd ` set (members (os i)) else {})"

text \<open>Between the calls: an object that was seen has its new module, any other is as it was.\<close>

definition fixed_inv :: "string \<Rightarrow> (nat \<Rightarrow> named) \<Rightarrow> fixing \<Rightarrow> bool" where
  "fixed_inv m os s \<longleftrightarrow>
     (\<forall>i. if i \<in> seen_ids s \<and> internal (os i)
        then obj_module (objs s i) = Some m \<and> is_class (objs s i) = is_class (os i) \<and> members (objs s i) = members (os i)
        else objs s i = os i)"

text \<open>What a call adds to the objects seen: closed under members but for those seen before,
  and reachable from where it started.\<close>

definition explores :: "(nat \<Rightarrow> named) \<Rightarrow> nat set \<Rightarrow> nat set \<Rightarrow> nat set \<Rightarrow> bool" where
  "explores os from S S' \<longleftrightarrow> S \<subseteq> S' \<and> from \<subseteq> S' \<and> (\<forall>x \<in> S' - S. succs os x \<subseteq> S') \<and>
     (\<forall>P. (\<forall>x \<in> from. P x) \<longrightarrow> (\<forall>x y. P x \<longrightarrow> y \<in> succs os x \<longrightarrow> P y) \<longrightarrow> (\<forall>x \<in> S' - S. P x))"

lemma explores_mono: "explores os A S S' \<Longrightarrow> S \<subseteq> S'"
  and explores_from: "explores os A S S' \<Longrightarrow> A \<subseteq> S'"
  and explores_closed: "explores os A S S' \<Longrightarrow> x \<in> S' \<Longrightarrow> x \<notin> S \<Longrightarrow> succs os x \<subseteq> S'"
  and explores_sound: "explores os A S S' \<Longrightarrow> \<forall>x \<in> A. P x \<Longrightarrow> \<forall>x y. P x \<longrightarrow> y \<in> succs os x \<longrightarrow> P y \<Longrightarrow>
     x \<in> S' \<Longrightarrow> x \<notin> S \<Longrightarrow> P x"
  unfolding explores_def by (blast, blast, blast, blast)

lemma exploresI:
  assumes "S \<subseteq> S'" and "A \<subseteq> S'" and "\<And>x. x \<in> S' \<Longrightarrow> x \<notin> S \<Longrightarrow> succs os x \<subseteq> S'"
    and "\<And>P x. \<forall>x \<in> A. P x \<Longrightarrow> \<forall>x y. P x \<longrightarrow> y \<in> succs os x \<longrightarrow> P y \<Longrightarrow> x \<in> S' \<Longrightarrow> x \<notin> S \<Longrightarrow> P x"
  shows "explores os A S S'"
  unfolding explores_def using assms by blast

lemma explores_trans:
  assumes a: "explores os A S1 S2" and b: "explores os B S2 S3"
  shows "explores os (A \<union> B) S1 S3"
proof (rule exploresI)
  note m = explores_mono [OF a] explores_mono [OF b] explores_from [OF a] explores_from [OF b]
  show "S1 \<subseteq> S3" "A \<union> B \<subseteq> S3" using m by blast+
  show "succs os x \<subseteq> S3" if "x \<in> S3" "x \<notin> S1" for x
    using explores_closed [OF a, of x] explores_closed [OF b, of x] that m by (cases "x \<in> S2") auto
  show "P x" if "\<forall>x \<in> A \<union> B. P x" "\<forall>x y. P x \<longrightarrow> y \<in> succs os x \<longrightarrow> P y" "x \<in> S3" "x \<notin> S1" for P x
    using explores_sound [OF a _ that(2), of x] explores_sound [OF b _ that(2), of x] that by (cases "x \<in> S2") auto
qed

lemma explores_insert:
  assumes a: "explores os (succs os i) (insert i S) S'"
  shows "explores os {i} S S'"
proof (rule exploresI)
  note m = explores_mono [OF a] explores_from [OF a]
  show "S \<subseteq> S'" "{i} \<subseteq> S'" using m by blast+
  show "succs os x \<subseteq> S'" if "x \<in> S'" "x \<notin> S" for x
    using explores_closed [OF a, of x] that m by (cases "x = i") auto
  show "P x" if "\<forall>x \<in> {i}. P x" "\<forall>x y. P x \<longrightarrow> y \<in> succs os x \<longrightarrow> P y" "x \<in> S'" "x \<notin> S" for P x
    using explores_sound [OF a _ that(2), of x] that by (cases "x = i") auto
qed

lemma explores_refl: "A \<subseteq> S \<Longrightarrow> explores os A S S"
  by (rule exploresI) auto

lemma rename_obj_fields [simp]:
  "obj_module (rename_obj m q n x) = Some m" "is_class (rename_obj m q n x) = is_class x"
  "members (rename_obj m q n x) = members x"
  by (simp_all add: rename_obj_def split: option.split)

lemma fix_explores:
  "fix_one fuel m objname q n i s = Some s' \<Longrightarrow> fixed_inv m os s \<Longrightarrow>
     fixed_inv m os s' \<and> explores os {i} (seen_ids s) (seen_ids s')"
  "fix_members fuel m objname as s = Some s' \<Longrightarrow> fixed_inv m os s \<Longrightarrow>
     fixed_inv m os s' \<and> explores os (snd ` set as) (seen_ids s) (seen_ids s')"
proof (induction fuel m objname q n i s and fuel m objname as s arbitrary: s' and s' rule: fix_one_fix_members.induct)
  case (2 fuel m objname q n i s)
  show ?case
  proof (cases "i \<in> seen_ids s")
    case True
    then show ?thesis using 2 by (simp add: explores_refl)
  next
    case False
    then have o: "objs s i = os i" using 2(3) by (simp add: fixed_inv_def)
    let ?s1 = "s\<lparr>seen_ids := insert i (seen_ids s)\<rparr>"
    let ?s2 = "?s1\<lparr>objs := (objs ?s1)(i := rename_obj m q n (objs ?s1 i))\<rparr>"
    show ?thesis
    proof (cases "internal (os i)")
      case False
      then have s': "s' = ?s1" using 2(2) \<open>i \<notin> seen_ids s\<close> o by simp
      have "explores os (succs os i) (insert i (seen_ids s)) (insert i (seen_ids s))"
        using False by (intro explores_refl) (simp add: succs_def)
      then show ?thesis using explores_insert [of os i "seen_ids s"] 2(3) False o by (auto simp: s' fixed_inv_def)
    next
      case True
      have inv: "fixed_inv m os ?s2" using 2(3) o True by (auto simp: fixed_inv_def)
      show ?thesis
      proof (cases "is_class (os i)")
        case False
        then have s': "s' = ?s2" using 2(2) \<open>i \<notin> seen_ids s\<close> o True by simp
        have "explores os (succs os i) (insert i (seen_ids s)) (insert i (seen_ids s))"
          using False by (intro explores_refl) (simp add: succs_def)
        then show ?thesis using explores_insert [of os i "seen_ids s"] inv by (simp add: s')
      next
        case c: True
        have "fix_members fuel m objname (members (objs ?s2 i)) ?s2 = Some s'"
          using 2(2) \<open>i \<notin> seen_ids s\<close> o True c by simp
        then have "fixed_inv m os s' \<and> explores os (snd ` set (members (objs ?s2 i))) (seen_ids ?s2) (seen_ids s')"
          using 2(1) [OF \<open>i \<notin> seen_ids s\<close> refl _ refl _ _ inv] o True c by simp
        moreover have "snd ` set (members (objs ?s2 i)) = succs os i" using o True c by (simp add: succs_def)
        ultimately show ?thesis using explores_insert by simp
      qed
    qed
  qed
next
  case (4 fuel m objname a j as s)
  then obtain s1 where "fix_one fuel m objname (objname @ ''.'' @ a) a j s = Some s1" "fix_members fuel m objname as s1 = Some s'"
    by (auto split: option.splits)
  then show ?case
    using 4(1) [OF _ 4(4)] 4(2) explores_trans [of os "{j}" "seen_ids s" "seen_ids s1" "snd ` set as" "seen_ids s'"]
    by auto
qed (simp_all add: explores_refl)

section \<open>It returns\<close>

lemma card_insert_less:
  assumes "finite A" and "i \<in> A" and "i \<notin> S" and "card (A - S) < Suc fuel"
  shows "card (A - insert i S) < fuel"
proof -
  have "A - insert i S \<subset> A - S" using assms by auto
  then have "card (A - insert i S) < card (A - S)" using assms(1) by (intro psubset_card_mono) auto
  then show ?thesis using assms(4) by simp
qed

lemma card_diff_mono: "finite A \<Longrightarrow> S \<subseteq> S' \<Longrightarrow> card (A - S') \<le> card (A - S)"
  by (intro card_mono) auto

lemma fix_returns:
  "finite A \<Longrightarrow> (\<And>x. x \<in> A \<Longrightarrow> succs os x \<subseteq> A) \<Longrightarrow> fixed_inv m os s \<Longrightarrow> i \<in> A \<Longrightarrow>
     card (A - seen_ids s) < fuel \<Longrightarrow> \<exists>s'. fix_one fuel m objname q n i s = Some s'"
  "finite A \<Longrightarrow> (\<And>x. x \<in> A \<Longrightarrow> succs os x \<subseteq> A) \<Longrightarrow> fixed_inv m os s \<Longrightarrow> snd ` set as \<subseteq> A \<Longrightarrow>
     card (A - seen_ids s) < fuel \<Longrightarrow> \<exists>s'. fix_members fuel m objname as s = Some s'"
proof (induction fuel m objname q n i s and fuel m objname as s rule: fix_one_fix_members.induct)
  case (2 fuel m objname q n i s)
  show ?case
  proof (cases "i \<notin> seen_ids s \<and> internal (objs s i) \<and> is_class (objs s i)")
    case True
    let ?s2 = "s\<lparr>seen_ids := insert i (seen_ids s), objs := (objs s)(i := rename_obj m q n (objs s i))\<rparr>"
    have o: "objs s i = os i" using 2(4) True by (simp add: fixed_inv_def)
    have inv: "fixed_inv m os ?s2" using 2(4) o True by (auto simp: fixed_inv_def)
    have sub: "snd ` set (members (os i)) \<subseteq> A" using 2(3) [OF 2(5)] o True by (simp add: succs_def)
    have c: "card (A - seen_ids ?s2) < fuel" using card_insert_less [OF 2(2,5) _ 2(6)] True by simp
    have "\<exists>s'. fix_members fuel m objname (members (os i)) ?s2 = Some s'"
      using 2(1) [OF _ refl _ refl] 2(2,3) True o inv sub c by simp
    then show ?thesis using True o by simp
  qed (auto simp: Let_def)
next
  case (4 fuel m objname a j as s)
  obtain s1 where s1: "fix_one fuel m objname (objname @ ''.'' @ a) a j s = Some s1"
    using 4(1) 4(3-7) by auto
  then have e: "fixed_inv m os s1" "seen_ids s \<subseteq> seen_ids s1"
    using fix_explores(1) [OF s1 4(5)] explores_mono by blast+
  then have "card (A - seen_ids s1) < fuel" using card_diff_mono [OF 4(3) e(2)] 4(7) by simp
  then show ?case using 4(2) [OF s1] 4(3,4,6) e(1) s1 by simp
qed simp_all

lemma fix_namespace_correct:
  assumes "finite A" and "\<And>x. x \<in> A \<Longrightarrow> succs os x \<subseteq> A" and "fixed_inv m os s"
    and "\<And>n i. (n, i) \<in> set ns \<Longrightarrow> \<not> startswith n ''_'' \<Longrightarrow> i \<in> A" and "card A < fuel"
  shows "\<exists>s'. fix_namespace fuel m ns s = Some s' \<and> fixed_inv m os s' \<and>
    explores os {i. \<exists>n. (n, i) \<in> set ns \<and> \<not> startswith n ''_''} (seen_ids s) (seen_ids s')"
  using assms(3,4)
proof (induction ns arbitrary: s)
  case Nil
  then show ?case by (simp add: explores_refl)
next
  case (Cons x ns)
  obtain n i where x: "x = (n, i)" by fastforce
  let ?P = "\<lambda>ns. {i. \<exists>n. (n, i) \<in> set ns \<and> \<not> startswith n ''_''}"
  show ?case
  proof (cases "startswith n ''_''")
    case True
    then have "?P (x # ns) = ?P ns" using x by auto
    moreover have "\<And>n i. (n, i) \<in> set ns \<Longrightarrow> \<not> startswith n ''_'' \<Longrightarrow> i \<in> A"
      using Cons.prems(2) by (meson list.set_intros(2))
    ultimately show ?thesis using Cons.IH [OF Cons.prems(1)] True x by simp
  next
    case False
    then have i: "i \<in> A" using Cons.prems(2) [of n i] x by simp
    have "card (A - seen_ids s) < fuel" using card_diff_mono [OF assms(1), of "{}" "seen_ids s"] assms(5) by simp
    then obtain s1 where s1: "fix_one fuel m n n n i s = Some s1"
      using fix_returns(1) [OF assms(1,2) Cons.prems(1) i] by blast
    note e = fix_explores(1) [OF s1 Cons.prems(1)]
    obtain s' where s': "fix_namespace fuel m ns s1 = Some s'" "fixed_inv m os s'"
      "explores os (?P ns) (seen_ids s1) (seen_ids s')"
      using Cons.IH [OF conjunct1 [OF e]] Cons.prems(2) by (meson list.set_intros(2))
    have "explores os ({i} \<union> ?P ns) (seen_ids s) (seen_ids s')"
      using explores_trans [OF conjunct2 [OF e] s'(3)] .
    moreover have "{i} \<union> ?P ns = ?P (x # ns)" using x False by auto
    ultimately show ?thesis using s' s1 x False by simp
  qed
qed

section \<open>Property\<close>

text \<open>C40: \<open>fixup_module_metadata\<close> hides the internal modules: on any namespace from which
  finitely many objects are public it returns, also when classes refer to each other in
  circles; then no public object, members of classes at any depth included, names an
  internal module any more, internal ones name the public module, and all other objects are
  untouched.\<close>

theorem fixup_hides_modules:
  assumes "finite {i. public_obj namespace os i}" and "card {i. public_obj namespace os i} < fuel"
    and "\<not> startswith module_name ''trio_asyncio.''"
  shows "\<exists>s. fixup_module_metadata fuel module_name namespace os = Some s \<and>
    (\<forall>i. if public_obj namespace os i \<and> internal (os i)
       then obj_module (objs s i) = Some module_name \<and> members (objs s i) = members (os i)
       else objs s i = os i) \<and>
    (\<forall>i. public_obj namespace os i \<longrightarrow> \<not> internal (objs s i))"
proof -
  let ?A = "{i. public_obj namespace os i}" and ?s = "\<lparr>seen_ids = {}, objs = os\<rparr>"
  let ?P = "{i. \<exists>n. (n, i) \<in> set namespace \<and> \<not> startswith n ''_''}"
  have cl: "succs os x \<subseteq> ?A" if "x \<in> ?A" for x
    using that by (auto simp: succs_def intro: public_obj.member)
  have inv: "fixed_inv module_name os ?s" by (simp add: fixed_inv_def)
  obtain s where s: "fix_namespace fuel module_name namespace ?s = Some s" "fixed_inv module_name os s"
    "explores os ?P {} (seen_ids s)"
    using fix_namespace_correct [OF assms(1) cl inv _ assms(2), of namespace] by (auto intro: public_obj.named)
  have "seen_ids s = ?A"
  proof (intro set_eqI iffI)
    fix x assume "x \<in> seen_ids s"
    then show "x \<in> ?A"
      using explores_sound [OF s(3), of "\<lambda>x. x \<in> ?A" x] cl by (auto intro: public_obj.named)
  next
    fix x assume "x \<in> ?A"
    then have "public_obj namespace os x" by simp
    then show "x \<in> seen_ids s"
    proof (induction rule: public_obj.induct)
      case (named n i)
      then show ?case using explores_from [OF s(3)] by auto
    next
      case (member i a j)
      then have "j \<in> succs os i" by (force simp: succs_def)
      then show ?case using explores_closed [OF s(3) member.IH] by auto
    qed
  qed
  then have f: "if public_obj namespace os i \<and> internal (os i)
      then obj_module (objs s i) = Some module_name \<and> members (objs s i) = members (os i)
      else objs s i = os i" for i
    using s(2) by (simp add: fixed_inv_def)
  then have "\<not> internal (objs s i)" if "public_obj namespace os i" for i
    using f [of i] that assms(3) by (cases "internal (os i)") (auto simp: internal_def)
  then show ?thesis using f s(1) by (auto simp: fixup_module_metadata_def)
qed

text \<open>A package that exports a class \<open>A\<close> with a nested class \<open>B\<close>, which refers back to
  \<open>A\<close> and has a method; and a function of another package.\<close>

definition some_objs :: "nat \<Rightarrow> named" where
  "some_objs i =
     (if i = 0 then \<lparr>obj_module = Some ''trio_asyncio._x'', obj_name = Some ''A'', obj_qualname = ''A'', is_class = True, members = [(''B'', 1)]\<rparr>
      else if i = 1 then \<lparr>obj_module = Some ''trio_asyncio._x'', obj_name = Some ''B'', obj_qualname = ''A.B'', is_class = True, members = [(''up'', 0), (''meth'', 2)]\<rparr>
      else if i = 2 then \<lparr>obj_module = Some ''trio_asyncio._x'', obj_name = Some ''meth'', obj_qualname = ''A.B.meth'', is_class = False, members = []\<rparr>
      else \<lparr>obj_module = Some ''trio'', obj_name = Some ''f'', obj_qualname = ''f'', is_class = False, members = []\<rparr>)"

definition some_namespace :: "(string \<times> nat) list" where
  "some_namespace = [(''A'', 0), (''_private'', 4), (''f'', 3)]"

lemma some_public: "public_obj some_namespace some_objs i \<Longrightarrow> i \<in> {0, 1, 2, 3}"
  by (induction rule: public_obj.induct)
    (auto simp: some_namespace_def some_objs_def startswith_def split: if_splits)

theorem fixup_hides_modules_witness:
  "\<exists>s. fixup_module_metadata 5 ''trio_asyncio'' some_namespace some_objs = Some s \<and> \<not> internal (objs s 2)"
proof -
  let ?A = "{i. public_obj some_namespace some_objs i}"
  have sub: "?A \<subseteq> {0, 1, 2, 3}" using some_public by blast
  then have fin: "finite ?A" by (rule finite_subset) simp
  have "card ?A \<le> card {0, 1, 2, 3::nat}" using sub by (intro card_mono) auto
  then have c: "card ?A < 5" by simp
  have "public_obj some_namespace some_objs 0" by (rule public_obj.named [of "''A''"]) (simp_all add: some_namespace_def startswith_def)
  then have "public_obj some_namespace some_objs 1" by (rule public_obj.member [where a = "''B''"]) (simp_all add: some_objs_def internal_def startswith_def)
  then have "public_obj some_namespace some_objs 2" by (rule public_obj.member [where a = "''meth''"]) (simp_all add: some_objs_def internal_def startswith_def)
  then show ?thesis using fixup_hides_modules [OF fin c, of "''trio_asyncio''"] by (auto simp: startswith_def)
qed

text \<open>The qualified names of members are right one level down only: a member of a nested class
  loses the name of that class.\<close>

lemma nested_qualname:
  "map_option (\<lambda>s. obj_qualname (objs s 2)) (fixup_module_metadata 5 ''trio_asyncio'' some_namespace some_objs) =
     Some ''A.meth''"
  by code_simp

end
