(* ===== verification/Deprecations.thy ===== *)
theory Deprecations
  imports Aio_Prelude
begin

text \<open>
  Deprecated names (\<open>_deprecate.py\<close>): the text of the warnings and of the notes in
  docstrings, deprecated functions and aliases, and the lookup of deprecated attributes of the
  module.
\<close>

section \<open>Texts\<close>

text \<open>What is deprecated, or to be used instead: an object with \<open>__module__\<close> and
  \<open>__qualname__\<close>, or any other, by its \<open>str\<close>.\<close>

datatype thing = Named string string | Shown string

fun stringify :: "thing \<Rightarrow> string" where
  "stringify (Named m q) = m @ ''.'' @ q"
| "stringify (Shown s) = s"

fun decimal :: "nat \<Rightarrow> string" where
  "decimal n = (if n < 10 then [char_of (48 + n)] else decimal (n div 10) @ [char_of (48 + n mod 10)])"

declare decimal.simps [simp del]

definition url_for_issue :: "nat \<Rightarrow> string" where
  "url_for_issue issue = ''https://github.com/python-trio/trio-asyncio/issues/'' @ decimal issue"

definition warn_message :: "thing \<Rightarrow> string \<Rightarrow> nat option \<Rightarrow> thing option \<Rightarrow> string" where
  "warn_message thing version issue instead =
     stringify thing @ '' is deprecated since trio-asyncio '' @ version @
     (case instead of
        None \<Rightarrow> '' with no replacement''
      | Some i \<Rightarrow> ''; use '' @ stringify i @ '' instead'') @
     (case issue of None \<Rightarrow> '''' | Some n \<Rightarrow> '' ('' @ url_for_issue n @ '')'')"

section \<open>Deprecated functions\<close>

text \<open>A call warns, then calls: the warnings so far are the state.\<close>

definition warn_deprecated ::
  "thing \<Rightarrow> string \<Rightarrow> nat option \<Rightarrow> thing option \<Rightarrow> string list \<Rightarrow> string list" where
  "warn_deprecated thing version issue instead ws = ws @ [warn_message thing version issue instead]"

definition deprecated_call ::
  "thing \<Rightarrow> string \<Rightarrow> nat option \<Rightarrow> thing option \<Rightarrow> ('a \<Rightarrow> (string list, 'b) py) \<Rightarrow> 'a \<Rightarrow> (string list, 'b) py" where
  "deprecated_call thing version issue instead fn x ws =
     fn x (warn_deprecated thing version issue instead ws)"

text \<open>
  \<open>deprecated(version, thing=..., ...)\<close> makes a decorator, \<open>do_wrap\<close>, whose variable \<open>thing\<close> its
  wrappers share: what was given, or the first wrapper made (\<open>Inr\<close> with its number), which is
  shown by the names it has when a wrapper is called (\<open>names_of\<close>).
\<close>

type_synonym decorator = "(thing + nat) option"

definition do_wrap :: "nat \<Rightarrow> decorator \<Rightarrow> decorator" where
  "do_wrap wrapper thing = (case thing of None \<Rightarrow> Some (Inr wrapper) | Some t \<Rightarrow> Some t)"

definition shown_thing :: "(nat \<Rightarrow> thing) \<Rightarrow> decorator \<Rightarrow> thing" where
  "shown_thing names_of d =
     (case d of None \<Rightarrow> Shown ''None'' | Some (Inl t) \<Rightarrow> t | Some (Inr wrapper) \<Rightarrow> names_of wrapper)"

definition wrapper_call ::
  "(nat \<Rightarrow> thing) \<Rightarrow> decorator \<Rightarrow> string \<Rightarrow> nat option \<Rightarrow> thing option \<Rightarrow> ('a \<Rightarrow> (string list, 'b) py) \<Rightarrow>
   'a \<Rightarrow> (string list, 'b) py" where
  "wrapper_call names_of d version issue instead fn x =
     deprecated_call (shown_thing names_of d) version issue instead fn x"

definition newline :: string where
  "newline = [CHR 0x0A]"

definition is_space :: "char \<Rightarrow> bool" where
  "is_space c \<longleftrightarrow> c \<in> {CHR '' '', CHR 0x09, CHR 0x0A, CHR 0x0B, CHR 0x0C, CHR 0x0D}"

definition rstrip :: "string \<Rightarrow> string" where
  "rstrip s = rev (dropWhile is_space (rev s))"

definition deprecated_doc :: "string option \<Rightarrow> string \<Rightarrow> nat option \<Rightarrow> thing option \<Rightarrow> string option" where
  "deprecated_doc doc version issue instead =
     (case doc of
        None \<Rightarrow> None
      | Some d \<Rightarrow> Some (rstrip d @ newline @ newline @ ''.. deprecated:: '' @ version @ newline @
          (case instead of None \<Rightarrow> '''' | Some i \<Rightarrow> ''   Use '' @ stringify i @ '' instead.'' @ newline) @
          (case issue of None \<Rightarrow> ''''
           | Some n \<Rightarrow> ''   For details, see `issue #'' @ decimal n @ '' <'' @ url_for_issue n @ ''>`__.'' @ newline) @
          newline))"

text \<open>\<open>old_qualname.rpartition(".")[-1]\<close>\<close>

definition last_name :: "string \<Rightarrow> string" where
  "last_name q = rev (takeWhile (\<lambda>c. c \<noteq> CHR ''.'') (rev q))"

text \<open>An alias has its own \<open>__qualname__\<close> and \<open>__name__\<close>, the module of the function it stands
  for, and warns under its own name: the wrapper reads them when it is called.\<close>

record alias_obj =
  alias_module :: string
  alias_qualname :: string
  alias_name :: string
  alias_doc :: "string option"

definition deprecated_alias :: "string \<Rightarrow> thing \<Rightarrow> string \<Rightarrow> string \<Rightarrow> nat option \<Rightarrow> alias_obj" where
  "deprecated_alias old_qualname new_fn modname version issue =
     \<lparr>alias_module = modname, alias_qualname = old_qualname, alias_name = last_name old_qualname,
      alias_doc = deprecated_doc (Some ''Deprecated alias.'') version issue (Some new_fn)\<rparr>"

definition alias_call ::
  "alias_obj \<Rightarrow> thing \<Rightarrow> string \<Rightarrow> nat option \<Rightarrow> ('a \<Rightarrow> (string list, 'b) py) \<Rightarrow> 'a \<Rightarrow> (string list, 'b) py" where
  "alias_call a new_fn version issue fn x =
     deprecated_call (Named (alias_module a) (alias_qualname a)) version issue (Some new_fn) fn x"

section \<open>Deprecated attributes of the module\<close>

text \<open>\<open>instead\<close> is \<open>None\<close> if it was not given; then the value is what to use. Values are
  numbered, \<open>thing_of\<close> shows them.\<close>

record deprecated_attribute =
  da_value :: nat
  da_version :: string
  da_issue :: "nat option"
  da_instead :: "thing option option"

definition module_getattr ::
  "(nat \<Rightarrow> thing) \<Rightarrow> string \<Rightarrow> (string \<Rightarrow> deprecated_attribute option) \<Rightarrow> string \<Rightarrow> (string list, nat) py" where
  "module_getattr thing_of module_name attributes name ws =
     (case attributes name of
        Some info \<Rightarrow>
          (let instead = (case da_instead info of None \<Rightarrow> Some (thing_of (da_value info)) | Some i \<Rightarrow> i)
           in py_return (da_value info)
                (warn_deprecated (Shown (module_name @ ''.'' @ name)) (da_version info) (da_issue info) instead ws))
      | None \<Rightarrow> py_raise AttributeError ws)"

definition enable_attribute_deprecations :: "string \<Rightarrow> deprecated_attribute option" where
  "enable_attribute_deprecations = (\<lambda>_. None)"

text \<open>The table of \<open>__init__.py\<close>: \<open>import_module\<close> loads a submodule, \<open>get\<close> reads an
  attribute of \<open>_loop\<close>.\<close>

definition rstrip_underscores :: "string \<Rightarrow> string" where
  "rstrip_underscores s = rev (dropWhile (\<lambda>c. c = CHR ''_'') (rev s))"

definition package_attributes ::
  "(string \<Rightarrow> nat) \<Rightarrow> (string \<Rightarrow> nat) \<Rightarrow> string \<Rightarrow> deprecated_attribute option" where
  "package_attributes import_module get name =
     (if name \<in> {''TrioPolicy'', ''TrioChildWatcher'', ''current_policy''}
      then Some \<lparr>da_value = get name, da_version = ''0.11.0'', da_issue = Some 64, da_instead = Some None\<rparr>
      else if name \<in> {''adapter'', ''async_'', ''base'', ''child'', ''handles'', ''loop'', ''sync'', ''util''}
      then Some \<lparr>da_value = import_module (''trio_asyncio._'' @ rstrip_underscores name), da_version = ''0.11.0'',
          da_issue = Some 64, da_instead = Some (Some (Shown ''an import from the top-level trio_asyncio package''))\<rparr>
      else enable_attribute_deprecations name)"

section \<open>Facts\<close>

lemma last_name_suffix: "CHR ''.'' \<notin> set q \<Longrightarrow> last_name (p @ ''.'' @ q) = q"
proof -
  assume "CHR ''.'' \<notin> set q"
  then have "takeWhile (\<lambda>c. c \<noteq> CHR ''.'') (rev q @ CHR ''.'' # rev p) = rev q"
    by (subst takeWhile_append2) auto
  then show ?thesis by (simp add: last_name_def)
qed

lemma decimal_digits: "set (decimal n) \<subseteq> char_of ` {48..<(58::nat)} \<and> decimal n \<noteq> []"
proof (induction n rule: decimal.induct)
  case (1 n)
  show ?case
  proof (cases "n < 10")
    case True
    then have "48 + n \<in> {48..<58::nat}" by simp
    then show ?thesis using True by (simp only: decimal.simps [of n] if_True list.set empty_subsetI insert_subset
        list.distinct simp_thms image_eqI)
  next
    case False
    have "48 + n mod 10 \<in> {48..<58::nat}" by simp
    then have "char_of (48 + n mod 10) \<in> char_of ` {48..<58::nat}" by (rule imageI)
    then show ?thesis using 1 False by (simp add: decimal.simps [of n])
  qed
qed

text \<open>A lookup of an unknown name warns of nothing; a deprecated one warns once and gives the
  value.\<close>

lemma module_getattr_outcome:
  "module_getattr f m attrs name ws =
     (case attrs name of
        None \<Rightarrow> (ws, Inl AttributeError)
      | Some info \<Rightarrow> (ws @ [warn_message (Shown (m @ ''.'' @ name)) (da_version info) (da_issue info)
          (case da_instead info of None \<Rightarrow> Some (f (da_value info)) | Some i \<Rightarrow> i)], Inr (da_value info)))"
  by (auto simp: module_getattr_def warn_deprecated_def split: option.split)

lemma warn_message_example:
  "warn_message (Shown ''trio_asyncio.loop'') ''0.11.0'' (Some 64) None =
     ''trio_asyncio.loop is deprecated since trio-asyncio 0.11.0 with no replacement (https://github.com/python-trio/trio-asyncio/issues/64)''"
  by code_simp

text \<open>A decorator is meant to be used once: the wrappers of a second function that it is applied
  to warn under the name of the first.\<close>

lemma decorator_used_twice:
  assumes "do_wrap w1 None = d1" and "do_wrap w2 d1 = d2" and "fn x = py_return y"
  shows "wrapper_call names_of d2 version issue instead fn x [] =
    ([warn_message (names_of w1) version issue instead], Inr y)"
  using assms by (auto simp: do_wrap_def wrapper_call_def shown_thing_def deprecated_call_def warn_deprecated_def)

end
