(* ===== verification/Loop_Object.thy ===== *)
theory Loop_Object
  imports Async_Loop Deprecations
begin

text \<open>
  The remaining methods of the loop and selector classes: how a loop shows itself, the wait for
  its end, the hooks of asyncio that are never to be reached or have nothing to do. And the
  names of the package: what an attribute of \<open>trio_asyncio\<close> is, once it was imported.
\<close>

section \<open>repr\<close>

fun hex_digit :: "nat \<Rightarrow> char" where
  "hex_digit n = (if n < 10 then char_of (48 + n) else char_of (87 + n))"

fun hexadecimal :: "nat \<Rightarrow> string" where
  "hexadecimal n = (if n < 16 then [hex_digit n] else hexadecimal (n div 16) @ [hex_digit (n mod 16)])"

declare hexadecimal.simps [simp del]

definition running_word :: "('q, 'z) loop_scheme \<Rightarrow> string" where
  "running_word s = (if closed_flag s then ''closed'' else if stopped s then ''no'' else ''yes'')"

definition loop_repr :: "string \<Rightarrow> nat \<Rightarrow> ('q, 'z) loop_scheme \<Rightarrow> string" where
  "loop_repr class_name ident s =
     ''<'' @ class_name @ '' running='' @ running_word s @ '' at 0x'' @ hexadecimal ident @ ''>''"

section \<open>Waiting for the end, and hooks\<close>

text \<open>\<open>wait_stopped\<close> returns when \<open>_stopped\<close> is set: \<open>None\<close> stands for the wait.\<close>

definition wait_stopped :: "('q, 'z) loop_scheme \<Rightarrow> unit option" where
  "wait_stopped s = (if stopped s then Some () else None)"

definition base_stop :: "('s, unit) py" where
  "base_stop = py_raise (RuntimeError ''override me'')"

definition base_call_soon :: "('s, unit) py" where
  "base_call_soon = py_raise (RuntimeError ''_call_soon() should not have been called'')"

definition timer_handle_cancelled :: "hid \<Rightarrow> ('s, unit) py" where
  "timer_handle_cancelled h = py_return ()"

text \<open>\<open>_TrioSelector\<close> keeps asyncio's table of descriptors, and refuses to wait.\<close>

definition selector_select :: "instant option \<Rightarrow> ('s, unit) py" where
  "selector_select timeout = py_raise NotImplementedError"

definition loop_factory :: "('s, unit) py" where
  "loop_factory = py_raise (RuntimeError ''Event loop creations shouldn't get here'')"

text \<open>A loop says that it runs exactly if it is running and \<open>wait_stopped\<close> does not return.\<close>

lemma repr_running:
  assumes "\<not> (closed_flag s \<and> is_running s)"
  shows "running_word s = ''yes'' \<longleftrightarrow> is_running s \<and> wait_stopped s = None"
  using assms by (auto simp: running_word_def wait_stopped_def is_running_def)

section \<open>The names of the package\<close>

text \<open>The names that \<open>__init__.py\<close> imports, with the modules they come from.\<close>

definition package_imports :: "(string \<times> string) list" where
  "package_imports =
     [(''__version__'', ''_version''), (''TrioAsyncioDeprecationWarning'', ''_deprecate''),
      (''run_aio_future'', ''_util''), (''run_aio_generator'', ''_util''),
      (''BaseTrioEventLoop'', ''_base''), (''TrioExecutor'', ''_base''), (''TrioEventLoop'', ''_async''),
      (''open_loop'', ''_loop''), (''run'', ''_loop''), (''current_loop'', ''_loop''), (''run_trio_task'', ''_loop''),
      (''run_trio'', ''_loop''), (''run_aio_coroutine'', ''_loop''),
      (''aio_as_trio'', ''_adapter''), (''trio_as_aio'', ''_adapter''), (''asyncio_as_trio'', ''_adapter''),
      (''trio_as_asyncio'', ''_adapter''), (''allow_asyncio'', ''_adapter'')]"

text \<open>The submodules that are loaded by then, which are attributes of the package.\<close>

definition submodules :: "string list" where
  "submodules = [''_version'', ''_deprecate'', ''_util'', ''_base'', ''_handles'', ''_async'', ''_loop'', ''_adapter'', ''_child'', ''_sync'']"

text \<open>\<open>get module name\<close> is the attribute of a submodule, \<open>import_module\<close> a submodule,
  and \<open>others\<close> the module's remaining globals (\<open>_importlib\<close> and the names with two underscores).
  An attribute of the package is one of these names, else \<open>__getattr__\<close> is asked.\<close>

definition package_lookup ::
  "(string \<rightharpoonup> nat) \<Rightarrow> (nat \<Rightarrow> thing) \<Rightarrow> (string \<Rightarrow> nat) \<Rightarrow> (string \<Rightarrow> string \<Rightarrow> nat) \<Rightarrow> string \<Rightarrow>
     (string list, nat) py" where
  "package_lookup others thing_of import_module get name ws =
     (case map_of package_imports name of
        Some m \<Rightarrow> py_return (get m name) ws
      | None \<Rightarrow>
          if name \<in> set submodules then py_return (import_module (''trio_asyncio.'' @ name)) ws
          else case others name of Some x \<Rightarrow> py_return x ws
          | None \<Rightarrow> module_getattr thing_of ''trio_asyncio'' (package_attributes import_module (get ''_loop'')) name ws)"

text \<open>The old names of the submodules still give the submodules, with one warning each; what was
  never a name of the package is an \<open>AttributeError\<close>.\<close>

lemma old_module_names:
  assumes "name \<in> {''adapter'', ''async_'', ''base'', ''child'', ''handles'', ''loop'', ''sync'', ''util''}" and "others name = None"
  shows "\<exists>w. package_lookup others t im get name ws = (ws @ [w], snd (package_lookup others t im get (CHR ''_'' # rstrip_underscores name) ws))"
  using assms
  by (elim insertE emptyE)
    (simp_all add: package_lookup_def package_imports_def submodules_def module_getattr_def package_attributes_def Let_def
      warn_deprecated_def rstrip_underscores_def)

lemma unknown_name:
  assumes "name \<notin> fst ` set package_imports" and "name \<notin> set submodules" and "others name = None"
    and "package_attributes im (get ''_loop'') name = None"
  shows "package_lookup others t im get name ws = (ws, Inl AttributeError)"
  using assms by (auto simp: package_lookup_def module_getattr_def map_of_eq_None_iff [symmetric])

end
