(* ===== verification/Loop_Liveness.thy ===== *)
theory Loop_Liveness
  imports Loop_Properties
begin

text \<open>
  Progress of the main loop while everything else goes on: the steps of the loop's own task are
  counted, and the messages and timers that are before a given one are a measure that each of
  them lowers and no other step raises. So no message waits for ever behind timers or later
  messages, and no due timer behind messages, whatever the callbacks and the other tasks add.
\<close>

section \<open>The loop's task and the others\<close>

inductive task_step ::
  "'q channel_ops \<Rightarrow> ('q, 'z) loop_scheme methods \<Rightarrow>
   ('q, 'z) loop_scheme \<times> pc \<Rightarrow> ('q, 'z) loop_scheme \<times> pc \<Rightarrow> bool"
  for C M where
  top: "task_step C M (s, Top) (loop_top M s)"
| message: "loop_receive C M s = Some c \<Longrightarrow> task_step C M (s, Waiting d) c"
| timeout: "t \<le> clock s \<Longrightarrow> task_step C M (s, Waiting (Some t)) (s, Top)"

inductive_cases task_step_Top: "task_step C M (s, Top) c"
inductive_cases task_step_Waiting: "task_step C M (s, Waiting d) c"
inductive_cases task_step_Exited: "task_step C M (s, Exited e) c"

lemma loop_step_split: "loop_step C M c c' \<longleftrightarrow> task_step C M c c' \<or> other_step C M c c'"
  by (auto intro: loop_step.intros task_step.intros other_step.intros elim!: loop_step.cases task_step.cases other_step.cases)

text \<open>A run of the loop, with the number of steps that its task took.\<close>

inductive counted ::
  "'q channel_ops \<Rightarrow> ('q, 'z) loop_scheme methods \<Rightarrow> nat \<Rightarrow>
   ('q, 'z) loop_scheme \<times> pc \<Rightarrow> ('q, 'z) loop_scheme \<times> pc \<Rightarrow> bool"
  for C M where
  start: "counted C M 0 c c"
| own: "counted C M n c c1 \<Longrightarrow> task_step C M c1 c2 \<Longrightarrow> counted C M (Suc n) c c2"
| other: "counted C M n c c1 \<Longrightarrow> other_step C M c1 c2 \<Longrightarrow> counted C M n c c2"

lemma counted_steps: "counted C M n c c' \<Longrightarrow> loop_steps C M c c'"
  by (induction rule: counted.induct) (auto simp: loop_step_split intro: rtranclp.rtrancl_into_rtrancl)

lemma steps_counted: "loop_steps C M c c' \<Longrightarrow> \<exists>n. counted C M n c c'"
  by (induction rule: rtranclp_induct) (auto simp: loop_step_split intro: counted.intros)

section \<open>The measure\<close>

text \<open>A message counts for two, since it may become a timer. Going from \<open>Top\<close> to the wait is a
  step without progress, and so is the timeout; but then a timer is due.\<close>

definition due_now :: "('q, 'z) loop_scheme \<Rightarrow> bool" where
  "due_now s \<longleftrightarrow> (\<exists>w. root_deadline s = Some w \<and> w \<le> clock s)"

fun slack :: "('q, 'z) loop_scheme \<times> pc \<Rightarrow> nat" where
  "slack (s, Top) = (if due_now s then 0 else 2)"
| "slack (s, Waiting _) = 1"
| "slack (s, Exited _) = 0"

definition ahead :: "hid list \<Rightarrow> ('q, 'z) loop_scheme \<times> pc \<Rightarrow> nat" where
  "ahead pre c = 3 * (2 * length pre + length (timers (fst c))) + slack c"

text \<open>While a timer is due, the loop does not go to sleep; if it sleeps already, one message may
  still overtake.\<close>

fun late :: "('q, 'z) loop_scheme \<times> pc \<Rightarrow> nat" where
  "late (s, Waiting _) = length (timers s) + 2"
| "late (s, _) = length (timers s)"

definition timer_over :: "hid \<Rightarrow> ('q, 'z) loop_scheme \<Rightarrow> bool" where
  "timer_over h s \<longleftrightarrow> h \<in> set (ran s) \<or> hcancelled (handles s h)"

context loop_methods
begin

lemma other_step_frame:
  assumes "other_step C M (s, p) c"
  shows "snd c = p \<and> timers (fst c) = timers s \<and> clock s \<le> clock (fst c) \<and> received (fst c) = received s \<and>
    (\<exists>new. msgs (queue (fst c)) = msgs (queue s) @ new)"
  using assms
proof cases
  case (call a s' r)
  then show ?thesis using api_run_frame [OF exec_api_frame, of s a] by (simp add: run_frame_def)
next
  case (soon s' u)
  then show ?thesis using send_msgs
    by (auto simp: run_sync_soon_one_def Let_def split: list.splits option.splits)
next
  case (async_end h b s' r)
  then show ?thesis using api_run_frame [OF async_run_end_frame, of s h b]
    by (auto simp: run_frame_def split: sum.splits)
next
  case (io fd h reading wake)
  obtain s' pc where st: "io_step M h wake s (io_state s h) = (s', pc)" by fastforce
  then have "run_frame msgs s s'"
  proof (cases rule: io_step_cases)
    case (failed e)
    then show ?thesis using api_run_frame [OF io_except_frame, of s e] by simp
  next
    case runs
    then show ?thesis using api_run_frame [OF io_run_frame, of s h] by (simp add: run_frame_def outer_def)
  qed (simp add: run_frame_def)
  then show ?thesis using io(1) by (simp add: io_advance_def st run_frame_def)
qed simp_all

lemma wait_not_due:
  assumes "loop_top M s = (s', Waiting d)" and "\<not> stopped s"
  shows "\<not> due_now s"
  using assms
  by (auto simp: loop_top_def poll_timers_def due_now_def root_deadline_def py_bind_def loop_time_def Let_def
      after_one_def leave_loop_def split: list.splits option.splits sum.splits prod.splits if_splits)

lemma timeout_due: "conf_inv msgs (s, Waiting (Some t)) \<Longrightarrow> t \<le> clock s \<Longrightarrow> due_now s"
  by (auto simp: conf_inv_def due_now_def intro!: exI [of _ t])

text \<open>Each step of the task brings a message nearer, or takes it.\<close>

lemma task_step_ahead:
  assumes st: "task_step C M (s, p) (s', p')" and inv: "conf_inv msgs (s, p)" and q: "msgs (queue s) = pre @ h # post"
  shows "(\<exists>e. p' = Exited e) \<or> received s' = received s @ [h] \<and> pre = [] \<or>
    (\<exists>pre' post'. msgs (queue s') = pre' @ h # post' \<and> received s' @ pre' = received s @ pre \<and>
       ahead pre' (s', p') < ahead pre (s, p))"
proof (cases p)
  case Top
  then have run: "\<not> stopped s" and t: "loop_top M s = (s', p')"
    using inv st by (auto simp: conf_inv_def elim: task_step_Top)
  from own_top [OF run t q] consider "\<exists>e. p' = Exited e" | (wait) d where "p' = Waiting d" "s' = s"
    | (timer) post' where "p' = Top" "Suc (length (timers s')) = length (timers s)" "received s' = received s"
        "msgs (queue s') = pre @ h # post'" by blast
  then show ?thesis
  proof cases
    case wait
    then have "\<not> due_now s" using wait_not_due [of s s' d] t run by simp
    then show ?thesis using wait q Top by (auto simp: ahead_def)
  next
    case timer
    then have "ahead pre (s', p') < ahead pre (s, p)" by (auto simp: ahead_def Top)
    then show ?thesis using timer by blast
  qed simp
next
  case (Waiting d)
  from st [unfolded Waiting] show ?thesis
  proof (cases rule: task_step_Waiting [consumes 1, case_names message timeout])
    case message
    obtain x rest where x: "msgs (queue s) = x # rest" using q by (cases pre) auto
    from own_receive [OF x message] consider "\<exists>e. p' = Exited e"
      | (top) new where "p' = Top" "length (timers s') \<le> Suc (length (timers s))" "received s' = received s @ [x]"
          "msgs (queue s') = rest @ new" by blast
    then show ?thesis
    proof cases
      case top
      show ?thesis
      proof (cases pre)
        case Nil
        then show ?thesis using top x q by simp
      next
        case (Cons y ys)
        then have "msgs (queue s') = ys @ h # post @ new" "received s' @ ys = received s @ pre"
          using top x q by simp_all
        moreover have "ahead ys (s', p') < ahead pre (s, Waiting d)" using top(1,2) Cons by (auto simp: ahead_def)
        ultimately show ?thesis unfolding Waiting by blast
      qed
    qed simp
  next
    case (timeout t)
    then have "due_now s" using timeout_due [of s t] inv Waiting by simp
    then show ?thesis using timeout q by (auto simp: ahead_def Waiting)
  qed
next
  case (Exited e)
  then show ?thesis using st by (auto elim: task_step_Exited)
qed

lemma other_step_ahead:
  assumes "other_step C M (s, p) (s', p')" and "msgs (queue s) = pre @ h # post"
  shows "p' = p \<and> received s' = received s \<and> (\<exists>post'. msgs (queue s') = pre @ h # post') \<and>
    ahead pre (s', p') \<le> ahead pre (s, p)"
proof -
  note f = other_step_frame [OF assms(1)]
  then have "due_now s \<Longrightarrow> due_now s'" by (auto simp: due_now_def root_deadline_def)
  then show ?thesis using f assms(2) by (cases p) (auto simp: ahead_def)
qed

text \<open>Somebody is always able to move: a message that waits keeps the loop's task going.\<close>

lemma task_enabled:
  assumes "msgs (queue s) \<noteq> []" and "\<nexists>e. p = Exited e"
  shows "\<exists>c. task_step C M (s, p) c"
proof (cases p)
  case Top
  then show ?thesis using task_step.top [of C M s] by blast
next
  case (Waiting d)
  then show ?thesis using loop_receive_Some [OF assms(1)] task_step.message [of C M s _ d] by blast
qed (use assms in simp)

lemma counted_ahead:
  assumes "counted C M n c c'" and "conf_inv msgs c" and "msgs (queue (fst c)) = pre @ h # post"
  shows "conf_inv msgs c' \<and> ((\<exists>e. snd c' = Exited e) \<or> prefix (received (fst c) @ pre @ [h]) (received (fst c')) \<or>
    (\<exists>pre' post'. msgs (queue (fst c')) = pre' @ h # post' \<and> received (fst c') @ pre' = received (fst c) @ pre \<and>
       n + ahead pre' c' \<le> ahead pre c))"
  using assms
proof (induction rule: counted.induct)
  case (start c)
  then show ?case by auto
next
  case (own n c c1 c2)
  obtain s1 p1 s2 p2 where c: "c1 = (s1, p1)" "c2 = (s2, p2)" by fastforce
  have inv: "conf_inv msgs c1" using own by blast
  then have ev: "conf_inv msgs c2" "evolves ext msgs s1 s2"
    using loop_step_inv [of c1 c2] own.hyps(2) by (auto simp: loop_step_split c)
  from own.IH own.prems consider (exit) "\<exists>e. p1 = Exited e" | (taken) "prefix (received (fst c) @ pre @ [h]) (received s1)"
    | (waits) pre1 post1 where "msgs (queue s1) = pre1 @ h # post1" "received s1 @ pre1 = received (fst c) @ pre"
        "n + ahead pre1 c1 \<le> ahead pre c" by (auto simp: c)
  then show ?case
  proof cases
    case exit
    then show ?thesis using own.hyps(2) by (auto simp: c elim: task_step_Exited)
  next
    case taken
    then show ?thesis using ev prefix_order.trans by (auto simp: c evolves_def)
  next
    case waits
    from task_step_ahead [OF own.hyps(2) [unfolded c] inv [unfolded c] waits(1)]
    consider "\<exists>e. p2 = Exited e" | (take) "received s2 = received s1 @ [h]" "pre1 = []"
      | (near) pre2 post2 where "msgs (queue s2) = pre2 @ h # post2" "received s2 @ pre2 = received s1 @ pre1"
          "ahead pre2 (s2, p2) < ahead pre1 (s1, p1)" by blast
    then show ?thesis
    proof cases
      case take
      then have "received s2 = received (fst c) @ pre @ [h]" using waits(2) by simp
      then show ?thesis using ev(1) by (simp add: c)
    next
      case near
      then have "Suc n + ahead pre2 c2 \<le> ahead pre c" using waits(3) by (simp add: c)
      then show ?thesis using near(1,2) waits(2) ev(1) by (auto simp: c)
    qed (use ev in \<open>simp add: c\<close>)
  qed
next
  case (other n c c1 c2)
  obtain s1 p1 s2 p2 where c: "c1 = (s1, p1)" "c2 = (s2, p2)" by fastforce
  have inv: "conf_inv msgs c1" using other by blast
  then have ev: "conf_inv msgs c2" using loop_step_inv [of c1 c2] other.hyps(2) by (auto simp: loop_step_split)
  note f = other_step_frame [OF other.hyps(2) [unfolded c]]
  from other.IH other.prems consider "\<exists>e. p1 = Exited e" | "prefix (received (fst c) @ pre @ [h]) (received s1)"
    | (waits) pre1 post1 where "msgs (queue s1) = pre1 @ h # post1" "received s1 @ pre1 = received (fst c) @ pre"
        "n + ahead pre1 c1 \<le> ahead pre c" by (auto simp: c)
  then show ?case
  proof cases
    case waits
    from other_step_ahead [OF other.hyps(2) [unfolded c] waits(1)] waits(2,3)
    have "\<exists>post2. msgs (queue s2) = pre1 @ h # post2 \<and> received s2 @ pre1 = received (fst c) @ pre \<and>
        n + ahead pre1 c2 \<le> ahead pre c" by (auto simp: c)
    then show ?thesis using ev by (auto simp: c)
  qed (use ev f in \<open>auto simp: c\<close>)
qed

text \<open>A message whose callback ends the loop is not taken without ending it.\<close>

lemma task_step_stop:
  assumes st: "task_step C M (s, p) (s', p')" and inv: "conf_inv msgs (s, p)" and q: "msgs (queue s) = pre @ h # post"
    and k: "kind (handles s h) = PlainHandle" "hcallback (handles s h) = Some cb" and stops: "stops M cb"
    and live: "\<not> hcancelled (handles s' h)"
  shows "(\<exists>e. p' = Exited e) \<or>
    (\<exists>pre' post'. msgs (queue s') = pre' @ h # post' \<and> ahead pre' (s', p') < ahead pre (s, p))"
proof (cases "received s' = received s @ [h] \<and> pre = []")
  case True
  have h: "h < next_hid s" and i: "loop_inv msgs s" using inv q by (auto simp: conf_inv_def loop_inv_def ids_ok_def)
  have "evolves ext msgs s s'" using loop_step_inv [OF _ inv, of "(s', p')"] st by (simp add: loop_step_split)
  then have l: "\<not> hcancelled (handles s h)" using live evolves_handle [of ext msgs s s' h] h by (auto simp: handle_frame_def)
  show ?thesis
  proof (cases p)
    case Top
    then have "loop_top M s = (s', p')" "\<not> stopped s" using inv st by (auto simp: conf_inv_def elim: task_step_Top)
    then show ?thesis using own_top [OF _ _ q] True by auto
  next
    case (Waiting d)
    from st [unfolded Waiting] show ?thesis
      by (cases rule: task_step_Waiting) (use run_stop_callback [OF _ k l stops, of post] q True in auto)
  qed (use st in \<open>auto elim: task_step_Exited\<close>)
next
  case False
  then show ?thesis using task_step_ahead [OF st inv q] by blast
qed

lemma counted_stop:
  assumes "counted C M n c c'" and "conf_inv msgs c" and "msgs (queue (fst c)) = pre @ h # post"
    and "kind (handles (fst c) h) = PlainHandle" and "hcallback (handles (fst c) h) = Some cb" and stops: "stops M cb"
    and live: "\<not> hcancelled (handles (fst c') h)"
  shows "conf_inv msgs c' \<and> h < next_hid (fst c') \<and> kind (handles (fst c') h) = PlainHandle \<and>
    hcallback (handles (fst c') h) = Some cb \<and> ((\<exists>e. snd c' = Exited e) \<or>
    (\<exists>pre' post'. msgs (queue (fst c')) = pre' @ h # post' \<and> n + ahead pre' c' \<le> ahead pre c))"
  using assms(1-5) live
proof (induction rule: counted.induct)
  case (start c)
  then show ?case by (auto simp: conf_inv_def loop_inv_def ids_ok_def)
next
  case (own n c c1 c2)
  obtain s1 p1 s2 p2 where c: "c1 = (s1, p1)" "c2 = (s2, p2)" by fastforce
  have st: "loop_step C M c1 c2" using own.hyps(2) by (simp add: loop_step_split)
  have i1: "conf_inv msgs c1" "h < next_hid s1"
    using loop_steps_inv [OF counted_steps [OF own.hyps(1)] own.prems(1)] own.prems(1,2)
    by (auto simp: c conf_inv_def loop_inv_def ids_ok_def evolves_def)
  note ev = loop_step_inv [OF st i1(1)]
  then have f: "handle_frame (handles s1 h) (handles s2 h)" "h < next_hid s2"
    using i1(2) by (auto simp: c evolves_def)
  then have l: "\<not> hcancelled (handles s1 h)" using own.prems(5) by (auto simp: c handle_frame_def)
  with own.IH own.prems(1-4) have 1: "kind (handles s1 h) = PlainHandle" "hcallback (handles s1 h) = Some cb"
    "(\<exists>e. p1 = Exited e) \<or> (\<exists>pre' post'. msgs (queue s1) = pre' @ h # post' \<and> n + ahead pre' c1 \<le> ahead pre c)"
    by (auto simp: c)
  have "(\<exists>e. p2 = Exited e) \<or> (\<exists>pre' post'. msgs (queue s2) = pre' @ h # post' \<and> Suc n + ahead pre' c2 \<le> ahead pre c)"
    using 1(3)
  proof (elim disjE exE conjE)
    fix e assume "p1 = Exited e"
    then show ?thesis using own.hyps(2) by (auto simp: c elim: task_step_Exited)
  next
    fix pre' post' assume w: "msgs (queue s1) = pre' @ h # post'" "n + ahead pre' c1 \<le> ahead pre c"
    from task_step_stop [OF own.hyps(2) [unfolded c] i1(1) [unfolded c] w(1) 1(1,2) stops] own.prems(5) w(2)
    show ?thesis by (fastforce simp: c)
  qed
  then show ?case using ev f 1(1,2) own.prems(5) by (auto simp: c handle_frame_def)
next
  case (other n c c1 c2)
  obtain s1 p1 s2 p2 where c: "c1 = (s1, p1)" "c2 = (s2, p2)" by fastforce
  have st: "loop_step C M c1 c2" using other.hyps(2) by (simp add: loop_step_split)
  have i1: "conf_inv msgs c1" "h < next_hid s1"
    using loop_steps_inv [OF counted_steps [OF other.hyps(1)] other.prems(1)] other.prems(1,2)
    by (auto simp: c conf_inv_def loop_inv_def ids_ok_def evolves_def)
  note ev = loop_step_inv [OF st i1(1)]
  then have f: "handle_frame (handles s1 h) (handles s2 h)" "h < next_hid s2"
    using i1(2) by (auto simp: c evolves_def)
  then have "\<not> hcancelled (handles s1 h)" using other.prems(5) by (auto simp: c handle_frame_def)
  with other.IH other.prems(1-4) have 1: "kind (handles s1 h) = PlainHandle" "hcallback (handles s1 h) = Some cb"
    "(\<exists>e. p1 = Exited e) \<or> (\<exists>pre' post'. msgs (queue s1) = pre' @ h # post' \<and> n + ahead pre' c1 \<le> ahead pre c)"
    by (auto simp: c)
  have "(\<exists>e. p2 = Exited e) \<or> (\<exists>pre' post'. msgs (queue s2) = pre' @ h # post' \<and> n + ahead pre' c2 \<le> ahead pre c)"
    using 1(3)
  proof (elim disjE exE conjE)
    fix e assume "p1 = Exited e"
    then show ?thesis using other_step_frame [OF other.hyps(2) [unfolded c]] by (auto simp: c)
  next
    fix pre' post' assume w: "msgs (queue s1) = pre' @ h # post'" "n + ahead pre' c1 \<le> ahead pre c"
    from other_step_ahead [OF other.hyps(2) [unfolded c] w(1)] w(2) show ?thesis by (fastforce simp: c)
  qed
  then show ?case using ev f 1(1,2) other.prems(5) by (auto simp: c handle_frame_def)
qed

lemma due_timer_due_now:
  assumes "loop_inv msgs s" and "(w, h) \<in> set (timers s)" and "w \<le> clock s"
  shows "due_now s"
proof -
  obtain x xs where x: "timers s = x # xs" using assms(2) by (cases "timers s") auto
  then obtain y ts where pop: "heappop fst (timers s) = Some (y, ts)"
    using heappop_None [of fst "timers s"] by (cases "heappop fst (timers s)") auto
  have "fst y \<le> w" using heappop_least [OF _ pop] assms(1,2) by (auto simp: loop_inv_def timers_ok_def)
  moreover have "y = x" using heappop_root [OF pop] x by simp
  ultimately show ?thesis using assms(3) x by (cases x) (simp add: due_now_def root_deadline_def)
qed

lemma dispatch_over:
  assumes "kind (handles s h) = TimerHandle w" and "dispatch M h s = (s', r)"
  shows "timer_over h s'"
proof (cases "hcancelled (handles s h)")
  case True
  then show ?thesis using assms by (simp add: dispatch_def timer_over_def)
next
  case False
  let ?s0 = "s\<lparr>sniffio := Some ''asyncio'', ran := ran s @ [h]\<rparr>"
  obtain s1 p where b: "handle_run M h ?s0 = (s1, p)" by fastforce
  then have "s' = s1\<lparr>sniffio := sniffio s\<rparr>" using assms False by (auto simp: dispatch_def)
  moreover have "api_frame ext msgs cap ?s0 s1" using handle_run_frame [of ?s0 h] b by simp
  then have "ran s1 = ran s @ [h]" by (simp add: api_frame_fields)
  ultimately show ?thesis by (simp add: timer_over_def)
qed

lemma timer_over_step:
  assumes "loop_step C M c c'" and "conf_inv msgs c" and "h < next_hid (fst c)" and "timer_over h (fst c)"
  shows "timer_over h (fst c')"
  using loop_step_inv [OF assms(1,2)] assms(3,4) evolves_handle [of ext msgs "fst c" "fst c'" h]
  by (auto simp: timer_over_def evolves_def handle_frame_def)

lemma task_step_late:
  assumes st: "task_step C M (s, p) (s', p')" and inv: "conf_inv msgs (s, p)"
    and t: "(w, h) \<in> set (timers s)" "w \<le> clock s"
  shows "(\<exists>e. p' = Exited e) \<or> timer_over h s' \<or> (w, h) \<in> set (timers s') \<and> late (s', p') < late (s, p)"
proof (cases p)
  case Top
  then have run: "\<not> stopped s" and top: "loop_top M s = (s', p')" and i: "loop_inv msgs s"
    using inv st by (auto simp: conf_inv_def elim: task_step_Top)
  have due: "due_now s" by (rule due_timer_due_now [OF i t])
  show ?thesis
  proof (cases s rule: poll_timers_cases)
    case (error e)
    then show ?thesis using top run by (auto simp: loop_top_def leave_loop_def)
  next
    case (idle u)
    then show ?thesis using top run wait_not_due [of s s] due by (auto simp: loop_top_def)
  next
    case (due v obj ts u)
    obtain s2 r where d: "dispatch M obj (s\<lparr>timers := ts\<rparr>) = (s2, r)" by fastforce
    have m: "mset (timers s) = add_mset (v, obj) (mset ts)" by (rule mset_heappop [OF due(2)])
    have l: "length (timers s) = Suc (length ts)" using arg_cong [OF m, of size] by simp
    have eq: "(s', p') = after_one (s2, r)" using top run due(1) d by (simp add: loop_top_def)
    have ts: "timers s2 = ts" using dispatch_frame [OF d] by (simp add: run_frame_def)
    consider "(w, h) = (v, obj)" | "(w, h) \<in> set ts" using t(1) arg_cong [OF m, of set_mset] by auto
    then show ?thesis
    proof cases
      case 1
      have "timer_over obj s2" by (rule dispatch_over [OF _ d]) (simp add: pop_inv(3) [OF i due(2)])
      then show ?thesis using eq 1 by (auto simp: after_one_def leave_loop_def split: sum.splits)
    next
      case 2
      then show ?thesis using eq ts l Top by (auto simp: after_one_def leave_loop_def split: sum.splits)
    qed
  qed
next
  case (Waiting d)
  from st [unfolded Waiting] show ?thesis
  proof (cases rule: task_step_Waiting [consumes 1, case_names message timeout])
    case message
    then have "msgs (queue s) \<noteq> []"
      using receive_None_iff [of "queue s"] by (auto simp: loop_receive_def receive_def split: option.splits)
    then obtain x rest where x: "msgs (queue s) = x # rest" by (cases "msgs (queue s)") auto
    from own_receive [OF x message] show ?thesis using t(1) by (auto simp: Waiting)
  next
    case (timeout u)
    then show ?thesis using t by (simp add: Waiting)
  qed
next
  case (Exited e)
  then show ?thesis using st by (auto elim: task_step_Exited)
qed

lemma task_enabled_due:
  assumes "conf_inv msgs (s, p)" and "(w, h) \<in> set (timers s)" and "w \<le> clock s" and "\<nexists>e. p = Exited e"
  shows "\<exists>c. task_step C M (s, p) c"
proof (cases p)
  case Top
  then show ?thesis using task_step.top [of C M s] by blast
next
  case (Waiting d)
  have "due_now s" using due_timer_due_now [OF _ assms(2,3)] assms(1) by (simp add: conf_inv_def)
  then obtain t where "d = Some t" "t \<le> clock s" using assms(1) Waiting by (auto simp: conf_inv_def due_now_def)
  then show ?thesis using task_step.timeout [of t s C M] Waiting by blast
qed (use assms(4) in simp)

lemma counted_late:
  assumes "counted C M n c c'" and "conf_inv msgs c" and "(w, h) \<in> set (timers (fst c))" and "w \<le> clock (fst c)"
  shows "conf_inv msgs c' \<and> h < next_hid (fst c') \<and> w \<le> clock (fst c') \<and>
    ((\<exists>e. snd c' = Exited e) \<or> timer_over h (fst c') \<or> (w, h) \<in> set (timers (fst c')) \<and> n + late c' \<le> late c)"
  using assms
proof (induction rule: counted.induct)
  case (start c)
  then show ?case by (auto simp: conf_inv_def loop_inv_def timers_ok_def)
next
  case (own n c c1 c2)
  obtain s1 p1 s2 p2 where c: "c1 = (s1, p1)" "c2 = (s2, p2)" by fastforce
  have i: "conf_inv msgs c1" "h < next_hid s1" "w \<le> clock s1" using own by (auto simp: c)
  have st: "loop_step C M c1 c2" using own.hyps(2) by (simp add: loop_step_split)
  have ev: "conf_inv msgs c2" "h < next_hid s2" "w \<le> clock s2"
    using loop_step_inv [OF st i(1)] i by (auto simp: c evolves_def)
  from own.IH own.prems consider "\<exists>e. p1 = Exited e" | "timer_over h s1"
    | (waits) "(w, h) \<in> set (timers s1)" "n + late c1 \<le> late c" by (auto simp: c)
  then show ?case
  proof cases
    case 1
    then show ?thesis using own.hyps(2) by (auto simp: c elim: task_step_Exited)
  next
    case 2
    then show ?thesis using timer_over_step [OF st i(1)] i(2) ev by (simp add: c)
  next
    case waits
    then show ?thesis using task_step_late [OF own.hyps(2) [unfolded c] i(1) [unfolded c] waits(1) i(3)] ev by (auto simp: c)
  qed
next
  case (other n c c1 c2)
  obtain s1 p1 s2 p2 where c: "c1 = (s1, p1)" "c2 = (s2, p2)" by fastforce
  have i: "conf_inv msgs c1" "h < next_hid s1" "w \<le> clock s1" using other by (auto simp: c)
  have st: "loop_step C M c1 c2" using other.hyps(2) by (simp add: loop_step_split)
  have ev: "conf_inv msgs c2" "h < next_hid s2" "w \<le> clock s2"
    using loop_step_inv [OF st i(1)] i by (auto simp: c evolves_def)
  note f = other_step_frame [OF other.hyps(2) [unfolded c]]
  then have "late c2 = late c1" by (cases p1) (simp_all add: c)
  then show ?case using other.IH other.prems timer_over_step [OF st i(1)] i(2) ev f by (auto simp: c)
qed

end

section \<open>Properties\<close>

text \<open>C5: nothing starves a message: however many timers are due and whatever is scheduled,
  cancelled and run by callbacks, other tasks and threads, a message of the channel with \<open>m\<close>
  others before it and \<open>t\<close> timers on the heap is taken within \<open>6 * m + 3 * t + 2\<close> steps of the
  loop's task, after exactly those others, unless the loop is left; until then, the task can
  always make a step.\<close>

theorem messages_not_starved:
  assumes "loop_methods C msgs cap ext M" and "conf_inv msgs c" and "msgs (queue (fst c)) = pre @ h # post"
    and "counted C M n c c'"
  shows "(\<exists>e. snd c' = Exited e) \<or> prefix (received (fst c) @ pre @ [h]) (received (fst c')) \<or>
    n \<le> 6 * length pre + 3 * length (timers (fst c)) + 2 \<and> (\<exists>c''. task_step C M c' c'')"
proof -
  from loop_methods.counted_ahead [OF assms(1,4,2,3)] consider "\<exists>e. snd c' = Exited e"
    | "prefix (received (fst c) @ pre @ [h]) (received (fst c'))"
    | (waits) pre' post' where "msgs (queue (fst c')) = pre' @ h # post'" "n + ahead pre' c' \<le> ahead pre c" by blast
  then show ?thesis
  proof cases
    case waits
    have "slack c \<le> 2" by (cases c rule: slack.cases) simp_all
    then have "n \<le> 6 * length pre + 3 * length (timers (fst c)) + 2" using waits(2) by (simp add: ahead_def)
    then show ?thesis
      using loop_methods.task_enabled [OF assms(1), of "fst c'" "snd c'"] waits(1) by (cases c') auto
  qed blast+
qed

text \<open>The task's own steps, as long as it finds a message whenever it waits.\<close>

definition moves :: "'q channel_ops \<Rightarrow> ('q, 'z) loop_scheme \<times> pc \<Rightarrow> bool" where
  "moves C c \<longleftrightarrow> (case snd c of Top \<Rightarrow> True | Waiting _ \<Rightarrow> receive C (fst c) \<noteq> None | Exited _ \<Rightarrow> False)"

lemma own_step_task: "moves C c \<Longrightarrow> task_step C M c (own_step C M c)"
  by (cases "(C, M, c)" rule: own_step.cases)
    (auto simp: moves_def loop_receive_def split: option.splits intro: task_step.intros)

fun keeps_moving :: "nat \<Rightarrow> 'q channel_ops \<Rightarrow> ('q, 'z) loop_scheme methods \<Rightarrow> ('q, 'z) loop_scheme \<times> pc \<Rightarrow> bool" where
  "keeps_moving 0 C M c = True"
| "keeps_moving (Suc n) C M c = (keeps_moving n C M c \<and> moves C ((own_step C M ^^ n) c))"

lemma own_steps_counted: "keeps_moving n C M c \<Longrightarrow> counted C M n c ((own_step C M ^^ n) c)"
  by (induction n) (auto intro: counted.intros own_step_task)

text \<open>A timer is put on the heap, and runs; its message is taken within two steps.\<close>

theorem messages_not_starved_witness:
  "prefix [1] (received (fst (run_own 3 None [CallLater 0 noop, CallSoon noop])))"
proof -
  let ?as = "[CallLater 0 noop, CallSoon noop]"
  let ?c = "(after_calls None ?as, Top)"
  have e: "fst (queue (fst ?c)) = [] @ 1 # [2]" "received (fst ?c) = []" "timers (fst ?c) = []"
    "snd (run_own 3 None ?as) = Top" "keeps_moving 3 fifo_ops aio ?c"
    by (code_simp, code_simp, code_simp, code_simp, code_simp)
  have "counted fifo_ops aio 3 ?c (run_own 3 None ?as)" using own_steps_counted [OF e(5)] by (simp only: run_own_def)
  from messages_not_starved [OF fifo.async_contract after_calls_ok(1) e(1) this] e(2-4) show ?thesis by simp
qed

text \<open>C6: nothing starves a timer: once its deadline has passed, a timer on a heap of \<open>t\<close> runs
  within \<open>t + 2\<close> steps of the loop's task, whatever else happens, unless it is cancelled or the
  loop is left; until then, the task can always make a step.\<close>

theorem due_timers_run:
  assumes "loop_methods C msgs cap ext M" and "conf_inv msgs c" and "(w, h) \<in> set (timers (fst c))"
    and "w \<le> clock (fst c)" and "counted C M n c c'"
  shows "(\<exists>e. snd c' = Exited e) \<or> h \<in> set (ran (fst c')) \<or> hcancelled (handles (fst c') h) \<or>
    n \<le> length (timers (fst c)) + 2 \<and> (\<exists>c''. task_step C M c' c'')"
proof -
  note l = loop_methods.counted_late [OF assms(1,5,2,3,4)]
  then consider "\<exists>e. snd c' = Exited e" | "timer_over h (fst c')"
    | (waits) "(w, h) \<in> set (timers (fst c'))" "n + late c' \<le> late c" by blast
  then show ?thesis
  proof cases
    case waits
    have "late c \<le> length (timers (fst c)) + 2" by (cases c rule: late.cases) simp_all
    then have "n \<le> length (timers (fst c)) + 2" using waits(2) by simp
    then show ?thesis
      using loop_methods.task_enabled_due [OF assms(1), of "fst c'" "snd c'" w h] waits(1) l by (cases c') auto
  qed (auto simp: timer_over_def)
qed

theorem due_timers_run_witness:
  "1 \<in> set (ran (fst ((own_step fifo_ops aio ^^ 4) (run_own 2 None [CallLater 0 noop, CallSoon noop]))))"
proof -
  let ?as = "[CallLater 0 noop, CallSoon noop]"
  let ?c = "run_own 2 None ?as"
  have e: "timers (fst ?c) = [(0, 1)]" "clock (fst ?c) = 0" "snd ((own_step fifo_ops aio ^^ 4) ?c) = Waiting None"
    "\<not> hcancelled (handles (fst ((own_step fifo_ops aio ^^ 4) ?c)) 1)" "keeps_moving 4 fifo_ops aio ?c"
    by (code_simp, code_simp, code_simp, code_simp, code_simp)
  have "conf_inv fst ?c"
    using steps_inv_async [OF fifo.memory_channel_axioms after_calls_ok(1) run_own_steps, of 2 None ?as] by simp
  from due_timers_run [OF fifo.async_contract this _ _ own_steps_counted [OF e(5)], of 0 1] e(1-4)
  show ?thesis by simp
qed

text \<open>C7: \<open>stop()\<close> ends the loop: after \<open>stop()\<close> on a running loop with \<open>m\<close> messages and \<open>t\<close>
  timers, no matter what callbacks, other tasks and threads do meanwhile, the loop's task
  leaves its \<open>while\<close> within \<open>6 * m + 3 * t + 2\<close> of its steps, each of which it can make as
  long as it has not, unless the stop callback itself was cancelled.\<close>

theorem stop_ends_every_run:
  assumes "memory_channel C msgs cap" and "conf_inv msgs (s, p)" and "\<not> closed_flag s" and "\<not> stopped s"
    and "stop_wait s = None" and "\<forall>n. cap (queue s) = Some n \<longrightarrow> length (msgs (queue s)) < n"
    and "stop_async C None s = (s', r)" and "counted C (async_methods C) n (s', p) c"
  shows "r = Inr (next_eid s) \<and> ((\<exists>e. snd c = Exited e) \<or> hcancelled (handles (fst c) (next_hid s)) \<or>
    n \<le> 6 * length (msgs (queue s)) + 3 * length (timers s) + 2 \<and> (\<exists>c'. task_step C (async_methods C) c c'))"
proof -
  note lm = loop_methods_async [OF assms(1)]
  have st: "r = Inr (next_eid s)" "msgs (queue s') = msgs (queue s) @ next_hid s # []" "timers s' = timers s"
    "handles s' (next_hid s) = new_handle_obj PlainHandle (StopMe (next_eid s))"
    using stop_async_queues [OF assms(1,3-6)] assms(7) by auto
  have inv: "conf_inv msgs (s', p)"
    using loop_methods.frame_conf [OF lm _ assms(2)] memory_channel.stop_async_frame [OF assms(1), of "(=)" s None] assms(7)
    by simp
  show ?thesis
  proof (cases "hcancelled (handles (fst c) (next_hid s))")
    case False
    have h: "kind (handles (fst (s', p)) (next_hid s)) = PlainHandle"
      "hcallback (handles (fst (s', p)) (next_hid s)) = Some (StopMe (next_eid s))"
      by (simp_all add: st(4) new_handle_obj_def)
    have "msgs (queue (fst (s', p))) = msgs (queue s) @ next_hid s # []" by (simp add: st(2))
    from loop_methods.counted_stop [OF lm assms(8) inv this h stops_stop_me False]
    consider "\<exists>e. snd c = Exited e"
      | (waits) pre' post' where "msgs (queue (fst c)) = pre' @ next_hid s # post'"
          "n + ahead pre' c \<le> ahead (msgs (queue s)) (s', p)" by blast
    then show ?thesis
    proof cases
      case waits
      have "slack (s', p) \<le> 2" by (cases p) simp_all
      then have "n \<le> 6 * length (msgs (queue s)) + 3 * length (timers s) + 2" using waits(2) st(3) by (simp add: ahead_def)
      then show ?thesis
        using loop_methods.task_enabled [OF lm, of "fst c" "snd c"] waits(1) st(1) by (cases c) auto
    qed (use st(1) in simp)
  qed (use st(1) in simp)
qed

theorem stop_ends_every_run_witness:
  "\<exists>c. task_step fifo_ops aio ((own_step fifo_ops aio ^^ 1) (fst (stop_async fifo_ops None (after_calls None [])), Top)) c"
proof -
  let ?s = "after_calls None []"
  let ?c = "(own_step fifo_ops aio ^^ 1) (fst (stop_async fifo_ops None ?s), Top)"
  have e: "\<not> closed_flag ?s" "\<not> stopped ?s" "stop_wait ?s = None" "snd (queue ?s) = None"
    by (code_simp, code_simp, code_simp, code_simp)
  obtain s' r where st: "stop_async fifo_ops None ?s = (s', r)" by fastforce
  have x: "snd ?c = Waiting None" "\<not> hcancelled (handles (fst ?c) (next_hid ?s))"
    "keeps_moving 1 fifo_ops aio (fst (stop_async fifo_ops None ?s), Top)"
    by (code_simp, code_simp, code_simp)
  from stop_ends_every_run [OF fifo.memory_channel_axioms after_calls_ok(1) e(1-3) _ st,
      OF _ own_steps_counted [OF x(3) [unfolded st fst_conv]]]
  show ?thesis using x(1,2) e(4) unfolding st fst_conv by auto
qed

end
