(* ===== verification/Spec2Isabelle.thy ===== *)
theory Spec2Isabelle
  imports Io_Properties Child_Windows Aio_Util Loop_Refinement Public_Api Asyncio_Patches Trio_State
    Module_Names Loop_Object Loop_Liveness
begin

text \<open>
  A verification development for trio-asyncio (package \<open>src/trio_asyncio\<close>), which runs
  asyncio's event loop inside a Trio program.

  The program. \<open>_base.py\<close> has the event loop: callbacks are put into a memory channel, the
  task of \<open>_main_loop\<close> takes them out and runs them, keeps timers on a heap, and starts Trio
  tasks in a nursery for the functions that asyncio code wants Trio to run. \<open>_async.py\<close> and
  \<open>_sync.py\<close> complete it to the loop of \<open>open_loop()\<close> and to a loop that may be started and
  stopped, which runs in a greenlet. \<open>_handles.py\<close> has the handles of Trio tasks and of I/O
  callbacks, \<open>_util.py\<close> the waits of one world for the other, \<open>_child.py\<close> the wait for child
  processes, \<open>_loop.py\<close> the choice of the current loop, the child watcher and
  \<open>open_loop()\<close>, \<open>_adapter.py\<close> the wrappers the user sees, \<open>_deprecate.py\<close> the old names.

  Conventions. Exceptions are the datatype \<open>exn\<close>; a method is a function from the state to the
  new state and either the exception it raised or its value (type \<open>py\<close>, with \<open>py_bind\<close>).
  Objects compared by identity are numbered, times are rational numbers. A coroutine is cut at
  the points where it is suspended: the parts are functions, and a step relation says what may
  happen in between.

  Theories, from the lowest to the highest layer:

  \<^item> \<open>Aio_Prelude\<close>: identities, exceptions with Python's class tests, \<open>py\<close>, facts on lists.
  \<^item> \<open>Heapq\<close>: Python's \<open>heapq\<close> on lists, as the loop's heap uses it, and its contract as a
    priority queue (locale and interpretation).
  \<^item> \<open>Exception_Groups\<close>: \<open>concat_tb\<close>, \<open>collapse_exception_group\<close> and the collapse-aware split
    of \<open>_handles.py\<close>; the locale \<open>exception_class\<close> is the contract of a class test.
  \<^item> \<open>Asyncgen_Hooks\<close>: \<open>AsyncGeneratorDispatcher\<close> of \<open>_base.py\<close>.
  \<^item> \<open>Loop_State\<close>: the loop object as the record \<open>loop\<close>, handles and futures, the interface
    \<open>memory_channel\<close> of Trio's channel, scheduling, cancelling, futures, running a callback. The
    methods a subclass provides are the record \<open>methods\<close>.
  \<^item> \<open>Io_Handlers\<close>: readers and writers, their tasks, \<open>autoclose\<close>, \<open>_cancel_fds\<close>;
    \<open>Loop_Calls\<close>: a call of the loop's interface, what a callback does, a step of an I/O task.
  \<^item> \<open>Async_Loop\<close> (\<open>_async.py\<close>) and \<open>Async_Handle\<close> (\<open>AsyncHandle._run\<close>, with \<open>_raise\<close>).
  \<^item> \<open>Main_Loop\<close>: \<open>_main_loop_init\<close>, \<open>_main_loop\<close>, \<open>_main_loop_one\<close>, \<open>_main_loop_exit\<close>: functions,
    and the relation \<open>loop_step\<close> in which, while the loop's task is suspended, other code calls
    the loop, the clock advances, Trio runs functions from other threads, Trio tasks end, and
    the tasks of readers and writers run (\<open>other_step\<close>, and \<open>meanwhile\<close> for any number of these). The
    drain of \<open>_main_loop_exit\<close> takes what happens around its iterations as the argument \<open>others\<close>.
  \<^item> \<open>Io_Frame\<close> and \<open>Future_Frame\<close>: how readers and writers, and how handles and their futures
    may change, with their invariants (one task per slot; a finished handle has a resolved
    future).
  \<^item> \<open>Loop_Contract\<close>: the contract \<open>loop_methods\<close> of a subclass (what its methods may change),
    discharged for \<open>TrioEventLoop\<close>; \<open>Loop_Invariants\<close>, \<open>Loop_Runs\<close>, \<open>Loop_Drain\<close>,
    \<open>Loop_Exit\<close>, \<open>Loop_Start\<close>: the lemmas about every loop that meets it.
  \<^item> \<open>Loop_Properties\<close>, \<open>Async_Properties\<close>, \<open>Future_Properties\<close>, \<open>Io_Properties\<close>: the
    properties of the asynchronous loop, of the futures of Trio tasks, and of I/O tasks.
  \<^item> \<open>Loop_Liveness\<close>: the steps of the loop's own task are told from all others and counted; what
    is ahead of a message, or of a due timer, is a measure that bounds them.
  \<^item> \<open>Sync_Loop\<close> (\<open>_sync.py\<close>), \<open>Sync_Contract\<close> (it meets the same contract) and
    \<open>Sync_Properties\<close>.
  \<^item> \<open>Trio_State\<close>: \<open>clean_trio_state\<close>, in which the greenlets of \<open>_sync.py\<close> are switched, and the
    private states it gives them.
  \<^item> \<open>Loop_Refinement\<close>: an abstract scheduler of a queue, a multiset of timers and the watched
    descriptors, which the main loop of either class implements.
  \<^item> \<open>Child\<close> (\<open>_child.py\<close>): wait statuses as 32-bit words; the processes, waiters, threads and
    callers as the relation \<open>child_step\<close>; \<open>Child_Windows\<close>: its branch for Windows.
  \<^item> \<open>Aio_Util\<close> (\<open>_util.py\<close>): \<open>run_aio_future\<close> and \<open>run_aio_generator\<close> as relations between
    the Trio task and the asyncio side, \<open>run_trio_generator\<close>.
  \<^item> \<open>Policy\<close> (\<open>_loop.py\<close>): one thread with its policies and contexts, and the functions put in
    place of asyncio's; \<open>Asyncio_Patches\<close>: how the import puts them there, against asyncio's
    own. \<open>Services\<close>: signals, executors, the child watcher, coroutines and
    subprocesses. \<open>Open_Loop\<close>, \<open>Open_Properties\<close>, \<open>Open_Closing\<close>: the block of \<open>open_loop()\<close> as
    steps beside those of the main loop, and what happens once its \<open>tasks_nursery\<close> is closed.
  \<^item> \<open>Adapter\<close> (\<open>_adapter.py\<close>): the requests that the uses of a wrapper make, and
    \<open>allow_asyncio\<close> on coroutines as trees of what they yield. \<open>Public_Api\<close>: \<open>run()\<close> and the
    functions that use the current loop.
  \<^item> \<open>Module_Names\<close> and \<open>Deprecations\<close>: \<open>fixup_module_metadata\<close> on an object graph; the texts
    and the lookup of deprecated names. \<open>Loop_Object\<close>: \<open>__repr__\<close> and the hooks that only raise,
    the names of the package.

  What is shown. Of the main loop, for any channel with Trio's laws and any callbacks: order,
  timers, cancellation, that no message and no due timer starves and \<open>stop()\<close> ends it after
  everything before it was handled, whatever else is going on meanwhile, that nothing but \<open>stop()\<close>, process exits
  and the closed nursery ends it, that draining and leaving it end and clean up if the callbacks let
  them, and that a callback that always schedules itself again keeps them going for ever; the same guarantees for the sync loop, which may
  be run again and again. Of the futures: each is resolved, with the outcome its Trio function
  had. Of the waits between the worlds: outcomes are passed on, items neither lost nor
  repeated. Of \<open>open_loop()\<close>: how it ends, that nothing starts while it closes, and
  where exceptions of its body go, up to the caller of \<open>run()\<close>. Of the import: that outside Trio
  asyncio's functions answer as in a thread that never set a loop, with loops of the other class. Of the
  greenlets: that each has a Trio state of its own. Some
  properties state how the code fails: a second \<open>wait()\<close> for a child, a full channel at
  \<open>stop()\<close>, an iterator that raises \<open>CancelledError\<close>, generators of a loop that stops late,
  the branch for Windows of \<open>_child.py\<close>.

  Parameters. What is not code of the repository is an argument: the channel, user callbacks
  (traces of the loop operations they perform, given with the callback or, for numbered functions that may
  schedule themselves again, by the field \<open>program\<close>), the policies of the user, the outcome of Trio
  functions, the way Trio's nurseries group exceptions, the signals the system lets one catch.
  asyncio's and Python's own classes (futures, handles, the default policy, \<open>heapq\<close>) are
  modelled as far as the code uses them.

  Termination and bounds. The sift loops of the heap have measures. The two loops that drain
  the channel are \<open>partial_function\<close>s, whose value \<open>None\<close> means that they do not return. That they
  return is proved with the measure \<open>work\<close>, which weighs every callback, timer and waiting
  done-callback, if every call of a function \<open>n\<close> makes at most \<open>rk n\<close> work (\<open>ranked\<close>) and the others
  make none from some iteration on (\<open>adds_no_work\<close>); without the first it is false, as a function that
  schedules itself again shows.
  The recursion of \<open>fixup_module_metadata\<close> has fuel, for which more than the number of public
  objects is enough. Wait statuses are words of 32 bits. A message, that of \<open>stop()\<close> included,
  with \<open>m\<close> messages before it and \<open>t\<close> timers on the heap is taken within \<open>6 * m + 3 * t + 2\<close>
  steps of the loop's task, a due timer within \<open>t + 2\<close>.

  Simplifications. Starting a Trio function and the beginning of its \<open>_run\<close>, up to \<open>_started.set()\<close>, are
  one step of the loop; \<open>others\<close> may act after every iteration of a drain, though only those that start
  a function suspend the loop's task. \<open>trio.Event.clear()\<close>, which \<open>stop(waiter)\<close> calls and current Trio
  lacks, clears. The objects that
  \<open>fixup_module_metadata\<close> renames let their attributes be set. Coroutines of \<open>allow_asyncio\<close> are finite.

  Not modelled. The loggers and the text of handles in asyncio's debug output, on which nothing
  depends; asyncio's subprocess transport; \<open>trio.run\<close> around the task of \<open>run()\<close>; asyncio tasks
  beyond their futures; tests; the settings of the documentation (\<open>docs/source/conf.py\<close>) and of
  the package (\<open>setup.py\<close>), which are assignments of constants without operations.
\<close>

end
